(* ===== verification/GoNum.thy ===== *)
theory GoNum
  imports Complex_Main "HOL-Library.Word" "HOL-Library.Log_Nat"
begin

text \<open>
  Go's numbers as the program uses them: \<open>int64\<close> durations as 64-bit words read in two's
  complement, truncated integer division, and IEEE double precision arithmetic as exact rationals
  rounded to 53 significant bits (round half to even). The program computes no NaN and stays far
  from the overflow and subnormal ranges, so those are left out.
\<close>

named_theorems go_num

section \<open>Signed 64-bit integers and time\<close>

type_synonym duration = "64 word"
type_synonym time = int

abbreviation dur :: "int \<Rightarrow> duration" where
  "dur n \<equiv> word_of_int n"

abbreviation nanos :: "duration \<Rightarrow> int" where
  "nanos d \<equiv> sint d"

definition Millisecond :: duration where
  "Millisecond = 1000000"

definition Second :: duration where
  "Second = 1000000000"

text \<open>Go's integer division truncates towards zero.\<close>

definition trunc_div :: "int \<Rightarrow> int \<Rightarrow> int" where
  "trunc_div a b = sgn a * sgn b * (\<bar>a\<bar> div \<bar>b\<bar>)"

definition trunc_mod :: "int \<Rightarrow> int \<Rightarrow> int" where
  "trunc_mod a b = a - b * trunc_div a b"

definition max_dur :: int where
  "max_dur = 2 ^ 63 - 1"

definition min_dur :: int where
  "min_dur = - (2 ^ 63)"

text \<open>
  \<open>time.Time\<close> is the number of nanoseconds since Go's zero time, which is 0 here. \<open>Time.Sub\<close>
  saturates at the ends of the \<open>Duration\<close> range.
\<close>

definition time_add :: "time \<Rightarrow> duration \<Rightarrow> time" where
  "time_add t d = t + nanos d"

definition time_sub :: "time \<Rightarrow> time \<Rightarrow> duration" where
  "time_sub t u = dur (max min_dur (min max_dur (t - u)))"

lemma nanos_dur [go_num]: "min_dur \<le> n \<Longrightarrow> n \<le> max_dur \<Longrightarrow> nanos (dur n) = n"
  by (simp add: min_dur_def max_dur_def signed_of_int signed_take_bit_int_eq_self)

lemma nanos_bounds: "min_dur \<le> nanos d" "nanos d \<le> max_dur"
  using sint_range_size [of d] by (simp_all add: word_size min_dur_def max_dur_def)

lemma nanos_time_sub [go_num]: "nanos (time_sub t u) = max min_dur (min max_dur (t - u))"
  unfolding time_sub_def by (rule nanos_dur) (simp_all add: min_dur_def max_dur_def)

lemma trunc_div_nonneg [go_num]: "0 \<le> a \<Longrightarrow> 0 < b \<Longrightarrow> trunc_div a b = a div b"
  by (cases "a = 0") (simp_all add: trunc_div_def)

lemma trunc_mod_nonneg [go_num]: "0 \<le> a \<Longrightarrow> 0 < b \<Longrightarrow> trunc_mod a b = a mod b"
  by (simp only: trunc_mod_def trunc_div_nonneg minus_mult_div_eq_mod)

text \<open>A 32-bit TTL in seconds never overflows a \<open>Duration\<close>.\<close>

definition ttl_duration :: "32 word \<Rightarrow> duration" where
  "ttl_duration ttl = ucast ttl * Second"

lemma nanos_ttl_duration [go_num]: "nanos (ttl_duration ttl) = uint ttl * 1000000000"
proof -
  have b: "0 \<le> uint ttl" "uint ttl < 2 ^ 32"
    using uint_bounded [of ttl] by simp_all
  have "ttl_duration ttl = dur (uint ttl * 1000000000)"
    by (simp only: ttl_duration_def Second_def ucast_eq of_int_mult of_int_numeral)
  moreover have "min_dur \<le> uint ttl * 1000000000"
    by (rule order_trans [of _ 0]) (simp_all add: min_dur_def)
  moreover have "uint ttl * 1000000000 \<le> max_dur"
    using b(2) by (simp add: max_dur_def)
  ultimately show ?thesis by (simp only: nanos_dur)
qed

section \<open>Double precision rounding\<close>

definition round_half_even :: "rat \<Rightarrow> int" where
  "round_half_even x =
     (let n = \<lfloor>x\<rfloor>; d = x - of_int n
      in if d < 1 / 2 then n else if 1 / 2 < d then n + 1 else if even n then n else n + 1)"

definition f64_exp :: "rat \<Rightarrow> int" where
  "f64_exp x =
     (let (p, q) = quotient_of x;
          e = int (floorlog 2 (nat p)) - int (floorlog 2 (nat q))
      in if 2 powi e \<le> x then e else e - 1)"

definition f64_pos :: "rat \<Rightarrow> rat" where
  "f64_pos x = (let e = f64_exp x in of_int (round_half_even (x * 2 powi (52 - e))) * 2 powi (e - 52))"

definition f64 :: "rat \<Rightarrow> rat" where
  "f64 x = (if x = 0 then 0 else if 0 < x then f64_pos x else - f64_pos (- x))"

lemma round_half_even_cases: "round_half_even x = \<lfloor>x\<rfloor> \<or> round_half_even x = \<lfloor>x\<rfloor> + 1"
  by (simp add: round_half_even_def Let_def)

lemma round_half_even_of_int [simp]: "round_half_even (of_int n) = n"
  by (simp add: round_half_even_def)

lemma round_half_even_mono: 
  assumes "x \<le> y"
  shows "round_half_even x \<le> round_half_even y"
proof (cases "\<lfloor>x\<rfloor> = \<lfloor>y\<rfloor>")
  case True
  with assms show ?thesis
    by (auto simp: round_half_even_def Let_def)
next
  case False
  with floor_mono [OF assms] have "\<lfloor>x\<rfloor> + 1 \<le> \<lfloor>y\<rfloor>" by simp
  then show ?thesis
    using round_half_even_cases [of x] round_half_even_cases [of y] by linarith
qed

lemma of_int_pow2_le: "(2::int) ^ k \<le> n \<Longrightarrow> (2::rat) ^ k \<le> of_int n"
  by (metis of_int_le_iff of_int_numeral of_int_power)

lemma of_int_less_pow2: "n < (2::int) ^ k \<Longrightarrow> (of_int n :: rat) < 2 ^ k"
  by (metis of_int_less_iff of_int_numeral of_int_power)

lemma f64_exp_bounds:
  assumes "0 < x"
  shows "2 powi f64_exp x \<le> x" and "x < 2 powi (f64_exp x + 1)"
proof -
  obtain p q where pq: "quotient_of x = (p, q)" by force
  have x: "x = of_int p / of_int q" and q: "0 < q"
    using quotient_of_div [OF pq] quotient_of_denom_pos [OF pq] by simp_all
  with assms have p: "0 < p"
    by (simp add: zero_less_divide_iff)
  define a where "a = floorlog 2 (nat p)"
  define b where "b = floorlog 2 (nat q)"
  have fa: "2 ^ (a - 1) \<le> nat p" "nat p < 2 ^ a" and fb: "2 ^ (b - 1) \<le> nat q" "nat q < 2 ^ b"
    using floorlog_bounds [of "nat p" 2] floorlog_bounds [of "nat q" 2] p q
    by (simp_all add: a_def b_def)
  have ab: "0 < a" "0 < b"
    using p q by (simp_all add: a_def b_def floorlog_eq_zero_iff flip: neq0_conv)
  have ia: "(2::int) ^ (a - 1) \<le> p" "p < 2 ^ a" and ib: "(2::int) ^ (b - 1) \<le> q" "q < 2 ^ b"
    using fa fb p q by (simp_all add: nat_less_iff le_nat_iff)
  have ra: "(2::rat) ^ (a - 1) \<le> of_int p" "(of_int p::rat) < 2 ^ a"
    and rb: "(2::rat) ^ (b - 1) \<le> of_int q" "(of_int q::rat) < 2 ^ b"
    using ia ib of_int_pow2_le of_int_less_pow2 by blast+
  define e where "e = int a - int b"
  have hi: "x < 2 powi (e + 1)"
  proof -
    have "x < 2 ^ a / 2 ^ (b - 1)"
      unfolding x by (rule frac_less) (use ra rb p q in simp_all)
    also have "\<dots> = 2 powi (e + 1)"
      using ab by (simp add: e_def power_int_diff power_int_add power_diff)
    finally show ?thesis .
  qed
  have lo: "2 powi (e - 1) \<le> x"
  proof -
    have "2 powi (e - 1) = (2::rat) ^ (a - 1) / 2 ^ b"
      using ab by (simp add: e_def power_int_diff power_int_add power_diff)
    also have "\<dots> \<le> x"
      unfolding x by (rule frac_le) (use ra rb p q in simp_all)
    finally show ?thesis .
  qed
  have fe: "f64_exp x = (if 2 powi e \<le> x then e else e - 1)"
    by (simp add: f64_exp_def pq e_def a_def b_def)
  show "2 powi f64_exp x \<le> x" using lo by (simp add: fe)
  show "x < 2 powi (f64_exp x + 1)" using hi by (simp add: fe)
qed


lemma powi_less_cancel: "(2::rat) powi m < 2 powi n \<Longrightarrow> m < n"
  using power_int_increasing [of n m "2::rat"] by (meson not_less one_le_numeral)

lemma powi_shift: "(2::rat) powi (m + n) = 2 powi m * 2 powi n"
  by (simp add: power_int_add)

lemma f64_pos_bounds:
  assumes "0 < x"
  shows "2 powi f64_exp x \<le> f64_pos x" and "f64_pos x \<le> 2 powi (f64_exp x + 1)"
proof -
  define e where "e = f64_exp x"
  define z where "z = x * 2 powi (52 - e)"
  have b: "2 powi e \<le> x" "x < 2 powi (e + 1)"
    using f64_exp_bounds [OF assms] by (simp_all add: e_def)
  have sp: "2 powi e * 2 powi (52 - e) = (2::rat) ^ 52"
      "2 powi (e + 1) * 2 powi (52 - e) = (2::rat) ^ 53"
    by (simp_all flip: powi_shift)
  have "(2::rat) ^ 52 \<le> z" "z \<le> 2 ^ 53"
    using mult_right_mono [OF b(1), of "2 powi (52 - e)"]
      mult_right_mono [OF less_imp_le [OF b(2)], of "2 powi (52 - e)"]
    by (simp_all only: z_def sp) simp_all
  then have "round_half_even (of_int (2 ^ 52)) \<le> round_half_even z"
      "round_half_even z \<le> round_half_even (of_int (2 ^ 53))"
    by (simp_all add: round_half_even_mono)
  then have r: "(2::int) ^ 52 \<le> round_half_even z" "round_half_even z \<le> 2 ^ 53"
    by (simp_all only: round_half_even_of_int)
  then have rr: "(2::rat) ^ 52 \<le> of_int (round_half_even z)" "of_int (round_half_even z) \<le> (2::rat) ^ 53"
    using of_int_pow2_le [OF r(1)] of_int_le_iff [where 'a = rat, THEN iffD2, OF r(2)] by simp_all
  have f: "f64_pos x = of_int (round_half_even z) * 2 powi (e - 52)"
    by (simp add: f64_pos_def Let_def e_def z_def)
  have bk: "(2::rat) ^ 52 * 2 powi (e - 52) = 2 powi e" "(2::rat) ^ 53 * 2 powi (e - 52) = 2 powi (e + 1)"
    using powi_shift [of 52 "e - 52"] powi_shift [of 53 "e - 52"] by (simp_all add: add.commute)
  show "2 powi f64_exp x \<le> f64_pos x" "f64_pos x \<le> 2 powi (f64_exp x + 1)"
    using mult_right_mono [OF rr(1), of "2 powi (e - 52)"] mult_right_mono [OF rr(2), of "2 powi (e - 52)"]
    by (simp_all only: f bk flip: e_def) simp_all
qed

lemma f64_pos_mono:
  assumes "0 < x" "x \<le> y"
  shows "f64_pos x \<le> f64_pos y"
proof -
  have y: "0 < y" using assms by simp
  have "2 powi f64_exp x < (2::rat) powi (f64_exp y + 1)"
    using f64_exp_bounds [OF assms(1)] f64_exp_bounds [OF y] assms(2) by linarith
  then have le: "f64_exp x \<le> f64_exp y"
    using powi_less_cancel by fastforce
  show ?thesis
  proof (cases "f64_exp x = f64_exp y")
    case True
    have "round_half_even (x * 2 powi (52 - f64_exp y)) \<le> round_half_even (y * 2 powi (52 - f64_exp y))"
      by (rule round_half_even_mono) (simp add: assms(2))
    then show ?thesis
      by (simp add: f64_pos_def Let_def True)
  next
    case False
    with le have "(2::rat) powi (f64_exp x + 1) \<le> 2 powi f64_exp y"
      by (intro power_int_increasing) simp_all
    then show ?thesis
      using f64_pos_bounds [OF assms(1)] f64_pos_bounds [OF y] by linarith
  qed
qed

lemma f64_pos_gt_0: "0 < x \<Longrightarrow> 0 < f64_pos x"
  using f64_pos_bounds(1) [of x] by (meson less_le_trans zero_less_numeral zero_less_power_int)

lemma f64_mono: "x \<le> y \<Longrightarrow> f64 x \<le> f64 y"
  using f64_pos_mono [of x y] f64_pos_mono [of "- y" "- x"] f64_pos_gt_0 [of y] f64_pos_gt_0 [of "- x"]
  by (auto simp: f64_def not_less dest: less_le_trans)

lemma f64_0 [simp]: "f64 0 = 0"
  by (simp add: f64_def)

lemma f64_nonneg: "0 \<le> x \<Longrightarrow> 0 \<le> f64 x"
  using f64_mono [of 0 x] by simp

lemma f64_eq_0_iff [simp]: "f64 x = 0 \<longleftrightarrow> x = 0"
  using f64_pos_gt_0 [of x] f64_pos_gt_0 [of "- x"] by (auto simp: f64_def)

lemma f64_pos_of_int:
  assumes "0 < n" "n < 2 ^ 53"
  shows "f64_pos (of_int n) = of_int n"
proof -
  define e where "e = f64_exp (of_int n)"
  have b: "2 powi e \<le> (of_int n :: rat)" "(of_int n :: rat) < 2 powi (e + 1)"
    using f64_exp_bounds [of "of_int n"] assms by (simp_all add: e_def)
  have "2 powi e < (2::rat) powi 53"
    using b(1) of_int_less_pow2 [OF assms(2)] by simp
  then have e53: "e \<le> 52" using powi_less_cancel by fastforce
  have scale: "of_int n * 2 powi (52 - e) = (of_int (n * 2 ^ nat (52 - e)) :: rat)"
    using e53 by (simp add: power_int_def)
  have "of_int (n * 2 ^ nat (52 - e)) * 2 powi (e - 52) = (of_int n * (2 powi (52 - e) * 2 powi (e - 52)) :: rat)"
    by (simp only: scale [symmetric] mult.assoc)
  also have "\<dots> = of_int n"
    by (simp flip: powi_shift)
  finally show ?thesis
    by (simp only: f64_pos_def Let_def scale round_half_even_of_int flip: e_def)
qed

lemma f64_of_int: "\<bar>n\<bar> < 2 ^ 53 \<Longrightarrow> f64 (of_int n) = of_int n"
  using f64_pos_of_int [of n] f64_pos_of_int [of "- n"] by (auto simp: f64_def)


section \<open>Seconds of a duration, and float to integer conversion\<close>

text \<open>
  \<open>Duration.Seconds\<close> adds the whole seconds and the remaining nanoseconds as doubles. A conversion
  of a double to \<open>uint32\<close> drops the fraction; out of the range of \<open>uint32\<close> Go leaves the result to
  the implementation, which is the argument \<open>oob\<close>.
\<close>

definition Seconds :: "duration \<Rightarrow> rat" where
  "Seconds d =
     (let s = trunc_div (nanos d) 1000000000; n = trunc_mod (nanos d) 1000000000
      in f64 (f64 (of_int s) + f64 (f64 (of_int n) / 1000000000)))"

definition trunc_rat :: "rat \<Rightarrow> int" where
  "trunc_rat x = (if 0 \<le> x then \<lfloor>x\<rfloor> else \<lceil>x\<rceil>)"

definition f64_to_u32 :: "(rat \<Rightarrow> 32 word) \<Rightarrow> rat \<Rightarrow> 32 word" where
  "f64_to_u32 oob x =
     (let n = trunc_rat x in if 0 \<le> n \<and> n < 2 ^ 32 then word_of_int n else oob x)"

lemma Seconds_bounds:
  assumes "0 \<le> nanos d"
  defines "s \<equiv> nanos d div 1000000000"
  shows "of_int s \<le> Seconds d" and "Seconds d \<le> of_int (s + 1)"
    and "nanos d mod 1000000000 = 0 \<Longrightarrow> Seconds d = of_int s"
proof -
  define n where "n = nanos d mod 1000000000"
  have n: "0 \<le> n" "n < 1000000000" by (simp_all add: n_def)
  have s0: "0 \<le> s" using assms by (simp add: s_def pos_imp_zdiv_nonneg_iff)
  have "s \<le> max_dur div 1000000000"
    unfolding s_def by (rule zdiv_mono1) (simp_all add: nanos_bounds)
  then have s1: "s < 2 ^ 53 - 1" by (simp add: max_dur_def)
  have fs: "f64 (of_int s) = of_int s"
    by (rule f64_of_int) (use s0 s1 in linarith)
  have fn: "f64 (of_int n) = of_int n"
    by (rule f64_of_int) (use n in simp)
  have S: "Seconds d = f64 (of_int s + f64 (of_int n / 1000000000))"
    using assms(1)
    by (simp add: Seconds_def Let_def trunc_div_nonneg trunc_mod_nonneg fs fn flip: s_def n_def)
  have "(of_int n :: rat) < of_int 1000000000"
    using n(2) by (simp only: of_int_less_iff)
  then have q: "0 \<le> (of_int n / 1000000000 :: rat)" "(of_int n / 1000000000 :: rat) \<le> 1"
    using n(1) by simp_all
  have fq: "0 \<le> f64 (of_int n / 1000000000)" "f64 (of_int n / 1000000000) \<le> 1"
    using f64_nonneg [OF q(1)] f64_mono [OF q(2)] f64_of_int [of 1] by simp_all
  have "f64 (of_int s) \<le> Seconds d"
    unfolding S by (rule f64_mono) (use fq in simp)
  then show "of_int s \<le> Seconds d" by (simp only: fs)
  have "Seconds d \<le> f64 (of_int (s + 1))"
    unfolding S by (rule f64_mono) (use fq in simp)
  also have "\<dots> = of_int (s + 1)"
    by (rule f64_of_int) (use s0 s1 in linarith)
  finally show "Seconds d \<le> of_int (s + 1)" .
  show "Seconds d = of_int s" if "nanos d mod 1000000000 = 0"
    using that by (simp add: S fs flip: n_def)
qed

lemma trunc_Seconds:
  assumes "0 \<le> nanos d"
  shows "nanos d div 1000000000 \<le> trunc_rat (Seconds d)"
    and "trunc_rat (Seconds d) \<le> nanos d div 1000000000 + 1"
    and "nanos d mod 1000000000 = 0 \<Longrightarrow> trunc_rat (Seconds d) = nanos d div 1000000000"
    and "0 \<le> trunc_rat (Seconds d)"
proof -
  have s0: "0 \<le> nanos d div 1000000000" using assms by (simp add: pos_imp_zdiv_nonneg_iff)
  have "0 \<le> (of_int (nanos d div 1000000000) :: rat)" using s0 by simp
  then have pos: "0 \<le> Seconds d" using Seconds_bounds(1) [OF assms] by (rule order_trans)
  then have t: "trunc_rat (Seconds d) = \<lfloor>Seconds d\<rfloor>" by (simp add: trunc_rat_def)
  show "nanos d div 1000000000 \<le> trunc_rat (Seconds d)"
    using Seconds_bounds(1) [OF assms] by (simp only: t le_floor_iff)
  show "trunc_rat (Seconds d) \<le> nanos d div 1000000000 + 1"
    using floor_mono [OF Seconds_bounds(2) [OF assms]] by (simp only: t floor_of_int)
  show "trunc_rat (Seconds d) = nanos d div 1000000000" if "nanos d mod 1000000000 = 0"
    using Seconds_bounds(3) [OF assms that] t by simp
  show "0 \<le> trunc_rat (Seconds d)" using pos by (simp add: t)
qed

end
