(* ===== verification/Prelude.thy ===== *)
theory Prelude
  imports GoNum "HOL-Library.Finite_Map" "HOL-Library.Multiset"
begin

text \<open>
  What the components share: the outcome of code that may panic, Go's \<open>error\<close> values, the clock,
  the two \<open>fmt\<close> verbs \<open>%s:%d\<close> that build every key and address, the enumeration of a map by
  \<open>range\<close>, and the collections of hints the component proofs use.
\<close>

named_theorems cache_simps \<open>unfolding rules of the record cache\<close>
named_theorems pool_simps \<open>unfolding rules of the connection pool\<close>
named_theorems server_simps \<open>unfolding rules of the servers\<close>

section \<open>Panics and errors\<close>

datatype panic_reason = IndexOutOfRange | NilDereference | SemaphoreFailure | NonPositiveInterval

datatype 'a outcome = Ok 'a | Panic panic_reason

fun outcome_bind :: "'a outcome \<Rightarrow> ('a \<Rightarrow> 'b outcome) \<Rightarrow> 'b outcome" where
  "outcome_bind (Ok x) f = f x"
| "outcome_bind (Panic r) f = Panic r"

lemma outcome_bind_eq_Ok [simp]: "outcome_bind m f = Ok y \<longleftrightarrow> (\<exists>x. m = Ok x \<and> f x = Ok y)"
  by (cases m) auto

text \<open>
  One constructor per \<open>fmt.Errorf\<close> of the source; \<open>External\<close> is an error from outside it, and the last
  three are those of the JSON decoder.
\<close>

datatype go_error =
    External string
  | NoSuchUpstream string
  | UpdateUpstreamFailed string go_error
  | AddConnectionFailed string go_error
  | UpstreamVanished string go_error go_error
  | CoolingUpstream string go_error
  | ConnectFailed string go_error
  | NoPoolConnection go_error
  | LookupFailed string string
  | NoExchange go_error
  | RecursiveQueryFailed string go_error
  | NoConnection string "go_error option"
  | DialAttemptFailed string go_error "go_error option"
  | ExchangeFailed go_error
  | ZoneTokenError go_error
  | ClientNotBuilt go_error
  | CacheNotBuilt go_error
  | UnsupportedProtocol string
  | NoConfFile
  | LogOpenFailed string go_error
  | ConfigurationLoadFailed go_error
  | NotJson
  | UnknownField string
  | TypeMismatch string

section \<open>The clock\<close>

text \<open>
  The readings that successive calls of \<open>time.Now()\<close> return. An operation that reads the clock takes
  such a sequence; where it loops, each round reads from a later point of it.
\<close>

type_synonym clock = "nat \<Rightarrow> time"

definition later :: "nat \<Rightarrow> clock \<Rightarrow> clock" where
  "later k clk = (\<lambda>n. clk (n + k))"

lemma later_apply: "later k clk n = clk (n + k)"
  by (simp add: later_def)

lemma later_const [simp]: "later k (\<lambda>_. now) = (\<lambda>_. now)"
  by (simp add: later_def)

lemma later_0 [simp]: "later k clk 0 = clk k"
  by (simp add: later_def)

section \<open>Decimal formatting and keys\<close>

fun decimal :: "nat \<Rightarrow> string" where
  "decimal n =
     (if n < 10 then [char_of (48 + n)] else decimal (n div 10) @ [char_of (48 + n mod 10)])"

declare decimal.simps [simp del]

definition format_d :: "int \<Rightarrow> string" where
  "format_d i = (if i < 0 then CHR ''-'' # decimal (nat (- i)) else decimal (nat i))"

definition format_s_d :: "string \<Rightarrow> int \<Rightarrow> string" where
  "format_s_d s i = s @ '':'' @ format_d i"

fun undecimal :: "string \<Rightarrow> nat" where
  "undecimal cs = foldl (\<lambda>v c. 10 * v + (of_char c - 48)) 0 cs"

lemma digit_of_char: "d < 10 \<Longrightarrow> of_char (char_of (48 + d) :: char) = 48 + d" for d :: nat
  by simp

lemma undecimal_decimal: "undecimal (decimal n) = n"
proof (induction n rule: decimal.induct)
  case (1 n)
  show ?case
  proof (cases "n < 10")
    case True
    then show ?thesis by (simp add: decimal.simps [of n])
  next
    case False
    with 1 show ?thesis by (simp add: decimal.simps [of n])
  qed
qed

lemma decimal_inject [simp]: "decimal m = decimal n \<longleftrightarrow> m = n"
  by (metis undecimal_decimal)

lemma decimal_digits: "c \<in> set (decimal n) \<Longrightarrow> 48 \<le> (of_char c :: nat) \<and> of_char c < (58 :: nat)"
proof (induction n rule: decimal.induct)
  case (1 n)
  then show ?case
    by (cases "n < 10") (auto simp: decimal.simps [of n])
qed

lemma decimal_no_colon: "CHR '':'' \<notin> set (decimal n)"
  using decimal_digits [of "CHR '':''" n] by auto

lemma decimal_no_minus: "CHR ''-'' \<notin> set (decimal n)"
  using decimal_digits [of "CHR ''-''" n] by auto

lemma format_d_no_colon: "CHR '':'' \<notin> set (format_d i)"
  by (simp add: format_d_def decimal_no_colon)

lemma format_d_inject [simp]: "format_d i = format_d j \<longleftrightarrow> i = j"
  using decimal_no_minus [of "nat i"] decimal_no_minus [of "nat j"]
  by (auto simp: format_d_def dest: sym)

text \<open>The last separator of a key splits it, so a formatted pair determines its parts.\<close>

lemma append_sep_cancel:
  assumes "xs @ c # us = ys @ c # vs" and "c \<notin> set us" and "c \<notin> set vs"
  shows "xs = ys \<and> us = vs"
proof -
  have "takeWhile (\<lambda>d. d \<noteq> c) (rev (xs @ c # us)) = rev us"
       "takeWhile (\<lambda>d. d \<noteq> c) (rev (ys @ c # vs)) = rev vs"
    using assms(2,3) by (simp_all add: takeWhile_append)
  with assms(1) have "us = vs" by simp
  with assms(1) show ?thesis by simp
qed

lemma format_s_d_inject [simp]: "format_s_d s i = format_s_d t j \<longleftrightarrow> s = t \<and> i = j"
  using append_sep_cancel [of s "CHR '':''" "format_d i" t "format_d j"]
  by (auto simp: format_s_d_def format_d_no_colon)

section \<open>Ranging over a map\<close>

text \<open>
  \<open>range\<close> visits the keys of a Go map in an order the language leaves open; the model takes the
  order as an argument, and \<open>enumerates\<close> says that it visits every key once.
\<close>

definition enumerates :: "'k list \<Rightarrow> ('k, 'v) fmap \<Rightarrow> bool" where
  "enumerates ks m \<longleftrightarrow> distinct ks \<and> set ks = fset (fmdom m)"

abbreviation fm_size :: "('k, 'v) fmap \<Rightarrow> nat" where
  "fm_size m \<equiv> fcard (fmdom m)"

lemma enumerates_empty [simp]: "enumerates ks fmempty \<longleftrightarrow> ks = []"
  by (auto simp: enumerates_def)

lemma enumerates_length: "enumerates ks m \<Longrightarrow> length ks = fm_size m"
  by (metis distinct_card enumerates_def fcard.rep_eq)

lemma fcard_empty [simp]: "fcard {||} = 0"
  by (simp add: fcard.rep_eq)

lemma fcard_single [simp]: "fcard {|x|} = 1"
  by (simp add: fcard.rep_eq)

lemma fm_size_fmupd: "fm_size (fmupd k v m) = (if k |\<in>| fmdom m then fm_size m else Suc (fm_size m))"
  by (simp add: fcard_finsert_if finsert_absorb)

lemma fm_size_0_iff [simp]: "fm_size m = 0 \<longleftrightarrow> m = fmempty"
proof -
  have "fmdom m = {||} \<longleftrightarrow> m = fmempty"
    by (metis fmdom_empty fmrestrict_fset_dom fmrestrict_fset_null)
  then show ?thesis
    by (metis bot_fset.rep_eq card_0_eq fcard.rep_eq finite_fset fset_inject)
qed


lemma set_map_filter: "set (List.map_filter f xs) = {y. \<exists>x\<in>set xs. f x = Some y}"
  by (induction xs) (auto simp: map_filter_simps split: option.splits)

lemma length_map_filter_le: "length (List.map_filter f xs) \<le> length xs"
  by (induction xs) (auto simp: map_filter_simps split: option.splits)

end
