(* ===== verification/Config.thy ===== *)
theory Config
  imports Prelude
begin

text \<open>
  The configuration record of \<open>src/config.go\<close>. \<open>GetConfiguration()\<close> returns the one global record,
  which the operations that call it take as an argument; \<open>ConfigJson\<close> reads it from a file.
\<close>

record logConfig =
  lc_Level :: int
  lc_Location :: string

record tlsConfig =
  tls_PrivateKeyFile :: string
  tls_CertificateFile :: string

record Configuration =
  cfg_CooldownPeriod :: duration
  cfg_UseTfo :: bool
  cfg_CleanInterval :: duration
  cfg_EvictionBatchSize :: int
  cfg_Timeout :: duration
  cfg_ZoneFiles :: "string list"
  cfg_Upstreams :: "string list"
  cfg_Blackhole :: bool
  cfg_DnsPort :: int
  cfg_HttpPort :: int
  cfg_ConcurrentQueries :: int
  cfg_ServerLog :: logConfig
  cfg_QueryLog :: logConfig
  cfg_ListenProtocol :: string
  cfg_TlsConfig :: tlsConfig
  cfg_SkipUpstreamVerification :: bool
  cfg_UpstreamRetries :: int

definition zero_Configuration :: Configuration where
  "zero_Configuration = \<lparr>cfg_CooldownPeriod = 0, cfg_UseTfo = False, cfg_CleanInterval = 0,
     cfg_EvictionBatchSize = 0, cfg_Timeout = 0, cfg_ZoneFiles = [], cfg_Upstreams = [],
     cfg_Blackhole = False, cfg_DnsPort = 0, cfg_HttpPort = 0, cfg_ConcurrentQueries = 0,
     cfg_ServerLog = \<lparr>lc_Level = 0, lc_Location = []\<rparr>,
     cfg_QueryLog = \<lparr>lc_Level = 0, lc_Location = []\<rparr>, cfg_ListenProtocol = [],
     cfg_TlsConfig = \<lparr>tls_PrivateKeyFile = [], tls_CertificateFile = []\<rparr>,
     cfg_SkipUpstreamVerification = False, cfg_UpstreamRetries = 0\<rparr>"

end
