(* ===== verification/Upstreams.thy ===== *)
theory Upstreams
  imports Config
begin

text \<open>
  \<open>src/upstream.go\<close> and the connection entries of \<open>src/connpool.go\<close>. A weight is a double, kept as
  the rational it denotes. A connection is an identifier; an entry without one (\<open>None\<close>) is the
  \<open>&connEntry{}\<close> that the pool returns beside an error or an upstream to dial.
\<close>

section \<open>Upstreams\<close>

record Upstream =
  up_Name :: string
  up_Port :: int
  up_weight :: rat
  up_wakeupTime :: time

definition zero_Upstream :: Upstream where
  "zero_Upstream = \<lparr>up_Name = [], up_Port = 0, up_weight = 0, up_wakeupTime = 0\<rparr>"

definition Upstream_GetAddress :: "Upstream \<Rightarrow> string" where
  "Upstream_GetAddress u = (let port = (if up_Port u = 0 then 853 else up_Port u)
     in format_s_d (up_Name u) port)"

definition Upstream_GetWeight :: "Upstream \<Rightarrow> rat" where
  "Upstream_GetWeight u = up_weight u"

definition Upstream_SetWeight :: "rat \<Rightarrow> Upstream \<Rightarrow> Upstream" where
  "Upstream_SetWeight w u = u\<lparr>up_weight := w\<rparr>"

definition Cooldown :: "time \<Rightarrow> duration \<Rightarrow> Upstream \<Rightarrow> Upstream" where
  "Cooldown now t u = u\<lparr>up_wakeupTime := time_add now t\<rparr>"

definition IsCooling :: "time \<Rightarrow> Upstream \<Rightarrow> bool" where
  "IsCooling now u \<longleftrightarrow> now < up_wakeupTime u"

definition WakeupTime :: "Upstream \<Rightarrow> time" where
  "WakeupTime u = up_wakeupTime u"

section \<open>Connection entries\<close>

record connEntry =
  ce_Conn :: "nat option"
  ce_upstream :: Upstream
  ce_totalRTT :: duration
  ce_exchanges :: int
  ce_error :: bool

definition zero_connEntry :: connEntry where
  "zero_connEntry = \<lparr>ce_Conn = None, ce_upstream = zero_Upstream, ce_totalRTT = 0,
     ce_exchanges = 0, ce_error = False\<rparr>"

definition AddError :: "connEntry \<Rightarrow> connEntry" where
  "AddError c = c\<lparr>ce_error := True\<rparr>"

definition connEntry_Error :: "connEntry \<Rightarrow> bool" where
  "connEntry_Error c = ce_error c"

definition AddExchange :: "Configuration \<Rightarrow> duration \<Rightarrow> connEntry \<Rightarrow> connEntry" where
  "AddExchange cfg rtt c =
     (let RttTimeout = (if cfg_Timeout cfg = 0 then 500 else cfg_Timeout cfg);
          c1 = (if nanos (RttTimeout * Millisecond) < nanos rtt then AddError c else c)
      in c1\<lparr>ce_totalRTT := ce_totalRTT c1 + rtt, ce_exchanges := ce_exchanges c1 + 1\<rparr>)"

definition connEntry_GetAddress :: "connEntry \<Rightarrow> string" where
  "connEntry_GetAddress c = Upstream_GetAddress (ce_upstream c)"

definition GetUpstream :: "connEntry \<Rightarrow> Upstream" where
  "GetUpstream c = ce_upstream c"

text \<open>\<open>GetConn\<close> asserts the type of the connection, which panics for a nil interface.\<close>

definition GetConn :: "connEntry \<Rightarrow> nat outcome" where
  "GetConn c = (case ce_Conn c of None \<Rightarrow> Panic NilDereference | Some n \<Rightarrow> Ok n)"

definition connEntry_GetWeight :: "connEntry \<Rightarrow> rat" where
  "connEntry_GetWeight c =
     (if ce_totalRTT c = 0 \<or> ce_exchanges c = 0 then 0
      else f64 (f64 (of_int (trunc_div (nanos (ce_totalRTT c)) 1000000)) / f64 (of_int (ce_exchanges c))))"

declare Upstream_GetWeight_def [pool_simps] Upstream_SetWeight_def [pool_simps]
  Cooldown_def [pool_simps] IsCooling_def [pool_simps] WakeupTime_def [pool_simps]
  AddError_def [pool_simps] connEntry_Error_def [pool_simps] connEntry_GetAddress_def [pool_simps]
  GetUpstream_def [pool_simps]

lemma GetAddress_eq_iff:
  "Upstream_GetAddress u = Upstream_GetAddress v \<longleftrightarrow>
     up_Name u = up_Name v \<and>
     (if up_Port u = 0 then 853 else up_Port u) = (if up_Port v = 0 then 853 else up_Port v)"
  by (simp add: Upstream_GetAddress_def Let_def)

lemma GetAddress_cong [simp]:
  "Upstream_GetAddress (u\<lparr>up_weight := w\<rparr>) = Upstream_GetAddress u"
  "Upstream_GetAddress (u\<lparr>up_wakeupTime := t\<rparr>) = Upstream_GetAddress u"
  by (simp_all add: Upstream_GetAddress_def)

lemma AddExchange_fields [simp]:
  "ce_Conn (AddExchange cfg rtt c) = ce_Conn c"
  "ce_upstream (AddExchange cfg rtt c) = ce_upstream c"
  "ce_exchanges (AddExchange cfg rtt c) = ce_exchanges c + 1"
  "ce_totalRTT (AddExchange cfg rtt c) = ce_totalRTT c + rtt"
  by (simp_all add: AddExchange_def AddError_def Let_def)

lemma AddExchange_error:
  "ce_error (AddExchange cfg rtt c) \<longleftrightarrow> ce_error c \<or>
     nanos ((if cfg_Timeout cfg = 0 then 500 else cfg_Timeout cfg) * Millisecond) < nanos rtt"
  by (simp add: AddExchange_def AddError_def Let_def)

lemma f64_quotient_mono:
  assumes "0 \<le> a" "0 < n" "0 < m" "a * m \<le> b * n" "\<bar>n\<bar> < 2 ^ 53" "\<bar>m\<bar> < 2 ^ 53" "\<bar>a\<bar> < 2 ^ 53" "\<bar>b\<bar> < 2 ^ 53"
  shows "f64 (f64 (of_int a) / f64 (of_int n)) \<le> f64 (f64 (of_int b) / f64 (of_int m))"
proof (rule f64_mono)
  have "(of_int (a * m) :: rat) \<le> of_int (b * n)" using assms(4) by (simp only: of_int_le_iff)
  then show "f64 (of_int a) / f64 (of_int n) \<le> f64 (of_int b) / f64 (of_int m)"
    using assms by (simp add: f64_of_int divide_le_eq le_divide_eq field_simps)
qed

lemma millis_small: "0 \<le> nanos d \<Longrightarrow> \<bar>trunc_div (nanos d) 1000000\<bar> < 2 ^ 53"
proof -
  assume nn: "0 \<le> nanos d"
  have "nanos d div 1000000 \<le> max_dur div 1000000"
    by (rule zdiv_mono1) (simp_all add: nanos_bounds)
  moreover have "0 \<le> nanos d div 1000000" using nn by (simp add: pos_imp_zdiv_nonneg_iff)
  ultimately show ?thesis using nn by (simp add: trunc_div_nonneg max_dur_def)
qed

text \<open>
  The weight orders connections by their mean round trip: a connection whose whole milliseconds
  per exchange are no more than another's weighs no more, in spite of the rounding of the doubles;
  weights are never negative, and one is zero exactly when less than a millisecond was spent.
\<close>

lemma GetWeight_orders_by_latency:
  assumes "0 \<le> nanos (ce_totalRTT c)" "0 \<le> nanos (ce_totalRTT d)"
    and "0 < ce_exchanges c" "ce_exchanges c < 2 ^ 53" "0 < ce_exchanges d" "ce_exchanges d < 2 ^ 53"
    and "nanos (ce_totalRTT c) div 1000000 * ce_exchanges d
         \<le> nanos (ce_totalRTT d) div 1000000 * ce_exchanges c"
  shows "connEntry_GetWeight c \<le> connEntry_GetWeight d \<and> 0 \<le> connEntry_GetWeight c \<and>
    (connEntry_GetWeight c = 0 \<longleftrightarrow> nanos (ce_totalRTT c) < 1000000)"
proof -
  have td: "trunc_div (nanos (ce_totalRTT x)) 1000000 = nanos (ce_totalRTT x) div 1000000"
    if "0 \<le> nanos (ce_totalRTT x)" for x :: connEntry
    using that by (simp add: trunc_div_nonneg)
  have w: "connEntry_GetWeight x = f64 (f64 (of_int (nanos (ce_totalRTT x) div 1000000)) / f64 (of_int (ce_exchanges x)))"
    if "0 \<le> nanos (ce_totalRTT x)" "0 < ce_exchanges x" for x :: connEntry
    using that by (auto simp: connEntry_GetWeight_def td)
  have "connEntry_GetWeight c \<le> connEntry_GetWeight d"
    using assms millis_small [of "ce_totalRTT c"] millis_small [of "ce_totalRTT d"]
    by (simp only: w td) (rule f64_quotient_mono; simp add: pos_imp_zdiv_nonneg_iff)
  moreover have "0 \<le> connEntry_GetWeight c"
    using assms(1,3) by (simp add: w f64_nonneg pos_imp_zdiv_nonneg_iff)
  moreover have "connEntry_GetWeight c = 0 \<longleftrightarrow> nanos (ce_totalRTT c) < 1000000"
    using assms(1,3) by (simp add: w) linarith
  ultimately show ?thesis by simp
qed

end
