(* ===== verification/ConnPool.thy ===== *)
theory ConnPool
  imports Upstreams
begin

text \<open>
  The connection pool of \<open>src/connpool.go\<close>. \<open>cp_upstreams\<close> is the slice of upstream pointers and
  \<open>cp_store\<close> the upstreams they point to. \<open>purgeUpstream\<close> starts a goroutine per pooled connection;
  \<open>cp_closing\<close> are the connections whose goroutine has not yet run, \<open>cp_closed\<close> the ones on which
  \<open>Close\<close> was called, in order. \<open>cp_size_gauge\<close> is \<open>ConnPoolSizeGauge\<close>. Every operation runs under
  the pool's lock; the other gauges and the log are left out.
\<close>

record connPool =
  cp_upstreams :: "nat list"
  cp_upstreamNames :: "string list"
  cp_cache :: "(string, connEntry list) fmap"
  cp_store :: "nat \<Rightarrow> Upstream"
  cp_closing :: "connEntry list"
  cp_closed :: "connEntry list"
  cp_size_gauge :: "(string, nat) fmap"

definition NewConnPool :: "(nat \<Rightarrow> Upstream) \<Rightarrow> connPool" where
  "NewConnPool st = \<lparr>cp_upstreams = [], cp_upstreamNames = [], cp_cache = fmempty, cp_store = st,
     cp_closing = [], cp_closed = [], cp_size_gauge = fmempty\<rparr>"

text \<open>
  \<open>sort.Slice\<close> leaves the order of equal elements open, so the sort is an argument: any function
  that returns a permutation in ascending order of the key.
\<close>

type_synonym sort_fun = "(nat \<Rightarrow> rat) \<Rightarrow> nat list \<Rightarrow> nat list"

definition sort_contract :: "sort_fun \<Rightarrow> bool" where
  "sort_contract srt \<longleftrightarrow> (\<forall>w xs. mset (srt w xs) = mset xs \<and> sorted (map w (srt w xs)))"

definition stable_sort :: sort_fun where
  "stable_sort w xs = sort_key w xs"

lemma stable_sort_contract: "sort_contract stable_sort"
  by (simp add: sort_contract_def stable_sort_def)

section \<open>Operations\<close>

definition pool_conns :: "connPool \<Rightarrow> string \<Rightarrow> connEntry list" where
  "pool_conns c address = (case fmlookup (cp_cache c) address of None \<Rightarrow> [] | Some conns \<Rightarrow> conns)"

definition set_gauge :: "string \<Rightarrow> connPool \<Rightarrow> connPool" where
  "set_gauge address c =
     c\<lparr>cp_size_gauge := fmupd address (length (pool_conns c address)) (cp_size_gauge c)\<rparr>"

fun getUpstreamByAddress_loop :: "(nat \<Rightarrow> Upstream) \<Rightarrow> string \<Rightarrow> nat list \<Rightarrow> nat option" where
  "getUpstreamByAddress_loop st address [] = None"
| "getUpstreamByAddress_loop st address (p # ps) =
     (if Upstream_GetAddress (st p) = address then Some p
      else getUpstreamByAddress_loop st address ps)"

definition getUpstreamByAddress :: "connPool \<Rightarrow> string \<Rightarrow> go_error + nat" where
  "getUpstreamByAddress c address =
     (case getUpstreamByAddress_loop (cp_store c) address (cp_upstreams c) of
        None \<Rightarrow> Inl (NoSuchUpstream address) | Some p \<Rightarrow> Inr p)"

definition weightUpstream :: "connPool \<Rightarrow> nat \<Rightarrow> connEntry \<Rightarrow> connPool" where
  "weightUpstream c p ce =
     c\<lparr>cp_store := (cp_store c)(p := Upstream_SetWeight (connEntry_GetWeight ce) (cp_store c p))\<rparr>"

text \<open>
  The loop of \<open>getBestUpstream\<close>: \<open>Inl\<close> is its early return, \<open>Inr\<close> the candidate after the last round.
\<close>

fun getBestUpstream_loop ::
  "clock \<Rightarrow> connPool \<Rightarrow> nat list \<Rightarrow> Upstream \<Rightarrow> Upstream + Upstream" where
  "getBestUpstream_loop clk c [] bestCandidate = Inr bestCandidate"
| "getBestUpstream_loop clk c (p # ps) bestCandidate =
     (let each = cp_store c p
      in case fmlookup (cp_cache c) (Upstream_GetAddress each) of
           None \<Rightarrow> getBestUpstream_loop (later 1 clk) c ps bestCandidate
         | Some conns \<Rightarrow>
             if \<not> IsCooling (clk 0) each then
               if 0 < length conns then Inl each
               else if bestCandidate = zero_Upstream
                    then getBestUpstream_loop (later 1 clk) c ps each
                    else getBestUpstream_loop (later 1 clk) c ps bestCandidate
             else getBestUpstream_loop (later 1 clk) c ps bestCandidate)"

definition getBestUpstream :: "clock \<Rightarrow> connPool \<Rightarrow> Upstream outcome" where
  "getBestUpstream clk c =
     (case getBestUpstream_loop clk c (cp_upstreams c) zero_Upstream of
        Inl each \<Rightarrow> Ok each
      | Inr bestCandidate \<Rightarrow>
          if bestCandidate \<noteq> zero_Upstream then Ok bestCandidate
          else (case cp_upstreams c of
                  [] \<Rightarrow> Panic IndexOutOfRange
                | p # _ \<Rightarrow> Ok (cp_store c p)))"

definition sortUpstreams :: "sort_fun \<Rightarrow> connPool \<Rightarrow> connPool" where
  "sortUpstreams srt c =
     c\<lparr>cp_upstreams := srt (\<lambda>p. Upstream_GetWeight (cp_store c p)) (cp_upstreams c)\<rparr>"

definition purgeUpstream :: "connPool \<Rightarrow> Upstream \<Rightarrow> connPool" where
  "purgeUpstream c upstream =
     (let addr = Upstream_GetAddress upstream;
          c1 = (case fmlookup (cp_cache c) addr of
                  None \<Rightarrow> c
                | Some conns \<Rightarrow> c\<lparr>cp_closing := cp_closing c @ conns,
                                 cp_cache := fmupd addr [] (cp_cache c)\<rparr>)
      in set_gauge addr c1)"

definition cooldownPeriod :: "Configuration \<Rightarrow> duration" where
  "cooldownPeriod cfg =
     (if cfg_CooldownPeriod cfg \<noteq> 0 then cfg_CooldownPeriod cfg * Millisecond else 500 * Millisecond)"

definition coolAndPurgeUpstream :: "Configuration \<Rightarrow> time \<Rightarrow> connPool \<Rightarrow> nat \<Rightarrow> connPool" where
  "coolAndPurgeUpstream cfg now c p =
     (let c1 = c\<lparr>cp_store := (cp_store c)(p := Cooldown now (cooldownPeriod cfg) (cp_store c p))\<rparr>
      in purgeUpstream c1 (cp_store c1 p))"

text \<open>The other clock readings of \<open>updateUpstream\<close> only serve the labels of a gauge.\<close>

definition updateUpstream ::
  "Configuration \<Rightarrow> sort_fun \<Rightarrow> time \<Rightarrow> connPool \<Rightarrow> connEntry \<Rightarrow> go_error option \<times> connPool" where
  "updateUpstream cfg srt now c ce =
     (let address = connEntry_GetAddress ce
      in case getUpstreamByAddress c address of
           Inl err \<Rightarrow> (Some (UpdateUpstreamFailed address err), c)
         | Inr p \<Rightarrow>
             let c1 = (if connEntry_GetWeight ce \<noteq> 0 then weightUpstream c p ce else c);
                 c2 = (if connEntry_Error ce then coolAndPurgeUpstream cfg now c1 p else c1)
             in (None, sortUpstreams srt c2))"

definition connPool_Add ::
  "Configuration \<Rightarrow> sort_fun \<Rightarrow> time \<Rightarrow> connPool \<Rightarrow> connEntry \<Rightarrow> go_error option \<times> connPool" where
  "connPool_Add cfg srt now c ce =
     (let address = connEntry_GetAddress ce;
          (err, c1) = updateUpstream cfg srt now c ce;
          c2 = (case fmlookup (cp_cache c1) address of
                  Some conns \<Rightarrow> c1\<lparr>cp_cache := fmupd address (conns @ [ce]) (cp_cache c1)\<rparr>
                | None \<Rightarrow> c1\<lparr>cp_cache := fmupd address [ce] (cp_cache c1)\<rparr>)
      in (map_option (AddConnectionFailed address) err, set_gauge address c2))"

text \<open>
  The dial function is the client's: the result of the call, an error or a connection, and the time
  it took come from outside. The lock is only taken when it fails.
\<close>

definition connPool_NewConnection ::
  "Configuration \<Rightarrow> time \<Rightarrow> connPool \<Rightarrow> Upstream \<Rightarrow> (string \<Rightarrow> go_error + nat) \<Rightarrow> duration
     \<Rightarrow> (connEntry \<times> go_error option) \<times> connPool" where
  "connPool_NewConnection cfg now c upstream dialFunc dialDuration =
     (let address = Upstream_GetAddress upstream
      in case dialFunc address of
           Inl err \<Rightarrow>
             (case getUpstreamByAddress c address of
                Inl upstreamErr \<Rightarrow>
                  ((zero_connEntry, Some (UpstreamVanished address upstreamErr err)), c)
              | Inr p \<Rightarrow>
                  ((zero_connEntry, Some (CoolingUpstream address err)), coolAndPurgeUpstream cfg now c p))
         | Inr conn \<Rightarrow>
             let ce = zero_connEntry\<lparr>ce_Conn := Some conn, ce_upstream := upstream\<rparr>
             in ((AddExchange cfg dialDuration ce, None), c))"

definition connPool_Get :: "clock \<Rightarrow> connPool \<Rightarrow> ((connEntry \<times> Upstream) \<times> connPool) outcome" where
  "connPool_Get clk c =
     outcome_bind (getBestUpstream clk c)
       (\<lambda>upstream.
          let address = Upstream_GetAddress upstream
          in case fmlookup (cp_cache c) address of
               Some (ce # conns) \<Rightarrow>
                 Ok ((ce, zero_Upstream),
                     set_gauge address (c\<lparr>cp_cache := fmupd address conns (cp_cache c)\<rparr>))
             | _ \<Rightarrow> Ok ((zero_connEntry, upstream), c))"

text \<open>\<open>Size\<close> adds up the lengths in the order in which \<open>range\<close> visits the map.\<close>

fun Size_loop :: "connPool \<Rightarrow> string list \<Rightarrow> nat \<Rightarrow> nat" where
  "Size_loop c [] n = n"
| "Size_loop c (k # order) n = Size_loop c order (n + length (pool_conns c k))"

definition connPool_Size :: "string list \<Rightarrow> connPool \<Rightarrow> nat" where
  "connPool_Size order c = Size_loop c order 0"

definition connPool_AddUpstream :: "connPool \<Rightarrow> nat \<Rightarrow> connPool" where
  "connPool_AddUpstream c r = c\<lparr>cp_upstreams := cp_upstreams c @ [r]\<rparr>"

text \<open>Closing an entry without a connection calls a method of a nil interface.\<close>

definition connEntry_Close :: "connPool \<Rightarrow> connEntry \<Rightarrow> connPool outcome" where
  "connEntry_Close c ce =
     (case ce_Conn ce of None \<Rightarrow> Panic NilDereference | Some _ \<Rightarrow> Ok (c\<lparr>cp_closed := cp_closed c @ [ce]\<rparr>))"

definition connPool_CloseConnection ::
  "Configuration \<Rightarrow> sort_fun \<Rightarrow> time \<Rightarrow> connPool \<Rightarrow> connEntry \<Rightarrow> connPool outcome" where
  "connPool_CloseConnection cfg srt now c ce = connEntry_Close (snd (updateUpstream cfg srt now c ce)) ce"

section \<open>Connections are neither lost nor duplicated\<close>

definition pooled :: "connPool \<Rightarrow> connEntry multiset" where
  "pooled c = (\<Sum>a\<in>fset (fmdom (cp_cache c)). mset (pool_conns c a))"

definition owned :: "connPool \<Rightarrow> connEntry multiset" where
  "owned c = pooled c + mset (cp_closing c)"

lemma pooled_upd:
  assumes "cp_cache c' = fmupd a conns (cp_cache c)"
  shows "pooled c' + mset (pool_conns c a) = pooled c + mset conns"
proof -
  let ?D = "fset (fmdom (cp_cache c)) - {a}"
  have conns': "pool_conns c' b = (if b = a then conns else pool_conns c b)" for b
    by (simp add: pool_conns_def assms)
  have "pooled c' = mset conns + (\<Sum>b\<in>?D. mset (pool_conns c b))"
    by (simp add: pooled_def assms sum.insert_remove conns')
  moreover have "pooled c = mset (pool_conns c a) + (\<Sum>b\<in>?D. mset (pool_conns c b))"
  proof (cases "a |\<in>| fmdom (cp_cache c)")
    case True
    then show ?thesis by (simp add: pooled_def sum.remove)
  next
    case False
    then have "pool_conns c a = []" by (simp add: pool_conns_def fmdom_notD)
    with False show ?thesis by (simp add: pooled_def)
  qed
  ultimately show ?thesis by simp
qed

lemma set_gauge_fields [simp]:
  "cp_cache (set_gauge a c) = cp_cache c" "cp_upstreams (set_gauge a c) = cp_upstreams c"
  "cp_store (set_gauge a c) = cp_store c" "cp_closing (set_gauge a c) = cp_closing c"
  "cp_closed (set_gauge a c) = cp_closed c" "owned (set_gauge a c) = owned c"
  "pooled (set_gauge a c) = pooled c"
  by (simp_all add: set_gauge_def owned_def pooled_def pool_conns_def)


lemma weightUpstream_fields [simp]:
  "cp_cache (weightUpstream c p ce) = cp_cache c" "cp_closing (weightUpstream c p ce) = cp_closing c"
  "cp_closed (weightUpstream c p ce) = cp_closed c" "cp_upstreams (weightUpstream c p ce) = cp_upstreams c"
  "owned (weightUpstream c p ce) = owned c"
  by (simp_all add: weightUpstream_def owned_def pooled_def pool_conns_def)

lemma sortUpstreams_fields [simp]:
  "cp_cache (sortUpstreams srt c) = cp_cache c" "cp_closing (sortUpstreams srt c) = cp_closing c"
  "cp_closed (sortUpstreams srt c) = cp_closed c" "cp_store (sortUpstreams srt c) = cp_store c"
  "owned (sortUpstreams srt c) = owned c"
  by (simp_all add: sortUpstreams_def owned_def pooled_def pool_conns_def)

lemma purgeUpstream_fields [simp]:
  "cp_closed (purgeUpstream c u) = cp_closed c" "cp_store (purgeUpstream c u) = cp_store c"
  "cp_upstreams (purgeUpstream c u) = cp_upstreams c"
  by (simp_all add: purgeUpstream_def Let_def split: option.splits)

lemma purge_conns:
  "pool_conns (purgeUpstream c u) a = (if a = Upstream_GetAddress u then [] else pool_conns c a)"
  by (auto simp: purgeUpstream_def pool_conns_def Let_def split: option.splits)

lemma purge_closing: "cp_closing (purgeUpstream c u) = cp_closing c @ pool_conns c (Upstream_GetAddress u)"
  by (simp add: purgeUpstream_def pool_conns_def Let_def split: option.splits)

lemma purge_dom: "fmdom (cp_cache (purgeUpstream c u)) = fmdom (cp_cache c)"
  by (auto simp: purgeUpstream_def Let_def fmdomI finsert_absorb split: option.splits)

lemma purge_owned [simp]: "owned (purgeUpstream c u) = owned c"
proof (cases "fmlookup (cp_cache c) (Upstream_GetAddress u)")
  case None
  then show ?thesis by (simp add: purgeUpstream_def Let_def)
next
  case (Some conns)
  let ?c1 = "c\<lparr>cp_closing := cp_closing c @ conns, cp_cache := fmupd (Upstream_GetAddress u) [] (cp_cache c)\<rparr>"
  have "pooled ?c1 + mset conns = pooled c"
    using pooled_upd [of ?c1 "Upstream_GetAddress u" "[]" c] Some by (simp add: pool_conns_def)
  with Some show ?thesis by (simp add: purgeUpstream_def Let_def owned_def ac_simps)
qed

lemma cool_fields [simp]:
  "cp_closed (coolAndPurgeUpstream cfg now c p) = cp_closed c"
  "cp_upstreams (coolAndPurgeUpstream cfg now c p) = cp_upstreams c"
  "cp_store (coolAndPurgeUpstream cfg now c p)
     = (cp_store c)(p := Cooldown now (cooldownPeriod cfg) (cp_store c p))"
  "fmdom (cp_cache (coolAndPurgeUpstream cfg now c p)) = fmdom (cp_cache c)"
  by (simp_all add: coolAndPurgeUpstream_def Let_def purge_dom)

lemma owned_store [simp]: "owned (c\<lparr>cp_store := st\<rparr>) = owned c"
  by (simp add: owned_def pooled_def pool_conns_def)

lemma pool_conns_store [simp]:
  "pool_conns (c\<lparr>cp_store := st\<rparr>) a = pool_conns c a"
  "pool_conns (weightUpstream c p ce) a = pool_conns c a"
  "pool_conns (sortUpstreams srt c) a = pool_conns c a"
  "pool_conns (set_gauge b c) a = pool_conns c a"
  by (simp_all add: pool_conns_def weightUpstream_def sortUpstreams_def)

lemma cool_owned [simp]: "owned (coolAndPurgeUpstream cfg now c p) = owned c"
  by (simp add: coolAndPurgeUpstream_def Let_def)

lemma cool_conns:
  "pool_conns (coolAndPurgeUpstream cfg now c p) a =
     (if a = Upstream_GetAddress (cp_store c p) then [] else pool_conns c a)"
  by (simp add: coolAndPurgeUpstream_def Let_def purge_conns Cooldown_def)

lemma cool_closing:
  "cp_closing (coolAndPurgeUpstream cfg now c p)
     = cp_closing c @ pool_conns c (Upstream_GetAddress (cp_store c p))"
  by (simp add: coolAndPurgeUpstream_def Let_def purge_closing Cooldown_def)

lemma getUpstream_loop_Some:
  "getUpstreamByAddress_loop st a ps = Some p \<Longrightarrow> p \<in> set ps \<and> Upstream_GetAddress (st p) = a"
  by (induction ps) (auto split: if_splits)

lemma getUpstream_loop_None:
  "getUpstreamByAddress_loop st a ps = None \<longleftrightarrow> (\<forall>p\<in>set ps. Upstream_GetAddress (st p) \<noteq> a)"
  by (induction ps) auto

lemma getUpstream_cases:
  obtains (unknown) "getUpstreamByAddress c a = Inl (NoSuchUpstream a)"
      "\<And>p. p \<in> set (cp_upstreams c) \<Longrightarrow> Upstream_GetAddress (cp_store c p) \<noteq> a"
  | (known) p where "getUpstreamByAddress c a = Inr p" "p \<in> set (cp_upstreams c)"
      "Upstream_GetAddress (cp_store c p) = a"
  by (cases "getUpstreamByAddress_loop (cp_store c) a (cp_upstreams c)")
    (auto simp: getUpstreamByAddress_def getUpstream_loop_None dest: getUpstream_loop_Some)

lemma update_owned [simp]:
  "owned (snd (updateUpstream cfg srt now c ce)) = owned c"
  "cp_closed (snd (updateUpstream cfg srt now c ce)) = cp_closed c"
  by (simp_all add: updateUpstream_def Let_def split: sum.splits)

lemma Add_owned [simp]:
  "owned (snd (connPool_Add cfg srt now c ce)) = owned c + {#ce#}"
  "cp_closed (snd (connPool_Add cfg srt now c ce)) = cp_closed c"
proof -
  obtain err c1 where u: "updateUpstream cfg srt now c ce = (err, c1)" by force
  let ?a = "connEntry_GetAddress ce"
  let ?c2 = "c1\<lparr>cp_cache := fmupd ?a (pool_conns c1 ?a @ [ce]) (cp_cache c1)\<rparr>"
  have add: "snd (connPool_Add cfg srt now c ce) = set_gauge ?a ?c2"
    by (auto simp: connPool_Add_def u Let_def pool_conns_def split: option.splits)
  have "pooled ?c2 = pooled c1 + {#ce#}"
    using pooled_upd [of ?c2 ?a "pool_conns c1 ?a @ [ce]" c1] by (simp add: ac_simps)
  then have "owned ?c2 = owned c1 + {#ce#}" by (simp add: owned_def ac_simps)
  then show "owned (snd (connPool_Add cfg srt now c ce)) = owned c + {#ce#}"
    "cp_closed (snd (connPool_Add cfg srt now c ce)) = cp_closed c"
    using update_owned [of cfg srt now c ce] by (simp_all add: add u)
qed

lemma Get_owned:
  assumes "connPool_Get clk c = Ok ((ce, u), c')"
  obtains (popped) "u = zero_Upstream" "owned c = owned c' + {#ce#}" "cp_closed c' = cp_closed c"
    "cp_upstreams c' = cp_upstreams c" "cp_store c' = cp_store c"
  | (dial) "ce = zero_connEntry" "c' = c" "getBestUpstream clk c = Ok u"
proof -
  from assms obtain b where b: "getBestUpstream clk c = Ok b" by (auto simp: connPool_Get_def)
  let ?a = "Upstream_GetAddress b"
  show thesis
  proof (cases "pool_conns c ?a")
    case Nil
    with assms b have "ce = zero_connEntry" "c' = c" "u = b"
      by (auto simp: connPool_Get_def pool_conns_def Let_def split: option.splits list.splits)
    with b show thesis by (intro dial) simp_all
  next
    case (Cons e es)
    then have l: "fmlookup (cp_cache c) ?a = Some (e # es)"
      by (auto simp: pool_conns_def split: option.splits)
    let ?c1 = "c\<lparr>cp_cache := fmupd ?a es (cp_cache c)\<rparr>"
    have eq: "ce = e" "u = zero_Upstream" "c' = set_gauge ?a ?c1"
      using assms b l by (auto simp: connPool_Get_def Let_def)
    have "pooled ?c1 + {#e#} = pooled c"
      using pooled_upd [of ?c1 ?a es c] Cons by simp
    then show thesis
      by (intro popped) (simp_all add: eq, simp add: owned_def)
  qed
qed

end
