(* ===== verification/PoolSelection.thy ===== *)
theory PoolSelection
  imports ConnPool
begin

text \<open>
  Which connection or upstream \<open>Get\<close> chooses, and what \<open>Add\<close>, \<open>CloseConnection\<close> and a failed dial do
  to the weights, the order and the cooling of the upstreams.
\<close>

section \<open>Choosing\<close>

definition ready :: "time \<Rightarrow> connPool \<Rightarrow> nat \<Rightarrow> bool" where
  "ready now c p \<longleftrightarrow> \<not> IsCooling now (cp_store c p) \<and>
     pool_conns c (Upstream_GetAddress (cp_store c p)) \<noteq> []"

definition idle :: "time \<Rightarrow> connPool \<Rightarrow> nat \<Rightarrow> bool" where
  "idle now c p \<longleftrightarrow> \<not> IsCooling now (cp_store c p) \<and>
     fmlookup (cp_cache c) (Upstream_GetAddress (cp_store c p)) = Some []"

lemma getBest_loop_const:
  "getBestUpstream_loop (\<lambda>_. now) c ps best =
     (case List.find (ready now c) ps of
        Some p \<Rightarrow> Inl (cp_store c p)
      | None \<Rightarrow> Inr (if best \<noteq> zero_Upstream then best
          else case List.find (\<lambda>p. idle now c p \<and> cp_store c p \<noteq> zero_Upstream) ps of
                 Some p \<Rightarrow> cp_store c p | None \<Rightarrow> zero_Upstream))"
proof (induction ps arbitrary: best)
  case Nil
  then show ?case by simp
next
  case (Cons p ps)
  show ?case
  proof (cases "fmlookup (cp_cache c) (Upstream_GetAddress (cp_store c p))")
    case None
    then have "\<not> ready now c p" "\<not> idle now c p"
      by (simp_all add: ready_def idle_def pool_conns_def)
    with None Cons show ?thesis by (simp split: option.splits)
  next
    case (Some conns)
    then have "ready now c p \<longleftrightarrow> \<not> IsCooling now (cp_store c p) \<and> conns \<noteq> []"
      "idle now c p \<longleftrightarrow> \<not> IsCooling now (cp_store c p) \<and> conns = []"
      by (simp_all add: ready_def idle_def pool_conns_def)
    with Some Cons show ?thesis by (simp add: Let_def split: option.splits)
  qed
qed

lemma find_sorted_least:
  assumes "sorted (map w xs)" and "List.find P xs = Some x"
  shows "x \<in> set xs \<and> P x \<and> (\<forall>y\<in>set xs. P y \<longrightarrow> w x \<le> w y)"
  using assms by (induction xs) (auto split: if_splits)

lemma find_None_ready: "List.find P xs = None \<longleftrightarrow> (\<forall>x\<in>set xs. \<not> P x)"
  by (auto simp: find_None_iff)

lemma Get_eq:
  assumes "getBestUpstream clk c = Ok u"
  shows "connPool_Get clk c =
    (case pool_conns c (Upstream_GetAddress u) of
       [] \<Rightarrow> Ok ((zero_connEntry, u), c)
     | ce # conns \<Rightarrow> Ok ((ce, zero_Upstream),
         set_gauge (Upstream_GetAddress u)
           (c\<lparr>cp_cache := fmupd (Upstream_GetAddress u) conns (cp_cache c)\<rparr>)))"
  by (auto simp: connPool_Get_def assms pool_conns_def Let_def split: option.splits list.splits)

text \<open>
  While some upstream that is not cooling has a pooled connection, \<open>Get\<close> never asks for a dial:
  it hands out the oldest connection of such an upstream, and of one with the least weight among
  them, and takes exactly that connection out of the pool.
\<close>

lemma Get_prefers_pooled:
  assumes "sorted (map (\<lambda>p. up_weight (cp_store c p)) (cp_upstreams c))"
    and "q \<in> set (cp_upstreams c)" and "ready now c q"
  shows "\<exists>p ce conns. p \<in> set (cp_upstreams c) \<and> ready now c p \<and>
    (\<forall>p'\<in>set (cp_upstreams c). ready now c p' \<longrightarrow> up_weight (cp_store c p) \<le> up_weight (cp_store c p')) \<and>
    fmlookup (cp_cache c) (Upstream_GetAddress (cp_store c p)) = Some (ce # conns) \<and>
    connPool_Get (\<lambda>_. now) c = Ok ((ce, zero_Upstream),
      set_gauge (Upstream_GetAddress (cp_store c p))
        (c\<lparr>cp_cache := fmupd (Upstream_GetAddress (cp_store c p)) conns (cp_cache c)\<rparr>))"
proof -
  obtain p where p: "List.find (ready now c) (cp_upstreams c) = Some p"
    using assms(2,3) by (metis find_None_ready not_None_eq)
  note least = find_sorted_least [OF assms(1) p]
  have best: "getBestUpstream (\<lambda>_. now) c = Ok (cp_store c p)"
    by (simp add: getBestUpstream_def getBest_loop_const p)
  from least obtain ce conns where
    conns: "pool_conns c (Upstream_GetAddress (cp_store c p)) = ce # conns"
    by (auto simp: ready_def neq_Nil_conv)
  then have "fmlookup (cp_cache c) (Upstream_GetAddress (cp_store c p)) = Some (ce # conns)"
    by (auto simp: pool_conns_def split: option.splits)
  with least conns show ?thesis
    by (intro exI [of _ p] exI [of _ ce] exI [of _ conns]) (simp add: Get_eq [OF best])
qed

text \<open>
  The choice without the loop: the first upstream that is ready, else the first idle one, else the first
  of all. \<open>Get\<close> takes the oldest connection of the upstream chosen, if it has one.
\<close>

definition best_choice :: "time \<Rightarrow> connPool \<Rightarrow> nat" where
  "best_choice now c =
     (case List.find (ready now c) (cp_upstreams c) of
        Some p \<Rightarrow> p
      | None \<Rightarrow> (case List.find (idle now c) (cp_upstreams c) of Some p \<Rightarrow> p | None \<Rightarrow> hd (cp_upstreams c)))"

definition take_from :: "nat \<Rightarrow> connPool \<Rightarrow> (connEntry \<times> Upstream) \<times> connPool" where
  "take_from p c =
     (let address = Upstream_GetAddress (cp_store c p)
      in case pool_conns c address of
           [] \<Rightarrow> ((zero_connEntry, cp_store c p), c)
         | ce # conns \<Rightarrow>
             ((ce, zero_Upstream), set_gauge address (c\<lparr>cp_cache := fmupd address conns (cp_cache c)\<rparr>)))"

definition named_upstreams :: "connPool \<Rightarrow> bool" where
  "named_upstreams c \<longleftrightarrow> (\<forall>p\<in>set (cp_upstreams c). up_Name (cp_store c p) \<noteq> [])"

lemma getBest_choice:
  assumes "named_upstreams c" and "cp_upstreams c \<noteq> []"
  shows "getBestUpstream (\<lambda>_. now) c = Ok (cp_store c (best_choice now c))"
proof -
  have nz: "cp_store c p \<noteq> zero_Upstream" if "p \<in> set (cp_upstreams c)" for p
    using assms(1) that by (auto simp: named_upstreams_def zero_Upstream_def)
  then have eq: "List.find (\<lambda>p. idle now c p \<and> cp_store c p \<noteq> zero_Upstream) (cp_upstreams c)
      = List.find (idle now c) (cp_upstreams c)"
    by (intro find_cong) auto
  have "cp_store c p \<noteq> zero_Upstream" if "List.find (idle now c) (cp_upstreams c) = Some p" for p
    using that nz by (auto simp: find_Some_iff)
  then show ?thesis
    using assms(2)
    by (auto simp: getBestUpstream_def getBest_loop_const eq best_choice_def split: option.split list.split)
qed

text \<open>
  C27. \<open>Get\<close> is equivalent to the choice above: the first ready upstream in the order of weights gives up
  its oldest connection; without one, the first upstream that is not cooling and has had a connection
  before is to be dialled; without that, it is the first upstream of all, cooling or not, from which
  even a pooled connection is handed out. The pool is otherwise left as it is.
\<close>

theorem Get_is_best_choice:
  assumes "named_upstreams c" and "cp_upstreams c \<noteq> []"
  shows "connPool_Get (\<lambda>_. now) c = Ok (take_from (best_choice now c) c)"
  by (simp add: Get_eq [OF getBest_choice [OF assms]] take_from_def Let_def split: list.split)

lemma Get_without_ready:
  assumes "\<And>p. p \<in> set (cp_upstreams c) \<Longrightarrow> \<not> ready now c p"
    and "\<And>p. p \<in> set (cp_upstreams c) \<Longrightarrow> up_Name (cp_store c p) \<noteq> []"
    and "cp_upstreams c = p0 # ps"
  shows "connPool_Get (\<lambda>_. now) c =
    (case List.find (idle now c) (cp_upstreams c) of
       Some p \<Rightarrow> Ok ((zero_connEntry, cp_store c p), c)
     | None \<Rightarrow> Ok (take_from p0 c))"
proof -
  have "List.find (ready now c) (cp_upstreams c) = None"
    using assms(1) by (simp add: find_None_ready)
  then have choice: "best_choice now c = (case List.find (idle now c) (cp_upstreams c) of Some p \<Rightarrow> p | None \<Rightarrow> p0)"
    by (simp add: best_choice_def del: find.simps split: option.split) (simp add: assms(3))
  have "pool_conns c (Upstream_GetAddress (cp_store c p)) = []" if "List.find (idle now c) (cp_upstreams c) = Some p" for p
    using that by (auto simp: find_Some_iff idle_def pool_conns_def)
  moreover have "getBestUpstream (\<lambda>_. now) c = Ok (cp_store c (best_choice now c))"
    by (rule getBest_choice) (use assms in \<open>auto simp: named_upstreams_def\<close>)
  ultimately show ?thesis
    by (simp add: Get_eq choice take_from_def Let_def split: option.split list.split)
qed

section \<open>Failed dials\<close>

lemma later_clock_irrelevant:
  assumes "\<And>p. p \<in> set ps \<Longrightarrow> fmlookup (cp_cache c) (Upstream_GetAddress (cp_store c p)) = None"
  shows "getBestUpstream_loop clk c ps best = Inr best"
  using assms by (induction ps arbitrary: clk) simp_all

lemma Get_fresh_pool:
  assumes "cp_upstreams c = p # ps"
    and "\<And>q. q \<in> set (cp_upstreams c) \<Longrightarrow>
           fmlookup (cp_cache c) (Upstream_GetAddress (cp_store c q)) = None"
  shows "connPool_Get clk c = Ok ((zero_connEntry, cp_store c p), c)"
proof -
  have "getBestUpstream clk c = Ok (cp_store c p)"
    using assms by (simp add: getBestUpstream_def later_clock_irrelevant)
  moreover have "pool_conns c (Upstream_GetAddress (cp_store c p)) = []"
    using assms by (simp add: pool_conns_def)
  ultimately show ?thesis by (simp add: Get_eq)
qed

lemma purge_cache_None:
  "fmlookup (cp_cache (coolAndPurgeUpstream cfg now c p)) a = None \<longleftrightarrow> fmlookup (cp_cache c) a = None"
  by (metis cool_fields(4) fmlookup_dom_iff not_Some_eq)

lemma cool_address [simp]:
  "Upstream_GetAddress (cp_store (coolAndPurgeUpstream cfg now c p) q) = Upstream_GetAddress (cp_store c q)"
  by (simp add: Cooldown_def)

lemma cool_weight [simp]:
  "up_weight (cp_store (coolAndPurgeUpstream cfg now c p) q) = up_weight (cp_store c q)"
  by (simp add: Cooldown_def)

text \<open>
  C31. A pool that has never held a connection does not fail over. When the dial to the first
  upstream fails, that upstream is set cooling, and yet at every later time \<open>Get\<close> asks to dial it
  again, however many other upstreams there are: the choice only looks at upstreams that have an
  entry in the connection cache.
\<close>

theorem no_failover_before_first_connection:
  assumes "cp_upstreams c = p # ps"
    and "\<And>q. q \<in> set (cp_upstreams c) \<Longrightarrow>
           fmlookup (cp_cache c) (Upstream_GetAddress (cp_store c q)) = None"
    and "dial (Upstream_GetAddress (cp_store c p)) = Inl err"
    and "connPool_NewConnection cfg now c (cp_store c p) dial d = (res, c')"
  shows "res = (zero_connEntry, Some (CoolingUpstream (Upstream_GetAddress (cp_store c p)) err)) \<and>
    up_wakeupTime (cp_store c' p) = time_add now (cooldownPeriod cfg) \<and>
    connPool_Get clk c' = Ok ((zero_connEntry, cp_store c' p), c')"
proof -
  have "getUpstreamByAddress c (Upstream_GetAddress (cp_store c p)) = Inr p"
    by (simp add: getUpstreamByAddress_def assms(1))
  with assms(3,4) have res: "res = (zero_connEntry, Some (CoolingUpstream (Upstream_GetAddress (cp_store c p)) err))"
      and c': "c' = coolAndPurgeUpstream cfg now c p"
    by (simp_all add: connPool_NewConnection_def Let_def)
  have "connPool_Get clk c' = Ok ((zero_connEntry, cp_store c' p), c')"
    by (rule Get_fresh_pool [where ps = ps])
      (use assms(1,2) in \<open>simp_all add: c' purge_cache_None del: cool_fields(3)\<close>)
  then show ?thesis by (simp add: res c' Cooldown_def)
qed

section \<open>Updating an upstream\<close>

lemma cooldown_nanos:
  assumes "0 \<le> nanos (cfg_CooldownPeriod cfg)" "nanos (cfg_CooldownPeriod cfg) \<le> 9223372036854"
  shows "nanos (cooldownPeriod cfg) =
    (if cfg_CooldownPeriod cfg = 0 then 500 else nanos (cfg_CooldownPeriod cfg)) * 1000000"
proof -
  let ?k = "nanos (cfg_CooldownPeriod cfg)"
  have "cfg_CooldownPeriod cfg * Millisecond = dur (?k * 1000000)"
    by (simp only: Millisecond_def of_int_mult of_int_numeral) simp
  moreover have "nanos (dur (?k * 1000000)) = ?k * 1000000"
    by (rule nanos_dur) (use assms in \<open>simp_all add: min_dur_def max_dur_def\<close>)
  moreover have "nanos (500 * Millisecond) = 500 * 1000000"
    by (simp add: Millisecond_def)
  ultimately show ?thesis by (simp add: cooldownPeriod_def)
qed

text \<open>
  Cooling an upstream empties its pool, hands every connection in it to a closing goroutine,
  and keeps the upstream cooling for the configured number of milliseconds (500 by default), after
  which it is available again; other upstreams' connections are untouched.
\<close>

lemma coolAndPurge_effect:
  assumes "0 \<le> nanos (cfg_CooldownPeriod cfg)" and "nanos (cfg_CooldownPeriod cfg) \<le> 9223372036854"
    and "c' = coolAndPurgeUpstream cfg now c p"
  shows "(IsCooling t (cp_store c' p) \<longleftrightarrow>
      t < now + (if cfg_CooldownPeriod cfg = 0 then 500 else nanos (cfg_CooldownPeriod cfg)) * 1000000) \<and>
    cp_closing c' = cp_closing c @ pool_conns c (Upstream_GetAddress (cp_store c p)) \<and>
    (\<forall>a. pool_conns c' a = (if a = Upstream_GetAddress (cp_store c p) then [] else pool_conns c a))"
  by (simp add: assms(3) IsCooling_def Cooldown_def time_add_def cooldown_nanos [OF assms(1,2)]
      cool_closing cool_conns)

lemma update_known:
  assumes "p \<in> set (cp_upstreams c)" "Upstream_GetAddress (cp_store c p) = connEntry_GetAddress ce"
  obtains q where "q \<in> set (cp_upstreams c)" "Upstream_GetAddress (cp_store c q) = connEntry_GetAddress ce"
    "getUpstreamByAddress c (connEntry_GetAddress ce) = Inr q"
    "fst (updateUpstream cfg srt now c ce) = None"
  by (cases rule: getUpstream_cases [of c "connEntry_GetAddress ce"])
    (use assms in \<open>auto simp: updateUpstream_def Let_def\<close>)

lemma update_sorted:
  assumes "sort_contract srt" and "getUpstreamByAddress c (connEntry_GetAddress ce) = Inr q"
  shows "sorted (map (\<lambda>p. up_weight (cp_store (snd (updateUpstream cfg srt now c ce)) p))
      (cp_upstreams (snd (updateUpstream cfg srt now c ce))))"
    and "mset (cp_upstreams (snd (updateUpstream cfg srt now c ce))) = mset (cp_upstreams c)"
  using assms(1)
  by (simp_all add: updateUpstream_def assms(2) Let_def sortUpstreams_def sort_contract_def
      Upstream_GetWeight_def)

lemma pool_Add_fields:
  "cp_upstreams (snd (connPool_Add cfg srt now c ce)) = cp_upstreams (snd (updateUpstream cfg srt now c ce))"
  "cp_store (snd (connPool_Add cfg srt now c ce)) = cp_store (snd (updateUpstream cfg srt now c ce))"
  "cp_closing (snd (connPool_Add cfg srt now c ce)) = cp_closing (snd (updateUpstream cfg srt now c ce))"
  "fst (connPool_Add cfg srt now c ce)
     = map_option (AddConnectionFailed (connEntry_GetAddress ce)) (fst (updateUpstream cfg srt now c ce))"
  "pool_conns (snd (connPool_Add cfg srt now c ce)) a =
     (if a = connEntry_GetAddress ce
      then pool_conns (snd (updateUpstream cfg srt now c ce)) a @ [ce]
      else pool_conns (snd (updateUpstream cfg srt now c ce)) a)"
  by (auto simp: connPool_Add_def Let_def pool_conns_def split: option.splits prod.splits)

text \<open>
  C32. Returning a connection of a known upstream keeps the slice of upstreams a permutation of what
  it was, in ascending order of weight, and gives the upstream the weight of this connection, unless
  the connection has none.
\<close>

theorem Add_reorders:
  assumes "sort_contract srt" and "p \<in> set (cp_upstreams c)"
    and "Upstream_GetAddress (cp_store c p) = connEntry_GetAddress ce"
    and "connPool_Add cfg srt now c ce = (err, c')"
  shows "err = None \<and> mset (cp_upstreams c') = mset (cp_upstreams c) \<and>
    sorted (map (\<lambda>q. up_weight (cp_store c' q)) (cp_upstreams c')) \<and>
    (\<exists>q\<in>set (cp_upstreams c'). Upstream_GetAddress (cp_store c' q) = connEntry_GetAddress ce \<and>
       up_weight (cp_store c' q) =
         (if connEntry_GetWeight ce = 0 then up_weight (cp_store c q) else connEntry_GetWeight ce))"
proof -
  obtain q where q: "q \<in> set (cp_upstreams c)" "Upstream_GetAddress (cp_store c q) = connEntry_GetAddress ce"
      "getUpstreamByAddress c (connEntry_GetAddress ce) = Inr q"
      "fst (updateUpstream cfg srt now c ce) = None"
    by (rule update_known [OF assms(2,3)])
  have c': "c' = snd (connPool_Add cfg srt now c ce)" "err = fst (connPool_Add cfg srt now c ce)"
    using assms(4) by simp_all
  note so = update_sorted [OF assms(1) q(3), of cfg now]
  have "q \<in> set (cp_upstreams c')"
    using q(1) so(2) by (simp add: c' pool_Add_fields) (metis set_mset_mset)
  moreover have "Upstream_GetAddress (cp_store c' q) = connEntry_GetAddress ce"
    "up_weight (cp_store c' q) =
       (if connEntry_GetWeight ce = 0 then up_weight (cp_store c q) else connEntry_GetWeight ce)"
    using q(2) by (auto simp: c' pool_Add_fields updateUpstream_def q(3) Let_def weightUpstream_def
        Upstream_SetWeight_def Cooldown_def)
  ultimately show ?thesis
    using so q(4) by (auto simp: c' pool_Add_fields)
qed

text \<open>What an update for a connection that has seen an error does to its upstream.\<close>

lemma update_faulty:
  assumes "p \<in> set (cp_upstreams c)" "Upstream_GetAddress (cp_store c p) = connEntry_GetAddress ce"
    and "ce_error ce"
  obtains q where "q \<in> set (cp_upstreams c)" "Upstream_GetAddress (cp_store c q) = connEntry_GetAddress ce"
    "fst (updateUpstream cfg srt now c ce) = None"
    "\<And>a. pool_conns (snd (updateUpstream cfg srt now c ce)) a =
       (if a = connEntry_GetAddress ce then [] else pool_conns c a)"
    "cp_closing (snd (updateUpstream cfg srt now c ce)) = cp_closing c @ pool_conns c (connEntry_GetAddress ce)"
    "up_wakeupTime (cp_store (snd (updateUpstream cfg srt now c ce)) q) = time_add now (cooldownPeriod cfg)"
proof -
  obtain q where q: "q \<in> set (cp_upstreams c)" "Upstream_GetAddress (cp_store c q) = connEntry_GetAddress ce"
      "getUpstreamByAddress c (connEntry_GetAddress ce) = Inr q"
      "fst (updateUpstream cfg srt now c ce) = None"
    by (rule update_known [OF assms(1,2)])
  have w: "Upstream_GetAddress (cp_store (weightUpstream c q ce) q) = connEntry_GetAddress ce"
    using q(2) by (simp add: weightUpstream_def Upstream_SetWeight_def)
  have "pool_conns (snd (updateUpstream cfg srt now c ce)) a =
      (if a = connEntry_GetAddress ce then [] else pool_conns c a)" for a
    using assms(3) q(2) w
    by (simp add: updateUpstream_def q(3) Let_def connEntry_Error_def cool_conns)
  moreover have "cp_closing (snd (updateUpstream cfg srt now c ce))
      = cp_closing c @ pool_conns c (connEntry_GetAddress ce)"
    using assms(3) q(2) w
    by (simp add: updateUpstream_def q(3) Let_def connEntry_Error_def cool_closing)
  moreover have "up_wakeupTime (cp_store (snd (updateUpstream cfg srt now c ce)) q)
      = time_add now (cooldownPeriod cfg)"
    using assms(3) by (simp add: updateUpstream_def q(3) Let_def connEntry_Error_def Cooldown_def)
  ultimately show thesis using q by (intro that)
qed

text \<open>
  A connection that has seen an error is not discarded by \<open>Add\<close>: the upstream is set cooling
  and its other connections are purged, but the faulty one then goes back into the pool as its only
  connection.
\<close>

lemma Add_keeps_faulty_connection:
  assumes "p \<in> set (cp_upstreams c)" and "Upstream_GetAddress (cp_store c p) = connEntry_GetAddress ce"
    and "ce_error ce" and "connPool_Add cfg srt now c ce = (err, c')"
  shows "err = None \<and> pool_conns c' (connEntry_GetAddress ce) = [ce] \<and>
    cp_closing c' = cp_closing c @ pool_conns c (connEntry_GetAddress ce) \<and>
    (\<exists>q\<in>set (cp_upstreams c). up_wakeupTime (cp_store c' q) = time_add now (cooldownPeriod cfg))"
proof -
  obtain q where "q \<in> set (cp_upstreams c)" "fst (updateUpstream cfg srt now c ce) = None"
    "pool_conns (snd (updateUpstream cfg srt now c ce)) (connEntry_GetAddress ce) = []"
    "cp_closing (snd (updateUpstream cfg srt now c ce)) = cp_closing c @ pool_conns c (connEntry_GetAddress ce)"
    "up_wakeupTime (cp_store (snd (updateUpstream cfg srt now c ce)) q) = time_add now (cooldownPeriod cfg)"
    by (rule update_faulty [OF assms(1-3), of cfg srt now]) auto
  moreover have "c' = snd (connPool_Add cfg srt now c ce)" "err = fst (connPool_Add cfg srt now c ce)"
    using assms(4) by simp_all
  ultimately show ?thesis by (auto simp: pool_Add_fields)
qed

text \<open>
  \<open>Add\<close> reports an error for a connection whose upstream the pool does not know, but stores it
  all the same.
\<close>

lemma Add_unknown_upstream:
  assumes "\<And>p. p \<in> set (cp_upstreams c) \<Longrightarrow> Upstream_GetAddress (cp_store c p) \<noteq> connEntry_GetAddress ce"
    and "connPool_Add cfg srt now c ce = (err, c')"
  shows "err = Some (AddConnectionFailed (connEntry_GetAddress ce)
      (UpdateUpstreamFailed (connEntry_GetAddress ce) (NoSuchUpstream (connEntry_GetAddress ce)))) \<and>
    pool_conns c' (connEntry_GetAddress ce) = pool_conns c (connEntry_GetAddress ce) @ [ce] \<and>
    cp_upstreams c' = cp_upstreams c \<and> cp_store c' = cp_store c"
proof -
  have u: "updateUpstream cfg srt now c ce =
      (Some (UpdateUpstreamFailed (connEntry_GetAddress ce) (NoSuchUpstream (connEntry_GetAddress ce))), c)"
    by (cases rule: getUpstream_cases [of c "connEntry_GetAddress ce"])
      (use assms(1) in \<open>auto simp: updateUpstream_def Let_def\<close>)
  have c': "c' = snd (connPool_Add cfg srt now c ce)" "err = fst (connPool_Add cfg srt now c ce)"
    using assms(2) by simp_all
  show ?thesis by (simp add: c' pool_Add_fields u)
qed

end
