(* ===== verification/PoolRuns.thy ===== *)
theory PoolRuns
  imports PoolSelection
begin

text \<open>
  The pool in use: clients that take, dial, use, return and close connections, the closing goroutines
  of \<open>purgeUpstream\<close>, in any order. The contract a pool keeps towards its clients is the locale
  \<open>connection_ledger\<close>: what each operation moves between the pool, its clients and the closed
  connections. \<open>connPool\<close> fulfils it.
\<close>

section \<open>The contract\<close>

definition balanced ::
  "('p \<Rightarrow> 'i multiset) \<Rightarrow> ('p \<Rightarrow> 'i multiset) \<Rightarrow> 'p \<Rightarrow> 'i multiset \<Rightarrow> 'i multiset \<Rightarrow> bool" where
  "balanced inside gone p held dialled \<longleftrightarrow> inside p + held + gone p = dialled"

locale connection_ledger =
  fixes inside :: "'p \<Rightarrow> 'i multiset"
    and gone :: "'p \<Rightarrow> 'i multiset"
    and take_conn :: "'p \<Rightarrow> 'i \<Rightarrow> 'p \<Rightarrow> bool"
    and give_conn :: "'p \<Rightarrow> 'i \<Rightarrow> 'p \<Rightarrow> bool"
    and shut_conn :: "'p \<Rightarrow> 'i \<Rightarrow> 'p \<Rightarrow> bool"
    and reap_conn :: "'p \<Rightarrow> 'i \<Rightarrow> 'p \<Rightarrow> bool"
    and quiet :: "'p \<Rightarrow> 'p \<Rightarrow> bool"
  assumes take_law: "take_conn p i p' \<Longrightarrow> inside p = add_mset i (inside p') \<and> gone p' = gone p"
    and give_law: "give_conn p i p' \<Longrightarrow> inside p' = add_mset i (inside p) \<and> gone p' = gone p"
    and shut_law: "shut_conn p i p' \<Longrightarrow> inside p' = inside p \<and> gone p' = add_mset i (gone p)"
    and reap_law: "reap_conn p i p' \<Longrightarrow> inside p = add_mset i (inside p') \<and> gone p' = add_mset i (gone p)"
    and quiet_law: "quiet p p' \<Longrightarrow> inside p' = inside p \<and> gone p' = gone p"
begin

abbreviation bal :: "'p \<Rightarrow> 'i multiset \<Rightarrow> 'i multiset \<Rightarrow> bool" where
  "bal \<equiv> balanced inside gone"

lemma bal_take: "take_conn p i p' \<Longrightarrow> bal p held d \<Longrightarrow> bal p' (add_mset i held) d"
  using take_law [of p i p'] by (auto simp: balanced_def)

lemma bal_give: "give_conn p i p' \<Longrightarrow> bal p (add_mset i held) d \<Longrightarrow> bal p' held d"
  using give_law [of p i p'] by (auto simp: balanced_def)

lemma bal_shut: "shut_conn p i p' \<Longrightarrow> bal p (add_mset i held) d \<Longrightarrow> bal p' held d"
  using shut_law [of p i p'] by (auto simp: balanced_def)

lemma bal_reap: "reap_conn p i p' \<Longrightarrow> bal p held d \<Longrightarrow> bal p' held d"
  using reap_law [of p i p'] by (auto simp: balanced_def)

lemma bal_quiet: "quiet p p' \<Longrightarrow> bal p held d \<Longrightarrow> bal p' held d"
  using quiet_law [of p p'] by (auto simp: balanced_def)

lemma bal_dial: "bal p held d \<Longrightarrow> bal p (add_mset i held) (add_mset i d)"
  by (simp add: balanced_def)

lemma reap_shrinks: "reap_conn p i p' \<Longrightarrow> size (inside p') < size (inside p)"
  using reap_law [of p i p'] by simp

end

section \<open>The connection pool keeps it\<close>

definition inside_ids :: "connPool \<Rightarrow> nat option multiset" where
  "inside_ids c = image_mset ce_Conn (owned c)"

definition closed_ids :: "connPool \<Rightarrow> nat option multiset" where
  "closed_ids c = image_mset ce_Conn (mset (cp_closed c))"

text \<open>
  A \<open>Get\<close> that returns the zero upstream hands out a connection, provided no registered upstream is
  itself the zero value.
\<close>

definition take_by_Get :: "connPool \<Rightarrow> nat option \<Rightarrow> connPool \<Rightarrow> bool" where
  "take_by_Get c i c' \<longleftrightarrow> named_upstreams c \<and>
     (\<exists>clk ce. connPool_Get clk c = Ok ((ce, zero_Upstream), c') \<and> i = ce_Conn ce)"

definition give_by_Add :: "Configuration \<Rightarrow> sort_fun \<Rightarrow> connPool \<Rightarrow> nat option \<Rightarrow> connPool \<Rightarrow> bool" where
  "give_by_Add cfg srt c i c' \<longleftrightarrow> (\<exists>now ce err. connPool_Add cfg srt now c ce = (err, c') \<and> i = ce_Conn ce)"

definition shut_by_Close :: "Configuration \<Rightarrow> sort_fun \<Rightarrow> connPool \<Rightarrow> nat option \<Rightarrow> connPool \<Rightarrow> bool" where
  "shut_by_Close cfg srt c i c' \<longleftrightarrow>
     (\<exists>now ce. connPool_CloseConnection cfg srt now c ce = Ok c' \<and> i = ce_Conn ce)"

inductive reap_step :: "Configuration \<Rightarrow> sort_fun \<Rightarrow> connPool \<Rightarrow> nat option \<Rightarrow> connPool \<Rightarrow> bool"
  for cfg srt where
  reap: "\<lbrakk>cp_closing c = xs @ ce # ys;
     connPool_CloseConnection cfg srt now (c\<lparr>cp_closing := xs @ ys\<rparr>) ce = Ok c'\<rbrakk> \<Longrightarrow>
     reap_step cfg srt c (ce_Conn ce) c'"

definition dial_fails :: "Configuration \<Rightarrow> connPool \<Rightarrow> connPool \<Rightarrow> bool" where
  "dial_fails cfg c c' \<longleftrightarrow>
     (\<exists>now u dial d ce err. connPool_NewConnection cfg now c u dial d = ((ce, Some err), c'))"

lemma best_loop_source:
  "case getBestUpstream_loop clk c ps best of
      Inl u \<Rightarrow> \<exists>p\<in>set ps. u = cp_store c p | Inr u \<Rightarrow> u = best \<or> (\<exists>p\<in>set ps. u = cp_store c p)"
proof (induction ps arbitrary: clk best)
  case Nil
  show ?case by simp
next
  case (Cons p ps)
  have "case getBestUpstream_loop (later 1 clk) c ps b of
      Inl u \<Rightarrow> \<exists>p\<in>set (p # ps). u = cp_store c p
    | Inr u \<Rightarrow> u = b \<or> (\<exists>p\<in>set (p # ps). u = cp_store c p)" for b
    using Cons [where clk = "later 1 clk" and best = b] by (auto split: sum.splits)
  from this [of best] this [of "cp_store c p"] show ?case
    by (auto simp: Let_def split: option.split sum.splits)
qed

lemma best_in_upstreams:
  assumes "getBestUpstream clk c = Ok u"
  shows "\<exists>p\<in>set (cp_upstreams c). u = cp_store c p"
  using best_loop_source [where clk = clk and c = c and ps = "cp_upstreams c" and best = zero_Upstream] assms
  by (auto simp: getBestUpstream_def split: sum.splits if_splits list.splits)

lemma named_not_zero: "named_upstreams c \<Longrightarrow> getBestUpstream clk c = Ok u \<Longrightarrow> u \<noteq> zero_Upstream"
  using best_in_upstreams [of clk c u] by (auto simp: named_upstreams_def zero_Upstream_def)

lemma Close_ledger:
  assumes "connPool_CloseConnection cfg srt now c ce = Ok c'"
  shows "owned c' = owned c \<and> cp_closed c' = cp_closed c @ [ce]"
proof -
  let ?u = "snd (updateUpstream cfg srt now c ce)"
  have c': "c' = ?u\<lparr>cp_closed := cp_closed ?u @ [ce]\<rparr>"
    using assms by (auto simp: connPool_CloseConnection_def connEntry_Close_def split: option.splits)
  have "owned (?u\<lparr>cp_closed := x\<rparr>) = owned ?u" for x
    by (simp add: owned_def pooled_def pool_conns_def)
  then show ?thesis by (simp add: c')
qed

interpretation pool: connection_ledger inside_ids closed_ids take_by_Get "give_by_Add cfg srt"
  "shut_by_Close cfg srt" "reap_step cfg srt" "dial_fails cfg"
proof
  show "inside_ids c = add_mset i (inside_ids c') \<and> closed_ids c' = closed_ids c"
    if "take_by_Get c i c'" for c i c'
  proof -
    from that obtain clk ce where n: "named_upstreams c"
        and g: "connPool_Get clk c = Ok ((ce, zero_Upstream), c')" "i = ce_Conn ce"
      by (auto simp: take_by_Get_def)
    from g(1) show ?thesis
      by (cases rule: Get_owned) (use n g in \<open>auto simp: inside_ids_def closed_ids_def dest: named_not_zero\<close>)
  qed
  show "inside_ids c' = add_mset i (inside_ids c) \<and> closed_ids c' = closed_ids c"
    if "give_by_Add cfg srt c i c'" for c i c'
  proof -
    from that obtain now ce err where a: "connPool_Add cfg srt now c ce = (err, c')" "i = ce_Conn ce"
      by (auto simp: give_by_Add_def)
    then show ?thesis
      using Add_owned [of cfg srt now c ce] by (simp add: inside_ids_def closed_ids_def)
  qed
  show "inside_ids c' = inside_ids c \<and> closed_ids c' = add_mset i (closed_ids c)"
    if "shut_by_Close cfg srt c i c'" for c i c'
    using that by (auto simp: shut_by_Close_def inside_ids_def closed_ids_def dest!: Close_ledger)
  show "inside_ids c = add_mset i (inside_ids c') \<and> closed_ids c' = add_mset i (closed_ids c)"
    if "reap_step cfg srt c i c'" for c i c'
    using that
  proof cases
    case (reap xs ce ys now)
    have "owned c = add_mset ce (owned (c\<lparr>cp_closing := xs @ ys\<rparr>))"
      by (simp add: owned_def pooled_def pool_conns_def reap(2))
    with reap(1) Close_ledger [OF reap(3)] show ?thesis
      by (simp add: inside_ids_def closed_ids_def)
  qed
  show "inside_ids c' = inside_ids c \<and> closed_ids c' = closed_ids c" if "dial_fails cfg c c'" for c c'
  proof -
    from that obtain now u dial d ce err where
      "connPool_NewConnection cfg now c u dial d = ((ce, Some err), c')"
      by (auto simp: dial_fails_def)
    then have "c' = c \<or> (\<exists>p. c' = coolAndPurgeUpstream cfg now c p)"
      by (auto simp: connPool_NewConnection_def Let_def split: sum.splits)
    then show ?thesis by (auto simp: inside_ids_def closed_ids_def)
  qed
qed


section \<open>Clients, dials and closing goroutines together\<close>

record psys =
  ps_pool :: connPool
  ps_held :: "connEntry multiset"
  ps_dialled :: "nat list"

text \<open>
  \<open>ps_held\<close> are the connections clients have in hand, \<open>ps_dialled\<close> all connections the dialer ever
  returned; the dialer returns a new connection each time.
\<close>

inductive pool_step :: "Configuration \<Rightarrow> sort_fun \<Rightarrow> psys \<Rightarrow> psys \<Rightarrow> bool" for cfg srt where
  ps_upstream: "\<lbrakk>up_Name u \<noteq> []; p \<notin> set (cp_upstreams (ps_pool s))\<rbrakk> \<Longrightarrow>
     pool_step cfg srt s (s\<lparr>ps_pool := connPool_AddUpstream
       ((ps_pool s)\<lparr>cp_store := (cp_store (ps_pool s))(p := u)\<rparr>) p\<rparr>)"
| ps_get: "connPool_Get clk (ps_pool s) = Ok ((ce, zero_Upstream), c') \<Longrightarrow>
     pool_step cfg srt s (s\<lparr>ps_pool := c', ps_held := add_mset ce (ps_held s)\<rparr>)"
| ps_get_dial: "\<lbrakk>connPool_Get clk (ps_pool s) = Ok ((ce, u), c'); u \<noteq> zero_Upstream\<rbrakk> \<Longrightarrow>
     pool_step cfg srt s (s\<lparr>ps_pool := c'\<rparr>)"
| ps_dial: "\<lbrakk>connPool_NewConnection cfg now (ps_pool s) u dial d = ((ce, None), c');
     dial (Upstream_GetAddress u) = Inr n; n \<notin> set (ps_dialled s)\<rbrakk> \<Longrightarrow>
     pool_step cfg srt s
       (s\<lparr>ps_pool := c', ps_held := add_mset ce (ps_held s), ps_dialled := n # ps_dialled s\<rparr>)"
| ps_dial_fail: "connPool_NewConnection cfg now (ps_pool s) u dial d = ((ce, Some err), c') \<Longrightarrow>
     pool_step cfg srt s (s\<lparr>ps_pool := c'\<rparr>)"
| ps_exchange: "ps_held s = add_mset ce held \<Longrightarrow>
     pool_step cfg srt s (s\<lparr>ps_held := add_mset (AddExchange cfg rtt ce) held\<rparr>)"
| ps_error: "ps_held s = add_mset ce held \<Longrightarrow>
     pool_step cfg srt s (s\<lparr>ps_held := add_mset (AddError ce) held\<rparr>)"
| ps_put: "\<lbrakk>ps_held s = add_mset ce held; connPool_Add cfg srt now (ps_pool s) ce = (err, c')\<rbrakk> \<Longrightarrow>
     pool_step cfg srt s (s\<lparr>ps_pool := c', ps_held := held\<rparr>)"
| ps_close: "\<lbrakk>ps_held s = add_mset ce held;
     connPool_CloseConnection cfg srt now (ps_pool s) ce = Ok c'\<rbrakk> \<Longrightarrow>
     pool_step cfg srt s (s\<lparr>ps_pool := c', ps_held := held\<rparr>)"
| ps_reap: "reap_step cfg srt (ps_pool s) i c' \<Longrightarrow> pool_step cfg srt s (s\<lparr>ps_pool := c'\<rparr>)"

definition ledger :: "psys \<Rightarrow> bool" where
  "ledger s \<longleftrightarrow> named_upstreams (ps_pool s) \<and> distinct (ps_dialled s) \<and>
     balanced inside_ids closed_ids (ps_pool s) (image_mset ce_Conn (ps_held s))
       (mset (map Some (ps_dialled s)))"

lemma update_upstreams [simp]:
  assumes "sort_contract srt"
  shows "set (cp_upstreams (snd (updateUpstream cfg srt now c ce))) = set (cp_upstreams c)"
proof -
  have "set (srt w xs) = set xs" for w xs
    using assms by (metis set_mset_mset sort_contract_def)
  then show ?thesis
    by (auto simp: updateUpstream_def Let_def sortUpstreams_def weightUpstream_def split: sum.splits)
qed

lemma update_names:
  assumes "sort_contract srt"
  shows "named_upstreams (snd (updateUpstream cfg srt now c ce)) \<longleftrightarrow> named_upstreams c"
proof -
  have "up_Name (cp_store (snd (updateUpstream cfg srt now c ce)) q) = up_Name (cp_store c q)" for q
    by (auto simp: updateUpstream_def Let_def weightUpstream_def Upstream_SetWeight_def Cooldown_def
        split: sum.splits)
  then show ?thesis by (simp add: named_upstreams_def assms)
qed

lemma named_cong:
  "cp_upstreams c' = cp_upstreams c \<Longrightarrow> (\<And>q. up_Name (cp_store c' q) = up_Name (cp_store c q)) \<Longrightarrow>
     named_upstreams c' = named_upstreams c"
  by (simp add: named_upstreams_def)

lemma Add_named:
  assumes "sort_contract srt" and "connPool_Add cfg srt now c ce = (err, c')"
  shows "named_upstreams c' = named_upstreams c"
  using update_names [OF assms(1), of cfg now c ce] assms(2)
    named_cong [of c' "snd (updateUpstream cfg srt now c ce)"] pool_Add_fields(1,2) [of cfg srt now c ce]
  by simp

lemma Close_named:
  assumes "sort_contract srt" and "connPool_CloseConnection cfg srt now c ce = Ok c'"
  shows "named_upstreams c' = named_upstreams c"
  using update_names [OF assms(1), of cfg now c ce] assms(2)
  by (auto simp: connPool_CloseConnection_def connEntry_Close_def named_upstreams_def split: option.splits)

lemma Add_upstreams:
  assumes "sort_contract srt" and "connPool_Add cfg srt now c ce = (err, c')"
  shows "set (cp_upstreams c') = set (cp_upstreams c)"
  using pool_Add_fields(1) [of cfg srt now c ce] assms by simp

lemma Close_upstreams:
  assumes "sort_contract srt" and "connPool_CloseConnection cfg srt now c ce = Ok c'"
  shows "set (cp_upstreams c') = set (cp_upstreams c)"
  using assms by (auto simp: connPool_CloseConnection_def connEntry_Close_def split: option.splits)

lemma pool_step_ledger:
  assumes "sort_contract srt" and "pool_step cfg srt s s'" and "ledger s"
  shows "ledger s'"
  using assms(2,3)
proof cases
  case (ps_upstream u p)
  have "inside_ids (connPool_AddUpstream (c\<lparr>cp_store := st\<rparr>) p) = inside_ids c"
    "closed_ids (connPool_AddUpstream (c\<lparr>cp_store := st\<rparr>) p) = closed_ids c" for c st
    by (simp_all add: connPool_AddUpstream_def inside_ids_def closed_ids_def owned_def pooled_def pool_conns_def)
  with ps_upstream assms(3) show ?thesis
    by (auto simp: ledger_def balanced_def named_upstreams_def connPool_AddUpstream_def)
next
  case (ps_get clk ce c')
  then have "take_by_Get (ps_pool s) (ce_Conn ce) c'"
    using assms(3) by (auto simp: take_by_Get_def ledger_def)
  moreover have "named_upstreams c'"
    using ps_get(2) assms(3)
    by (cases rule: Get_owned) (auto simp: ledger_def named_upstreams_def)
  ultimately show ?thesis
    using ps_get(1) assms(3) pool.bal_take by (auto simp: ledger_def)
next
  case (ps_get_dial clk ce u c')
  from ps_get_dial(2) have "c' = ps_pool s"
    by (cases rule: Get_owned) (use ps_get_dial(3) in simp_all)
  with ps_get_dial(1) assms(3) show ?thesis by simp
next
  case (ps_dial now u dial d ce c' n)
  then have "c' = ps_pool s" "ce_Conn ce = Some n"
    by (auto simp: connPool_NewConnection_def Let_def split: sum.splits)
  with ps_dial assms(3) show ?thesis
    by (auto simp: ledger_def intro: pool.bal_dial)
next
  case (ps_dial_fail now u dial d ce err c')
  have q: "dial_fails cfg (ps_pool s) c'"
    unfolding dial_fails_def using ps_dial_fail(2) by blast
  have "c' = ps_pool s \<or> (\<exists>p. c' = coolAndPurgeUpstream cfg now (ps_pool s) p)"
    using ps_dial_fail(2) by (auto simp: connPool_NewConnection_def Let_def split: sum.splits)
  then have "named_upstreams c' = named_upstreams (ps_pool s)"
    by (auto intro!: named_cong simp: Cooldown_def)
  with ps_dial_fail(1) assms(3) pool.bal_quiet [OF q] show ?thesis by (auto simp: ledger_def)
next
  case (ps_exchange ce held rtt)
  with assms(3) show ?thesis by (simp add: ledger_def)
next
  case (ps_error ce held)
  with assms(3) show ?thesis by (simp add: ledger_def AddError_def)
next
  case (ps_put ce held now err c')
  then have "give_by_Add cfg srt (ps_pool s) (ce_Conn ce) c'" by (auto simp: give_by_Add_def)
  with ps_put assms show ?thesis
    using pool.bal_give Add_named [OF assms(1) ps_put(3)] by (auto simp: ledger_def)
next
  case (ps_close ce held now c')
  then have "shut_by_Close cfg srt (ps_pool s) (ce_Conn ce) c'" by (auto simp: shut_by_Close_def)
  with ps_close assms show ?thesis
    using pool.bal_shut Close_named [OF assms(1) ps_close(3)] by (auto simp: ledger_def)
next
  case (ps_reap i c')
  from ps_reap(2) have "named_upstreams c' = named_upstreams (ps_pool s)"
  proof cases
    case (reap xs ce ys now)
    show ?thesis
      using Close_named [OF assms(1) reap(3)] by (simp add: named_upstreams_def)
  qed
  with ps_reap assms(3) pool.bal_reap [OF ps_reap(2)] show ?thesis by (auto simp: ledger_def)
qed

definition pool_start :: "(nat \<Rightarrow> Upstream) \<Rightarrow> psys" where
  "pool_start st = \<lparr>ps_pool = NewConnPool st, ps_held = {#}, ps_dialled = []\<rparr>"

lemma pool_start_ledger: "ledger (pool_start st)"
  by (simp add: ledger_def pool_start_def NewConnPool_def named_upstreams_def balanced_def inside_ids_def
      closed_ids_def owned_def pooled_def)

lemma pool_reach_ledger:
  assumes "sort_contract srt" and "(pool_step cfg srt)\<^sup>*\<^sup>* (pool_start st) s"
  shows "ledger s"
  using assms(2)
  by (induction rule: rtranclp_induct) (auto intro: pool_start_ledger pool_step_ledger [OF assms(1)])

text \<open>
  C30. However clients, dials and closing goroutines interleave, no connection is lost or handed out
  twice: every connection ever dialled is, exactly once, in the pool, waiting to be closed, in the
  hands of one client, or closed.
\<close>

theorem connections_conserved:
  assumes "sort_contract srt" and "(pool_step cfg srt)\<^sup>*\<^sup>* (pool_start st) s"
  shows "image_mset ce_Conn (pooled (ps_pool s) + mset (cp_closing (ps_pool s)) + ps_held s
      + mset (cp_closed (ps_pool s))) = mset (map Some (ps_dialled s)) \<and>
    distinct (ps_dialled s)"
  using pool_reach_ledger [OF assms]
  by (simp add: ledger_def balanced_def inside_ids_def closed_ids_def owned_def)

lemma ledger_conn:
  assumes "ledger s" and "ce \<in># ps_held s + owned (ps_pool s)"
  shows "\<exists>n. ce_Conn ce = Some n"
proof -
  have "image_mset ce_Conn (ps_held s + owned (ps_pool s)) \<subseteq># mset (map Some (ps_dialled s))"
  proof -
    have "mset (map Some (ps_dialled s))
        = image_mset ce_Conn (ps_held s + owned (ps_pool s)) + closed_ids (ps_pool s)"
      using assms(1) by (simp add: ledger_def balanced_def inside_ids_def ac_simps)
    then show ?thesis by simp
  qed
  moreover have "ce_Conn ce \<in># image_mset ce_Conn (ps_held s + owned (ps_pool s))"
    using assms(2) by (simp only: set_image_mset imageI)
  ultimately have "ce_Conn ce \<in># mset (map Some (ps_dialled s))" by (rule mset_subset_eqD)
  then show ?thesis by auto
qed

text \<open>
  Closing never panics in such a run: every connection a client holds, and every connection
  waiting to be closed, can be closed at any time.
\<close>

lemma closing_never_panics:
  assumes "sort_contract srt" and "(pool_step cfg srt)\<^sup>*\<^sup>* (pool_start st) s"
    and "ce \<in># ps_held s \<or> ce \<in> set (cp_closing (ps_pool s))"
  shows "\<exists>c'. connPool_CloseConnection cfg srt now (ps_pool s) ce = Ok c'"
proof -
  have "ce \<in># ps_held s + owned (ps_pool s)" using assms(3) by (auto simp: owned_def)
  then obtain n where "ce_Conn ce = Some n"
    using ledger_conn [OF pool_reach_ledger [OF assms(1,2)]] by blast
  then show ?thesis by (simp add: connPool_CloseConnection_def connEntry_Close_def)
qed

text \<open>
  C33. The closing goroutines come to an end. Each run takes one connection out of the pool's hands
  for good, also when closing a faulty connection purges the pool once more, so no more of them can
  run than the pool owned connections.
\<close>

theorem reaping_terminates:
  assumes "((\<lambda>c c'. \<exists>i. reap_step cfg srt c i c') ^^ n) c c'"
  shows "n + size (owned c') = size (owned c) \<and> length (cp_closed c') = length (cp_closed c) + n"
  using assms
proof (induction n arbitrary: c')
  case 0
  then show ?case by simp
next
  case (Suc n)
  then obtain c1 i where c1: "((\<lambda>c c'. \<exists>i. reap_step cfg srt c i c') ^^ n) c c1" "reap_step cfg srt c1 i c'"
    by auto
  have "inside_ids c1 = add_mset i (inside_ids c')" "closed_ids c' = add_mset i (closed_ids c1)"
    using pool.reap_law [OF c1(2)] by simp_all
  then have "size (owned c1) = Suc (size (owned c'))" "length (cp_closed c') = Suc (length (cp_closed c1))"
    by (metis inside_ids_def size_add_mset size_image_mset, metis closed_ids_def size_add_mset size_image_mset size_mset)
  with Suc.IH [OF c1(1)] show ?case by simp
qed

end
