(* ===== verification/Dns.thy ===== *)
theory Dns
  imports Prelude
begin

text \<open>
  The message types of the DNS library, with the fields the program reads or writes. Resource
  records are reached through pointers: an \<open>Answer\<close> slice holds interface values that point to
  records, copies of a message share them, and the cache writes through them. The records live in
  a store \<open>rr_store\<close>, and \<open>rrptr\<close> is an address in it.
\<close>

record rr =
  rr_Name :: string
  rr_Rrtype :: "16 word"
  rr_Ttl :: "32 word"
  rr_Data :: string

type_synonym rrptr = nat
type_synonym rr_store = "rrptr \<Rightarrow> rr"

record Question =
  q_Name :: string
  q_Qtype :: "16 word"

record Msg =
  m_Id :: "16 word"
  m_Opcode :: int
  m_Rcode :: int
  m_Authoritative :: bool
  m_RecursionDesired :: bool
  m_RecursionAvailable :: bool
  m_Question :: "Question list"
  m_Answer :: "rrptr list"
  m_Extra :: "rr list"

definition zero_Msg :: Msg where
  "zero_Msg = \<lparr>m_Id = 0, m_Opcode = 0, m_Rcode = 0, m_Authoritative = False,
     m_RecursionDesired = False, m_RecursionAvailable = False,
     m_Question = [], m_Answer = [], m_Extra = []\<rparr>"

definition RcodeServerFailure :: int where
  "RcodeServerFailure = 2"

end
