(* ===== verification/RecordCache.thy ===== *)
theory RecordCache
  imports Dns
begin

text \<open>
  The record cache of \<open>src/cache.go\<close>: \<open>Response\<close>, the expiry of its records and the operations of
  \<open>RecordCache\<close>. \<open>Add\<close>, \<open>Remove\<close>, \<open>RemoveSlice\<close> and \<open>Clean\<close> hold the write lock from their first to their
  last access, so each is one step. \<open>Get\<close> only holds the read lock while it writes TTLs, so lookups can
  overlap: \<open>RecordCache_Get\<close> is a lookup alone, and \<open>RecordCache_Get_shared\<close> one between whose accesses
  other lookups write TTLs. \<open>Evict\<close> starts a goroutine that hands the response to the trashman; the
  responses whose goroutine has not yet run are \<open>rc_evicting\<close>. \<open>CacheSizeGauge\<close>, which all caches of the
  process share, is in \<open>Gauges\<close>. Log output is left out.
\<close>

section \<open>Responses\<close>

record Response =
  resp_Name :: string
  resp_Entry :: Msg
  resp_Ttl :: duration
  resp_Qtype :: "16 word"
  resp_CreationTime :: time

definition zero_Response :: Response where
  "zero_Response = \<lparr>resp_Name = [], resp_Entry = zero_Msg, resp_Ttl = 0, resp_Qtype = 0,
     resp_CreationTime = 0\<rparr>"

definition FormatKey :: "Response \<Rightarrow> string" where
  "FormatKey r = format_s_d (resp_Name r) (uint (resp_Qtype r))"

definition GetExpirationTimeFromRR :: "Response \<Rightarrow> rr \<Rightarrow> time" where
  "GetExpirationTimeFromRR r rec = time_add (resp_CreationTime r) (ttl_duration (rr_Ttl rec))"

definition IsExpired :: "time \<Rightarrow> Response \<Rightarrow> rr \<Rightarrow> bool" where
  "IsExpired now r rec \<longleftrightarrow> time_add (resp_CreationTime r) (ttl_duration (rr_Ttl rec)) < now"

text \<open>
  \<open>updateTtl\<close> reads the clock in its expiry test and again for the remaining time, and writes the
  record through its pointer.
\<close>

definition updateTtl ::
  "(rat \<Rightarrow> 32 word) \<Rightarrow> clock \<Rightarrow> Response \<Rightarrow> rrptr \<Rightarrow> rr_store \<Rightarrow> rr_store" where
  "updateTtl oob clk r p st =
     (if IsExpired (clk 0) r (st p) then st
      else let expirationTime = GetExpirationTimeFromRR r (st p);
               ttl = Seconds (time_sub expirationTime (clk 1))
           in st(p := (st p)\<lparr>rr_Ttl := f64_to_u32 oob ttl\<rparr>))"

section \<open>The cache\<close>

text \<open>
  The trashman's own state; its channels exist once it is started, and it stops on \<open>Cancel\<close>.
\<close>

record trashMan =
  tm_responses :: "(string, Response) fmap"
  tm_evictionBatchSize :: int
  tm_paused :: bool
  tm_running :: bool

record janitor =
  j_running :: bool
  j_interval :: duration

record RecordCache =
  rc_Janitor :: "janitor option"
  rc_TrashMan :: "trashMan option"
  rc_cache :: "(string, Response) fmap"
  rc_evicting :: "Response list"

definition NewCache :: RecordCache where
  "NewCache = \<lparr>rc_Janitor = None, rc_TrashMan = None, rc_cache = fmempty, rc_evicting = []\<rparr>"

definition RecordCache_Size :: "RecordCache \<Rightarrow> nat" where
  "RecordCache_Size rc = fm_size (rc_cache rc)"

definition RecordCache_Evict :: "RecordCache \<Rightarrow> Response \<Rightarrow> RecordCache" where
  "RecordCache_Evict rc resp = rc\<lparr>rc_evicting := rc_evicting rc @ [resp]\<rparr>"

definition RecordCache_Add :: "RecordCache \<Rightarrow> Response \<Rightarrow> RecordCache" where
  "RecordCache_Add rc response = rc\<lparr>rc_cache := fmupd (FormatKey response) response (rc_cache rc)\<rparr>"

text \<open>The loop of \<open>Get\<close> over the answer: the new store, and whether it met an expired record.\<close>

fun Get_loop ::
  "(rat \<Rightarrow> 32 word) \<Rightarrow> clock \<Rightarrow> Response \<Rightarrow> rrptr list \<Rightarrow> rr_store \<Rightarrow> rr_store \<times> bool" where
  "Get_loop oob clk r [] st = (st, False)"
| "Get_loop oob clk r (p # ps) st =
     (let st' = updateTtl oob clk r p st
      in if IsExpired (clk 2) r (st' p) then (st', True)
         else Get_loop oob (later 3 clk) r ps st')"

definition RecordCache_Get ::
  "(rat \<Rightarrow> 32 word) \<Rightarrow> clock \<Rightarrow> RecordCache \<Rightarrow> string \<Rightarrow> 16 word \<Rightarrow> rr_store
     \<Rightarrow> (Response \<times> bool) \<times> RecordCache \<times> rr_store" where
  "RecordCache_Get oob clk rc name qtype st =
     (let probe = zero_Response\<lparr>resp_Name := name, resp_Qtype := qtype\<rparr>
      in case fmlookup (rc_cache rc) (FormatKey probe) of
           None \<Rightarrow> ((zero_Response, False), rc, st)
         | Some response \<Rightarrow>
             if resp_Qtype response \<noteq> qtype then ((zero_Response, False), rc, st)
             else (case Get_loop oob clk response (m_Answer (resp_Entry response)) st of
                     (st', True) \<Rightarrow> ((zero_Response, False), RecordCache_Evict rc response, st')
                   | (st', False) \<Rightarrow> ((response, True), rc, st')))"

text \<open>
  The same lookup while others run. \<open>oth k\<close> is what other lookups write between two accesses: the TTLs
  of some records. The read lock keeps everything else out.
\<close>

type_synonym ttl_writes = "rrptr \<Rightarrow> 32 word option"

definition others_write :: "ttl_writes \<Rightarrow> rr_store \<Rightarrow> rr_store" where
  "others_write f st = (\<lambda>p. case f p of None \<Rightarrow> st p | Some ttl \<Rightarrow> (st p)\<lparr>rr_Ttl := ttl\<rparr>)"

fun Get_loop_shared ::
  "(rat \<Rightarrow> 32 word) \<Rightarrow> clock \<Rightarrow> (nat \<Rightarrow> ttl_writes) \<Rightarrow> Response \<Rightarrow> rrptr list \<Rightarrow> rr_store \<Rightarrow> rr_store \<times> bool" where
  "Get_loop_shared oob clk oth r [] st = (others_write (oth 0) st, False)"
| "Get_loop_shared oob clk oth r (p # ps) st =
     (let st1 = others_write (oth 0) st;
          st2 = others_write (oth 1) st1;
          ttl = Seconds (time_sub (GetExpirationTimeFromRR r (st2 p)) (clk 1));
          st3 = others_write (oth 2) st2;
          st4 = (if IsExpired (clk 0) r (st1 p) then st3
                 else st3(p := (st3 p)\<lparr>rr_Ttl := f64_to_u32 oob ttl\<rparr>));
          st5 = others_write (oth 3) st4
      in if IsExpired (clk 2) r (st5 p) then (others_write (oth 4) st5, True)
         else Get_loop_shared oob (later 3 clk) (\<lambda>k. oth (k + 4)) r ps st5)"

definition RecordCache_Get_shared ::
  "(rat \<Rightarrow> 32 word) \<Rightarrow> clock \<Rightarrow> (nat \<Rightarrow> ttl_writes) \<Rightarrow> RecordCache \<Rightarrow> string \<Rightarrow> 16 word \<Rightarrow> rr_store
     \<Rightarrow> (Response \<times> bool) \<times> RecordCache \<times> rr_store" where
  "RecordCache_Get_shared oob clk oth rc name qtype st =
     (let probe = zero_Response\<lparr>resp_Name := name, resp_Qtype := qtype\<rparr>
      in case fmlookup (rc_cache rc) (FormatKey probe) of
           None \<Rightarrow> ((zero_Response, False), rc, st)
         | Some response \<Rightarrow>
             if resp_Qtype response \<noteq> qtype then ((zero_Response, False), rc, st)
             else (case Get_loop_shared oob clk oth response (m_Answer (resp_Entry response)) st of
                     (st', True) \<Rightarrow> ((zero_Response, False), RecordCache_Evict rc response, st')
                   | (st', False) \<Rightarrow> ((response, True), rc, st')))"

abbreviation nobody :: "nat \<Rightarrow> ttl_writes" where
  "nobody \<equiv> (\<lambda>_ _. None)"

definition RecordCache_remove :: "RecordCache \<Rightarrow> Response \<Rightarrow> RecordCache" where
  "RecordCache_remove rc response = rc\<lparr>rc_cache := fmdrop (FormatKey response) (rc_cache rc)\<rparr>"

definition RecordCache_Remove :: "RecordCache \<Rightarrow> Response \<Rightarrow> RecordCache" where
  "RecordCache_Remove rc response = RecordCache_remove rc response"

fun RecordCache_RemoveSlice :: "RecordCache \<Rightarrow> Response list \<Rightarrow> RecordCache" where
  "RecordCache_RemoveSlice rc [] = rc"
| "RecordCache_RemoveSlice rc (resp # resps) =
     RecordCache_RemoveSlice (RecordCache_remove rc resp) resps"

text \<open>
  \<open>Clean\<close>: the inner loop breaks at the first expired record; \<open>order\<close> is the order in which
  \<open>range\<close> visits the map.
\<close>

fun Clean_entry :: "clock \<Rightarrow> rr_store \<Rightarrow> Response \<Rightarrow> rrptr list \<Rightarrow> bool" where
  "Clean_entry clk st r [] = False"
| "Clean_entry clk st r (p # ps) =
     (if IsExpired (clk 0) r (st p) then True else Clean_entry (later 1 clk) st r ps)"

fun Clean_loop ::
  "clock \<Rightarrow> rr_store \<Rightarrow> string list \<Rightarrow> nat \<Rightarrow> RecordCache \<Rightarrow> nat \<times> RecordCache" where
  "Clean_loop clk st [] records_deleted rc = (records_deleted, rc)"
| "Clean_loop clk st (key # order) records_deleted rc =
     (case fmlookup (rc_cache rc) key of
        None \<Rightarrow> Clean_loop clk st order records_deleted rc
      | Some response \<Rightarrow>
          let ans = m_Answer (resp_Entry response); clk' = later (length ans) clk
          in if Clean_entry clk st response ans
             then Clean_loop clk' st order (records_deleted + 1) (RecordCache_Evict rc response)
             else Clean_loop clk' st order records_deleted rc)"

definition RecordCache_Clean ::
  "string list \<Rightarrow> clock \<Rightarrow> rr_store \<Rightarrow> RecordCache \<Rightarrow> nat \<times> RecordCache" where
  "RecordCache_Clean order clk st rc = Clean_loop clk st order 0 rc"

declare FormatKey_def [cache_simps] RecordCache_Evict_def [cache_simps]
  RecordCache_Add_def [cache_simps] RecordCache_remove_def [cache_simps]
  RecordCache_Remove_def [cache_simps] RecordCache_Size_def [cache_simps]


section \<open>Keys and the shape of the cache\<close>

abbreviation cache_key :: "string \<Rightarrow> 16 word \<Rightarrow> string" where
  "cache_key name qtype \<equiv> format_s_d name (uint qtype)"

text \<open>The cache key of a response determines its name and query type.\<close>

lemma FormatKey_inject:
  "FormatKey r = FormatKey r' \<longleftrightarrow> resp_Name r = resp_Name r' \<and> resp_Qtype r = resp_Qtype r'"
  by (simp add: FormatKey_def word_uint_eq_iff)

definition cache_keyed :: "RecordCache \<Rightarrow> bool" where
  "cache_keyed rc \<longleftrightarrow> (\<forall>k r. fmlookup (rc_cache rc) k = Some r \<longrightarrow> FormatKey r = k)"

lemma cache_keyedD: "cache_keyed rc \<Longrightarrow> fmlookup (rc_cache rc) k = Some r \<Longrightarrow> FormatKey r = k"
  by (simp add: cache_keyed_def)

lemma keyed_NewCache [intro, simp]: "cache_keyed NewCache"
  by (simp add: cache_keyed_def NewCache_def)

lemma keyed_Add [intro]: "cache_keyed rc \<Longrightarrow> cache_keyed (RecordCache_Add rc r)"
  by (auto simp: cache_keyed_def RecordCache_Add_def)

lemma keyed_remove [intro]: "cache_keyed rc \<Longrightarrow> cache_keyed (RecordCache_remove rc r)"
  by (simp add: cache_keyed_def RecordCache_remove_def)

lemma keyed_RemoveSlice [intro]: "cache_keyed rc \<Longrightarrow> cache_keyed (RecordCache_RemoveSlice rc rs)"
  by (induction rs arbitrary: rc) auto

lemma Evict_fields [simp]:
  "rc_cache (RecordCache_Evict rc r) = rc_cache rc"
  "rc_TrashMan (RecordCache_Evict rc r) = rc_TrashMan rc"
  "rc_Janitor (RecordCache_Evict rc r) = rc_Janitor rc"
  "rc_evicting (RecordCache_Evict rc r) = rc_evicting rc @ [r]"
  by (simp_all add: RecordCache_Evict_def)

lemma keyed_Evict [intro]: "cache_keyed rc \<Longrightarrow> cache_keyed (RecordCache_Evict rc r)"
  by (simp add: cache_keyed_def)

lemma lookup_Add [simp]:
  "fmlookup (rc_cache (RecordCache_Add rc r)) k =
     (if k = FormatKey r then Some r else fmlookup (rc_cache rc) k)"
  by (auto simp: RecordCache_Add_def)

lemma lookup_remove [simp]:
  "fmlookup (rc_cache (RecordCache_remove rc r)) k =
     (if k = FormatKey r then None else fmlookup (rc_cache rc) k)"
  by (simp add: RecordCache_remove_def)

lemma lookup_RemoveSlice:
  "fmlookup (rc_cache (RecordCache_RemoveSlice rc rs)) k =
     (if k \<in> FormatKey ` set rs then None else fmlookup (rc_cache rc) k)"
  by (induction rs arbitrary: rc) auto

lemma remove_fields [simp]:
  "rc_TrashMan (RecordCache_remove rc r) = rc_TrashMan rc"
  "rc_Janitor (RecordCache_remove rc r) = rc_Janitor rc"
  "rc_evicting (RecordCache_remove rc r) = rc_evicting rc"
  by (simp_all add: RecordCache_remove_def)

lemma RemoveSlice_fields [simp]:
  "rc_TrashMan (RecordCache_RemoveSlice rc rs) = rc_TrashMan rc"
  "rc_Janitor (RecordCache_RemoveSlice rc rs) = rc_Janitor rc"
  "rc_evicting (RecordCache_RemoveSlice rc rs) = rc_evicting rc"
  by (induction rs arbitrary: rc) simp_all

lemma Add_fields [simp]:
  "rc_TrashMan (RecordCache_Add rc r) = rc_TrashMan rc"
  "rc_Janitor (RecordCache_Add rc r) = rc_Janitor rc"
  "rc_evicting (RecordCache_Add rc r) = rc_evicting rc"
  by (simp_all add: RecordCache_Add_def Let_def)

section \<open>The loop over the records of an answer\<close>

lemma updateTtl_other [simp]: "q \<noteq> p \<Longrightarrow> updateTtl oob clk r p st q = st q"
  by (simp add: updateTtl_def Let_def)

lemma updateTtl_keeps [simp]:
  "rr_Name (updateTtl oob clk r p st q) = rr_Name (st q)"
  "rr_Rrtype (updateTtl oob clk r p st q) = rr_Rrtype (st q)"
  "rr_Data (updateTtl oob clk r p st q) = rr_Data (st q)"
  by (simp_all add: updateTtl_def Let_def)

lemma Get_loop_other: "q \<notin> set ps \<Longrightarrow> fst (Get_loop oob clk r ps st) q = st q"
  by (induction oob clk r ps st rule: Get_loop.induct) (simp_all add: Let_def)

lemma IsExpired_iff:
  "IsExpired now r rec \<longleftrightarrow> resp_CreationTime r + uint (rr_Ttl rec) * 1000000000 < now"
  by (simp add: IsExpired_def time_add_def nanos_ttl_duration)

lemma Get_loop_hit:
  "Get_loop oob clk r ps st = (st', False) \<Longrightarrow> distinct ps \<Longrightarrow> i < length ps \<Longrightarrow>
     \<not> IsExpired (clk (3 * i + 2)) r (st' (ps ! i))"
proof (induction oob clk r ps st arbitrary: i rule: Get_loop.induct)
  case (1 oob clk r st)
  then show ?case by simp
next
  case (2 oob clk r p ps st)
  let ?st1 = "updateTtl oob clk r p st"
  have notexp: "\<not> IsExpired (clk 2) r (?st1 p)"
    and rest: "Get_loop oob (later 3 clk) r ps ?st1 = (st', False)"
    using "2.prems"(1) by (simp_all add: Let_def split: if_splits)
  show ?case
  proof (cases i)
    case 0
    have "st' p = ?st1 p"
      using Get_loop_other [of p ps oob "later 3 clk" r ?st1] rest "2.prems"(2) by simp
    with notexp 0 show ?thesis by (simp add: eval_nat_numeral)
  next
    case (Suc j)
    have "\<not> IsExpired (later 3 clk (3 * j + 2)) r (st' (ps ! j))"
      using "2.IH" [OF refl notexp rest] "2.prems"(2,3) Suc by simp
    with Suc show ?thesis by (simp add: later_apply algebra_simps)
  qed
qed

text \<open>
  What \<open>updateTtl\<close> writes when the record is still alive at the second reading: the remaining time
  in whole seconds, up to the rounding of the double, and never more than before.
\<close>

lemma updateTtl_value:
  fixes r :: Response and st :: rr_store and p :: rrptr and clk :: clock
  defines "T \<equiv> uint (rr_Ttl (st p))"
  defines "left \<equiv> resp_CreationTime r + T * 1000000000 - clk 1"
  assumes alive: "\<not> IsExpired (clk 0) r (st p)" and born: "resp_CreationTime r \<le> clk 1"
    and left: "0 \<le> left"
  shows "left div 1000000000 \<le> uint (rr_Ttl (updateTtl oob clk r p st p))"
    and "uint (rr_Ttl (updateTtl oob clk r p st p)) \<le> left div 1000000000 + 1"
    and "uint (rr_Ttl (updateTtl oob clk r p st p)) \<le> T"
    and "left mod 1000000000 = 0 \<Longrightarrow>
           uint (rr_Ttl (updateTtl oob clk r p st p)) = left div 1000000000"
proof -
  have T: "0 \<le> T" "T < 2 ^ 32" using uint_bounded [of "rr_Ttl (st p)"] by (simp_all add: T_def)
  have leT: "left \<le> T * 1000000000" using born by (simp add: left_def)
  then have "left \<le> max_dur" using T(2) by (simp add: max_dur_def)
  with left have n: "nanos (dur left) = left" by (simp add: nanos_dur min_dur_def)
  have sub: "time_sub (GetExpirationTimeFromRR r (st p)) (clk 1) = dur left"
    using left \<open>left \<le> max_dur\<close>
    by (simp add: time_sub_def GetExpirationTimeFromRR_def time_add_def nanos_ttl_duration
        left_def T_def min_dur_def max_dur_def)
  define v where "v = trunc_rat (Seconds (dur left))"
  note tr = trunc_Seconds [of "dur left", unfolded n, OF left, folded v_def]
  have vT: "v \<le> T"
  proof (cases "left mod 1000000000 = 0")
    case True
    then show ?thesis using tr(3) leT by linarith
  next
    case False
    have "left div 1000000000 * 1000000000 + left mod 1000000000 = left" by simp
    moreover have "0 < left mod 1000000000" using False by (simp add: order_less_le)
    ultimately have "left div 1000000000 < T" using leT by linarith
    then show ?thesis using tr(2) by linarith
  qed
  have w: "rr_Ttl (updateTtl oob clk r p st p) = word_of_int v"
    using alive tr(4) vT T(2)
    by (simp add: updateTtl_def Let_def sub f64_to_u32_def del: One_nat_def flip: v_def)
  have "uint (word_of_int v :: 32 word) = v"
    using tr(4) vT T(2) by (simp add: uint_word_of_int take_bit_int_eq_self)
  then have u: "uint (rr_Ttl (updateTtl oob clk r p st p)) = v" by (simp add: w)
  show "left div 1000000000 \<le> uint (rr_Ttl (updateTtl oob clk r p st p))"
    "uint (rr_Ttl (updateTtl oob clk r p st p)) \<le> left div 1000000000 + 1"
    "uint (rr_Ttl (updateTtl oob clk r p st p)) \<le> T"
    using tr(1,2) vT by (simp_all add: u)
  show "uint (rr_Ttl (updateTtl oob clk r p st p)) = left div 1000000000"
    if "left mod 1000000000 = 0"
    using tr(3) that by (simp add: u)
qed


section \<open>Lookups within one clock tick\<close>

lemma updateTtl_const_le:
  assumes "resp_CreationTime r \<le> now"
  shows "uint (rr_Ttl (updateTtl oob (\<lambda>_. now) r p st q)) \<le> uint (rr_Ttl (st q))"
proof (cases "q = p \<and> \<not> IsExpired now r (st p)")
  case True
  then have "0 \<le> resp_CreationTime r + uint (rr_Ttl (st p)) * 1000000000 - now"
    by (simp add: IsExpired_iff)
  with True assms show ?thesis
    using updateTtl_value(3) [of "\<lambda>_. now" r st p oob] by simp
next
  case False
  then show ?thesis by (cases "q = p") (simp_all add: updateTtl_def)
qed

lemma Get_loop_second_half:
  assumes "resp_CreationTime r \<le> now" and "p \<in> set ps"
    and "(uint (rr_Ttl (st p)) + 1) * 1000000000 < 2 * (now - resp_CreationTime r)"
  shows "snd (Get_loop oob (\<lambda>_. now) r ps st)"
  using assms(2,3)
proof (induction ps arbitrary: st)
  case Nil
  then show ?case by simp
next
  case (Cons p0 ps)
  let ?st1 = "updateTtl oob (\<lambda>_. now) r p0 st"
  show ?case
  proof (cases "IsExpired now r (?st1 p0)")
    case True
    then show ?thesis by (simp add: Let_def)
  next
    case False
    have "p \<noteq> p0"
    proof
      assume p: "p = p0"
      have alive: "\<not> IsExpired now r (st p)"
      proof
        assume "IsExpired now r (st p)"
        then have "?st1 = st" by (simp add: updateTtl_def p)
        with False \<open>IsExpired now r (st p)\<close> p show False by simp
      qed
      let ?left = "resp_CreationTime r + uint (rr_Ttl (st p)) * 1000000000 - now"
      have left: "0 \<le> ?left" using alive by (simp add: IsExpired_iff)
      have "uint (rr_Ttl (?st1 p)) \<le> ?left div 1000000000 + 1"
        using updateTtl_value(2) [of "\<lambda>_. now" r st p oob] alive assms(1) left p by simp
      moreover have "?left div 1000000000 * 1000000000 \<le> ?left" by simp
      ultimately show False
        using False Cons.prems(2) p by (simp add: IsExpired_iff)
    qed
    with Cons.prems(1) have "p \<in> set ps" by simp
    moreover have "(uint (rr_Ttl (?st1 p)) + 1) * 1000000000 < 2 * (now - resp_CreationTime r)"
      using Cons.prems(2) \<open>p \<noteq> p0\<close> by simp
    ultimately have "snd (Get_loop oob (\<lambda>_. now) r ps ?st1)" by (rule Cons.IH)
    with False show ?thesis by (simp add: Let_def)
  qed
qed

text \<open>
  The age of a response in seconds, rounded up. A lookup replaces a TTL by the TTL less this age, up to the
  rounding of the double.
\<close>

definition seconds_old :: "Response \<Rightarrow> time \<Rightarrow> int" where
  "seconds_old r now = - ((resp_CreationTime r - now) div 1000000000)"

lemma seconds_old_bounds:
  "now - resp_CreationTime r \<le> seconds_old r now * 1000000000"
  "seconds_old r now * 1000000000 < now - resp_CreationTime r + 1000000000"
  unfolding seconds_old_def by linarith+

lemma seconds_old_nonneg: "resp_CreationTime r \<le> now \<Longrightarrow> 0 \<le> seconds_old r now"
  unfolding seconds_old_def by linarith

lemma updateTtl_ages:
  assumes "resp_CreationTime r \<le> now" and "seconds_old r now \<le> uint (rr_Ttl (st p))"
  shows "\<not> IsExpired now r (st p)"
    and "uint (rr_Ttl (updateTtl oob (\<lambda>_. now) r p st p)) - (uint (rr_Ttl (st p)) - seconds_old r now) \<in> {0, 1}"
proof -
  let ?left = "resp_CreationTime r + uint (rr_Ttl (st p)) * 1000000000 - now"
  have left: "0 \<le> ?left" using assms(2) seconds_old_bounds(1) [of now r] by linarith
  then show alive: "\<not> IsExpired now r (st p)" by (simp add: IsExpired_iff)
  have "?left div 1000000000 = uint (rr_Ttl (st p)) - seconds_old r now"
    unfolding seconds_old_def by linarith
  with updateTtl_value(1,2) [of "\<lambda>_. now" r st p oob] alive left assms(1)
  show "uint (rr_Ttl (updateTtl oob (\<lambda>_. now) r p st p)) - (uint (rr_Ttl (st p)) - seconds_old r now) \<in> {0, 1}"
    by auto
qed

text \<open>A record passes if its TTL is at least twice the age.\<close>

lemma Get_loop_first_half:
  assumes "resp_CreationTime r \<le> now" and "distinct ps"
    and "\<And>p. p \<in> set ps \<Longrightarrow> 2 * seconds_old r now \<le> uint (rr_Ttl (st p))"
  shows "\<not> snd (Get_loop oob (\<lambda>_. now) r ps st) \<and>
    (\<forall>p\<in>set ps. uint (rr_Ttl (fst (Get_loop oob (\<lambda>_. now) r ps st) p)) - (uint (rr_Ttl (st p)) - seconds_old r now) \<in> {0, 1})"
  using assms(2,3)
proof (induction ps arbitrary: st)
  case Nil
  then show ?case by simp
next
  case (Cons p ps)
  let ?st1 = "updateTtl oob (\<lambda>_. now) r p st"
  have age: "0 \<le> seconds_old r now" by (rule seconds_old_nonneg [OF assms(1)])
  have p: "2 * seconds_old r now \<le> uint (rr_Ttl (st p))" using Cons.prems(2) by simp
  then have "seconds_old r now \<le> uint (rr_Ttl (st p))" using age by linarith
  note new = updateTtl_ages(2) [where st = st and p = p and oob = oob, OF assms(1) this]
  then have "seconds_old r now \<le> uint (rr_Ttl (?st1 p))" using p by auto
  then have alive1: "\<not> IsExpired now r (?st1 p)"
    using seconds_old_bounds(1) [of now r] by (simp add: IsExpired_iff)
  have same: "?st1 q = st q" if "q \<in> set ps" for q
    using that Cons.prems(1) by (intro updateTtl_other) auto
  have IH: "\<not> snd (Get_loop oob (\<lambda>_. now) r ps ?st1) \<and>
      (\<forall>q\<in>set ps. uint (rr_Ttl (fst (Get_loop oob (\<lambda>_. now) r ps ?st1) q)) - (uint (rr_Ttl (?st1 q)) - seconds_old r now) \<in> {0, 1})"
    by (rule Cons.IH) (use Cons.prems same in auto)
  have "fst (Get_loop oob (\<lambda>_. now) r ps ?st1) p = ?st1 p"
    using Cons.prems(1) by (simp add: Get_loop_other)
  with IH alive1 new same show ?case by (simp add: Let_def)
qed

lemma Get_loop_newborn: "Get_loop oob (\<lambda>_. resp_CreationTime r) r ps st = (st, False)"
proof (induction ps)
  case Nil
  then show ?case by simp
next
  case (Cons p ps)
  have T: "0 \<le> uint (rr_Ttl (st p))" by simp
  then have alive: "\<not> IsExpired (resp_CreationTime r) r (st p)" by (simp add: IsExpired_iff)
  have "uint (rr_Ttl (updateTtl oob (\<lambda>_. resp_CreationTime r) r p st p)) = uint (rr_Ttl (st p))"
    using updateTtl_value(4) [of "\<lambda>_. resp_CreationTime r" r st p oob] alive by simp
  then have "updateTtl oob (\<lambda>_. resp_CreationTime r) r p st p = st p"
    by (intro rr.equality) (simp_all add: word_uint_eq_iff)
  then have "updateTtl oob (\<lambda>_. resp_CreationTime r) r p st = st"
    by (intro ext) (metis updateTtl_other)
  with alive Cons.IH show ?case by simp
qed

section \<open>Properties of lookups\<close>

lemma Get_cases:
  obtains (miss) "fmlookup (rc_cache rc) (cache_key n q) = None"
      "RecordCache_Get oob clk rc n q st = ((zero_Response, False), rc, st)"
  | (mismatch) r where "fmlookup (rc_cache rc) (cache_key n q) = Some r" "resp_Qtype r \<noteq> q"
      "RecordCache_Get oob clk rc n q st = ((zero_Response, False), rc, st)"
  | (expired) r st' where "fmlookup (rc_cache rc) (cache_key n q) = Some r" "resp_Qtype r = q"
      "Get_loop oob clk r (m_Answer (resp_Entry r)) st = (st', True)"
      "RecordCache_Get oob clk rc n q st = ((zero_Response, False), RecordCache_Evict rc r, st')"
  | (hit) r st' where "fmlookup (rc_cache rc) (cache_key n q) = Some r" "resp_Qtype r = q"
      "Get_loop oob clk r (m_Answer (resp_Entry r)) st = (st', False)"
      "RecordCache_Get oob clk rc n q st = ((r, True), rc, st')"
proof (cases "fmlookup (rc_cache rc) (cache_key n q)")
  case None
  then show ?thesis
    by (intro that(1)) (simp_all add: RecordCache_Get_def FormatKey_def zero_Response_def)
next
  case (Some r)
  obtain st' b where l: "Get_loop oob clk r (m_Answer (resp_Entry r)) st = (st', b)" by force
  show ?thesis
  proof (cases "resp_Qtype r = q")
    case False
    with Some show ?thesis
      by (intro that(2)) (simp_all add: RecordCache_Get_def FormatKey_def zero_Response_def)
  next
    case True
    with Some l show ?thesis
      by (cases b; intro that(3,4))
        (simp_all add: RecordCache_Get_def FormatKey_def zero_Response_def)
  qed
qed


lemma lookup_own:
  "fmlookup (rc_cache (RecordCache_Add rc r)) (cache_key (resp_Name r) (resp_Qtype r)) = Some r"
  by (simp add: FormatKey_def)

lemma Get_newborn:
  assumes "fmlookup (rc_cache rc) (cache_key n q) = Some r" and "resp_Qtype r = q"
    and "now = resp_CreationTime r"
  shows "RecordCache_Get oob (\<lambda>_. now) rc n q st = ((r, True), rc, st)"
  by (cases rule: Get_cases [where n = n and q = q and st = st and oob = oob and rc = rc
        and clk = "\<lambda>_. now"])
    (use assms Get_loop_newborn [of oob r] in simp_all)

text \<open>
  A response that was just stored is found again, with every TTL as it was stored.
\<close>

lemma Get_after_Add:
  "RecordCache_Get oob (\<lambda>_. resp_CreationTime r) (RecordCache_Add rc r) (resp_Name r) (resp_Qtype r) st
     = ((r, True), RecordCache_Add rc r, st)"
  by (rule Get_newborn [OF lookup_own]) simp_all

text \<open>
  A hit returns the stored response, changes nothing but the TTLs of its records, and every
  record of the answer was still alive, with the TTL it is served with, at the clock reading of its
  last check.
\<close>

lemma Get_hit_alive:
  assumes "RecordCache_Get oob clk rc n q st = ((r, True), rc', st')"
    and "distinct (m_Answer (resp_Entry r))"
  shows "fmlookup (rc_cache rc) (cache_key n q) = Some r \<and> resp_Qtype r = q \<and> rc' = rc \<and>
    (\<forall>i<length (m_Answer (resp_Entry r)).
       \<not> IsExpired (clk (3 * i + 2)) r (st' (m_Answer (resp_Entry r) ! i))) \<and>
    (\<forall>p. p \<notin> set (m_Answer (resp_Entry r)) \<longrightarrow> st' p = st p)"
proof (cases rule: Get_cases [where n = n and q = q and st = st and oob = oob and rc = rc and clk = clk])
  case (hit r0 st0)
  with assms(1) have eq: "r0 = r" "rc' = rc" "st0 = st'" by simp_all
  have "st' p = st p" if "p \<notin> set (m_Answer (resp_Entry r))" for p
    using Get_loop_other [OF that, of oob clk r st] hit(3) by (simp add: eq)
  with hit eq assms(2) show ?thesis by (auto dest: Get_loop_hit)
qed (use assms(1) in simp_all)

text \<open>
  The qtype comparison after the map lookup never fires: in a cache whose entries are stored
  under their own key, what a lookup finds has the name and the type that were asked for.
\<close>

lemma Get_no_mismatch:
  assumes "cache_keyed rc" and "fmlookup (rc_cache rc) (cache_key n q) = Some r"
  shows "resp_Name r = n \<and> resp_Qtype r = q"
  using cache_keyedD [OF assms] by (simp add: FormatKey_def word_uint_eq_iff)

text \<open>
  C18. From half of its lifetime on a response is refused and evicted, although none of its records
  need have expired: \<open>updateTtl\<close> replaces the TTL by the time that is left but keeps the creation
  time, and the check that follows adds the two.
\<close>

theorem Get_refuses_second_half:
  assumes "fmlookup (rc_cache rc) (cache_key n q) = Some r" and "resp_Qtype r = q"
    and "p \<in> set (m_Answer (resp_Entry r))" and "resp_CreationTime r \<le> now"
    and "(uint (rr_Ttl (st p)) + 1) * 1000000000 < 2 * (now - resp_CreationTime r)"
  shows "\<exists>st'. RecordCache_Get oob (\<lambda>_. now) rc n q st
           = ((zero_Response, False), RecordCache_Evict rc r, st')"
proof (cases rule: Get_cases [where n = n and q = q and st = st and oob = oob and rc = rc
      and clk = "\<lambda>_. now"])
  case (hit r0 st0)
  then show ?thesis
    using Get_loop_second_half [where st = st and oob = oob, OF assms(4,3,5)] assms(1) by simp
qed (use assms in simp_all)

section \<open>Sequences of lookups\<close>

text \<open>
  Lookups at the times \<open>nows\<close>, one after the other, find a response as long as each TTL covers the ages of
  all lookups so far and once more the age of the last; after them each TTL is what it was less all the
  ages, up to one second of rounding for each lookup.
\<close>

definition served_for :: "Response \<Rightarrow> rr_store \<Rightarrow> time list \<Rightarrow> bool" where
  "served_for r st nows \<longleftrightarrow> (\<forall>now\<in>set nows. resp_CreationTime r \<le> now) \<and>
     (\<forall>p\<in>set (m_Answer (resp_Entry r)). \<forall>i<length nows.
        (\<Sum>now\<leftarrow>take (Suc i) nows. seconds_old r now) + seconds_old r (nows ! i) \<le> uint (rr_Ttl (st p)))"

definition worn :: "Response \<Rightarrow> rr_store \<Rightarrow> time list \<Rightarrow> rr_store \<Rightarrow> bool" where
  "worn r st nows st' \<longleftrightarrow> (\<forall>p\<in>set (m_Answer (resp_Entry r)).
     let ttl = uint (rr_Ttl (st p)) - (\<Sum>now\<leftarrow>nows. seconds_old r now)
     in ttl \<le> uint (rr_Ttl (st' p)) \<and> uint (rr_Ttl (st' p)) \<le> ttl + int (length nows))"

lemma worn_Nil [simp]: "worn r st [] st"
  by (simp add: worn_def)

lemma worn_Cons:
  "worn r st [now] st1 \<Longrightarrow> worn r st1 nows st2 \<Longrightarrow> worn r st (now # nows) st2"
  by (fastforce simp: worn_def Let_def)

lemma served_for_Cons:
  assumes "served_for r st (now # nows)"
  shows "resp_CreationTime r \<le> now"
    and "p \<in> set (m_Answer (resp_Entry r)) \<Longrightarrow> 2 * seconds_old r now \<le> uint (rr_Ttl (st p))"
    and "worn r st [now] st1 \<Longrightarrow> served_for r st1 nows"
proof -
  show "resp_CreationTime r \<le> now" using assms by (simp add: served_for_def)
  show "2 * seconds_old r now \<le> uint (rr_Ttl (st p))" if "p \<in> set (m_Answer (resp_Entry r))"
    using assms that unfolding served_for_def by force
  show "served_for r st1 nows" if w: "worn r st [now] st1"
    unfolding served_for_def
  proof (intro conjI ballI allI impI)
    fix p i assume p: "p \<in> set (m_Answer (resp_Entry r))" and i: "i < length nows"
    have "(\<Sum>now\<leftarrow>take (Suc (Suc i)) (now # nows). seconds_old r now) + seconds_old r ((now # nows) ! Suc i) \<le> uint (rr_Ttl (st p))"
      using assms p i unfolding served_for_def by fastforce
    moreover have "uint (rr_Ttl (st p)) - seconds_old r now \<le> uint (rr_Ttl (st1 p))"
      using w p by (simp add: worn_def Let_def)
    ultimately show "(\<Sum>now\<leftarrow>take (Suc i) nows. seconds_old r now) + seconds_old r (nows ! i) \<le> uint (rr_Ttl (st1 p))"
      by simp
  qed (use assms in \<open>simp add: served_for_def\<close>)
qed

lemma Get_served:
  assumes "fmlookup (rc_cache rc) (cache_key n q) = Some r" and "resp_Qtype r = q"
    and "distinct (m_Answer (resp_Entry r))" and "served_for r st (now # nows)"
  obtains st' where "RecordCache_Get oob (\<lambda>_. now) rc n q st = ((r, True), rc, st')"
    "worn r st [now] st'" "served_for r st' nows"
proof -
  note loop = Get_loop_first_half [where st = st and oob = oob, OF served_for_Cons(1) [OF assms(4)] assms(3)
      served_for_Cons(2) [OF assms(4)]]
  show thesis
  proof (cases rule: Get_cases [where n = n and q = q and st = st and oob = oob and rc = rc
        and clk = "\<lambda>_. now"])
    case (hit r0 st0)
    with assms(1) loop have "worn r st [now] st0" by (auto simp: worn_def Let_def)
    with hit assms(1) show thesis by (intro that [of st0] served_for_Cons(3) [OF assms(4)]) auto
  qed (use assms loop in simp_all)
qed

text \<open>When the TTLs are worn, a lookup is refused early.\<close>

lemma Get_worn_out:
  assumes "fmlookup (rc_cache rc) (cache_key n q) = Some r" and "resp_Qtype r = q"
    and "worn r st nows st'" and "p \<in> set (m_Answer (resp_Entry r))" and "resp_CreationTime r \<le> now"
    and "(uint (rr_Ttl (st p)) - (\<Sum>now\<leftarrow>nows. seconds_old r now) + int (length nows) + 1) * 1000000000
      < 2 * (now - resp_CreationTime r)"
  obtains st'' where "RecordCache_Get oob (\<lambda>_. now) rc n q st' = ((zero_Response, False), RecordCache_Evict rc r, st'')"
proof -
  have "uint (rr_Ttl (st' p)) \<le> uint (rr_Ttl (st p)) - (\<Sum>now\<leftarrow>nows. seconds_old r now) + int (length nows)"
    using assms(3,4) by (simp add: worn_def Let_def)
  then have "uint (rr_Ttl (st' p)) + 1
      \<le> uint (rr_Ttl (st p)) - (\<Sum>now\<leftarrow>nows. seconds_old r now) + int (length nows) + 1" by simp
  then have "(uint (rr_Ttl (st' p)) + 1) * 1000000000
      \<le> (uint (rr_Ttl (st p)) - (\<Sum>now\<leftarrow>nows. seconds_old r now) + int (length nows) + 1) * 1000000000"
    by (rule mult_right_mono) simp
  then have "(uint (rr_Ttl (st' p)) + 1) * 1000000000 < 2 * (now - resp_CreationTime r)"
    using assms(6) by (rule le_less_trans)
  from Get_loop_second_half [where st = st' and oob = oob, OF assms(5,4) this]
  show thesis
    by (cases rule: Get_cases [where n = n and q = q and st = st' and oob = oob and rc = rc and clk = "\<lambda>_. now"])
      (use assms(1,2) that in simp_all)
qed

fun lookups ::
  "(rat \<Rightarrow> 32 word) \<Rightarrow> time list \<Rightarrow> RecordCache \<Rightarrow> string \<Rightarrow> 16 word \<Rightarrow> rr_store
     \<Rightarrow> (Response \<times> bool) list \<times> RecordCache \<times> rr_store" where
  "lookups oob [] rc n q st = ([], rc, st)"
| "lookups oob (now # nows) rc n q st =
     (case RecordCache_Get oob (\<lambda>_. now) rc n q st of
        (res, rc1, st1) \<Rightarrow>
          (case lookups oob nows rc1 n q st1 of (ress, rc2, st2) \<Rightarrow> (res # ress, rc2, st2)))"

lemma lookups_served:
  assumes "fmlookup (rc_cache rc) (cache_key n q) = Some r" and "resp_Qtype r = q"
    and "distinct (m_Answer (resp_Entry r))" and "served_for r st nows"
  shows "\<exists>st'. lookups oob nows rc n q st = (replicate (length nows) (r, True), rc, st') \<and> worn r st nows st'"
  using assms(4)
proof (induction nows arbitrary: st)
  case (Cons now nows)
  obtain st1 where st1: "RecordCache_Get oob (\<lambda>_. now) rc n q st = ((r, True), rc, st1)"
      "worn r st [now] st1" "served_for r st1 nows"
    by (rule Get_served [OF assms(1-3) Cons.prems])
  obtain st2 where "lookups oob nows rc n q st1 = (replicate (length nows) (r, True), rc, st2)" "worn r st1 nows st2"
    using Cons.IH [OF st1(3)] by blast
  with st1(1) worn_Cons [OF st1(2)] show ?case by auto
qed simp


section \<open>Lookups that overlap\<close>

lemma others_write_nobody [simp]: "others_write (\<lambda>_. None) st = st"
  by (simp add: others_write_def)

lemma Get_loop_alone: "Get_loop_shared oob clk nobody r ps st = Get_loop oob clk r ps st"
  by (induction ps arbitrary: clk st) (simp_all add: updateTtl_def Let_def)

text \<open>If nobody interferes, this is the lookup.\<close>

lemma Get_alone: "RecordCache_Get_shared oob clk nobody rc n q st = RecordCache_Get oob clk rc n q st"
  by (simp add: RecordCache_Get_shared_def RecordCache_Get_def Get_loop_alone cong: option.case_cong if_cong)

lemma shared_cases:
  obtains (same) "fst (snd (RecordCache_Get_shared oob clk oth rc n q st)) = rc"
  | (evict) r where "fmlookup (rc_cache rc) (cache_key n q) = Some r"
      "fst (snd (RecordCache_Get_shared oob clk oth rc n q st)) = RecordCache_Evict rc r"
      "m_Answer (resp_Entry r) \<noteq> []"
proof (cases "fmlookup (rc_cache rc) (cache_key n q)")
  case None
  then show ?thesis
    by (intro that(1)) (simp add: RecordCache_Get_shared_def FormatKey_def zero_Response_def)
next
  case (Some r)
  obtain st' b where l: "Get_loop_shared oob clk oth r (m_Answer (resp_Entry r)) st = (st', b)" by force
  have *: "RecordCache_Get_shared oob clk oth rc n q st =
      (if resp_Qtype r \<noteq> q then ((zero_Response, False), rc, st)
       else if b then ((zero_Response, False), RecordCache_Evict rc r, st') else ((r, True), rc, st'))"
    using Some l by (cases b) (simp_all add: RecordCache_Get_shared_def FormatKey_def zero_Response_def)
  show ?thesis
  proof (cases "resp_Qtype r = q \<and> b")
    case True
    with l have "m_Answer (resp_Entry r) \<noteq> []" by auto
    with True Some * show ?thesis by (intro that(2)) simp_all
  next
    case False
    with * show ?thesis by (intro that(1)) auto
  qed
qed

lemma shared_fields [simp]:
  "rc_cache (fst (snd (RecordCache_Get_shared oob clk oth rc n q st))) = rc_cache rc"
  "rc_TrashMan (fst (snd (RecordCache_Get_shared oob clk oth rc n q st))) = rc_TrashMan rc"
  "rc_Janitor (fst (snd (RecordCache_Get_shared oob clk oth rc n q st))) = rc_Janitor rc"
  by (cases rule: shared_cases [of oob clk oth rc n q st], simp_all)+

text \<open>
  A response without answer records, which is what an upstream sends with NXDOMAIN or SERVFAIL,
  never expires: at every later time it is served again.
\<close>

lemma Get_serves_empty_answer:
  assumes "fmlookup (rc_cache rc) (cache_key n q) = Some r" and "resp_Qtype r = q"
    and "m_Answer (resp_Entry r) = []"
  shows "RecordCache_Get oob clk rc n q st = ((r, True), rc, st)"
  by (cases rule: Get_cases [where n = n and q = q and st = st and oob = oob and rc = rc and clk = clk])
    (use assms in simp_all)

text \<open>Of the records, lookups change nothing but the TTL.\<close>

lemma Get_loop_keeps:
  "rr_Data (fst (Get_loop oob clk r ps st) x) = rr_Data (st x) \<and>
   rr_Name (fst (Get_loop oob clk r ps st) x) = rr_Name (st x) \<and>
   rr_Rrtype (fst (Get_loop oob clk r ps st) x) = rr_Rrtype (st x)"
  by (induction ps arbitrary: clk st) (simp_all add: Let_def)

lemma Get_keeps:
  assumes "RecordCache_Get oob clk rc n q st = (res, rc', st')"
  shows "rr_Data (st' x) = rr_Data (st x) \<and> rr_Name (st' x) = rr_Name (st x) \<and> rr_Rrtype (st' x) = rr_Rrtype (st x)"
proof (cases rule: Get_cases [where n = n and q = q and st = st and oob = oob and rc = rc and clk = clk])
  case (expired r st0)
  with assms Get_loop_keeps [of oob clk r "m_Answer (resp_Entry r)" st x] show ?thesis by simp
next
  case (hit r st0)
  with assms Get_loop_keeps [of oob clk r "m_Answer (resp_Entry r)" st x] show ?thesis by simp
qed (use assms in simp_all)

text \<open>Lookups change neither the map nor the trashman.\<close>

lemma Get_fields [simp]:
  "rc_cache (fst (snd (RecordCache_Get oob clk rc n q st))) = rc_cache rc"
  "rc_TrashMan (fst (snd (RecordCache_Get oob clk rc n q st))) = rc_TrashMan rc"
  "rc_Janitor (fst (snd (RecordCache_Get oob clk rc n q st))) = rc_Janitor rc"
  by (cases rule: Get_cases [where n = n and q = q and st = st and oob = oob and rc = rc and clk = clk],
      simp_all)+

section \<open>Cleaning\<close>

definition has_expired :: "time \<Rightarrow> rr_store \<Rightarrow> Response \<Rightarrow> bool" where
  "has_expired now st r \<longleftrightarrow> (\<exists>p\<in>set (m_Answer (resp_Entry r)). IsExpired now r (st p))"

definition expired_entries ::
  "time \<Rightarrow> rr_store \<Rightarrow> (string, Response) fmap \<Rightarrow> string list \<Rightarrow> Response list" where
  "expired_entries now st m order = filter (has_expired now st) (List.map_filter (fmlookup m) order)"

lemma Clean_entry_const:
  "Clean_entry (\<lambda>_. now) st r ps \<longleftrightarrow> (\<exists>p\<in>set ps. IsExpired now r (st p))"
  by (induction ps) auto

lemma Clean_loop_const:
  "Clean_loop (\<lambda>_. now) st order n rc =
     (n + length (expired_entries now st (rc_cache rc) order),
      rc\<lparr>rc_evicting := rc_evicting rc @ expired_entries now st (rc_cache rc) order\<rparr>)"
proof (induction order arbitrary: n rc)
  case Nil
  then show ?case by (simp add: expired_entries_def map_filter_simps)
next
  case (Cons key order)
  show ?case
  proof (cases "fmlookup (rc_cache rc) key")
    case None
    with Cons show ?thesis by (simp add: expired_entries_def map_filter_simps)
  next
    case (Some r)
    have "Clean_entry (\<lambda>_. now) st r (m_Answer (resp_Entry r)) \<longleftrightarrow> has_expired now st r"
      by (simp add: Clean_entry_const has_expired_def)
    with Some Cons [of "n + 1" "RecordCache_Evict rc r"] Cons [of n rc] show ?thesis
      by (simp add: expired_entries_def map_filter_simps Let_def RecordCache_Evict_def)
  qed
qed

lemma Clean_loop_fields:
  "Clean_loop clk st order n rc = (n', rc') \<Longrightarrow>
     rc_cache rc' = rc_cache rc \<and> rc_TrashMan rc' = rc_TrashMan rc \<and> rc_Janitor rc' = rc_Janitor rc"
  by (induction clk st order n rc rule: Clean_loop.induct)
    (auto simp: Let_def split: option.splits if_splits)

lemma Clean_fields:
  "RecordCache_Clean order clk st rc = (n, rc') \<Longrightarrow>
     rc_cache rc' = rc_cache rc \<and> rc_TrashMan rc' = rc_TrashMan rc \<and> rc_Janitor rc' = rc_Janitor rc"
  unfolding RecordCache_Clean_def by (rule Clean_loop_fields)

text \<open>
  \<open>Clean\<close> deletes nothing itself. It hands every entry with an expired record to the trashman,
  once each and no other entry, and returns their number, in whatever order the map is visited.
\<close>

lemma Clean_evicts_expired:
  assumes "enumerates order (rc_cache rc)" and "RecordCache_Clean order (\<lambda>_. now) st rc = (n, rc')"
  shows "\<exists>ev. rc' = rc\<lparr>rc_evicting := rc_evicting rc @ ev\<rparr> \<and> n = length ev \<and>
    set ev = {r. (\<exists>k. fmlookup (rc_cache rc) k = Some r) \<and> has_expired now st r} \<and>
    length ev \<le> RecordCache_Size rc"
proof -
  let ?ev = "expired_entries now st (rc_cache rc) order"
  have rc': "rc' = rc\<lparr>rc_evicting := rc_evicting rc @ ?ev\<rparr>" and n: "n = length ?ev"
    using assms(2) by (simp_all add: RecordCache_Clean_def Clean_loop_const)
  have dom: "k \<in> set order" if "fmlookup (rc_cache rc) k = Some r" for k r
    using that assms(1) by (simp add: enumerates_def fmdomI)
  have "set ?ev = {r. (\<exists>k. fmlookup (rc_cache rc) k = Some r) \<and> has_expired now st r}"
    using dom by (auto simp: expired_entries_def set_map_filter)
  moreover have "length ?ev \<le> length order"
    unfolding expired_entries_def by (rule le_trans [OF length_filter_le length_map_filter_le])
  ultimately show ?thesis
    using rc' n enumerates_length [OF assms(1)] by (auto simp: RecordCache_Size_def)
qed


end
