(* ===== verification/CacheContract.thy ===== *)
theory CacheContract
  imports RecordCache
begin

text \<open>
  The contract of the \<open>Cache\<close> interface of \<open>src/cache.go\<close> for its clients (the trashman and the
  servers): \<open>Add\<close> and \<open>Remove\<close> act on the entry of one key and leave the others alone.
  \<open>RecordCache\<close> fulfils it.
\<close>

text \<open>A sequence of stores (\<open>Inl\<close>) and removals (\<open>Inr\<close>), and its last operation on a key.\<close>

definition run_ops :: "('c \<Rightarrow> 'r \<Rightarrow> 'c) \<Rightarrow> ('c \<Rightarrow> 'r \<Rightarrow> 'c) \<Rightarrow> 'c \<Rightarrow> ('r + 'r) list \<Rightarrow> 'c" where
  "run_ops add remove = foldl (\<lambda>c opn. case opn of Inl r \<Rightarrow> add c r | Inr r \<Rightarrow> remove c r)"

definition last_on :: "('r \<Rightarrow> 'k) \<Rightarrow> 'k \<Rightarrow> ('r + 'r) list \<Rightarrow> ('r + 'r) option" where
  "last_on key k ops = List.find (\<lambda>opn. case_sum key key opn = k) (rev ops)"

locale response_cache =
  fixes add :: "'c \<Rightarrow> 'r \<Rightarrow> 'c"
    and remove :: "'c \<Rightarrow> 'r \<Rightarrow> 'c"
    and find_entry :: "'c \<Rightarrow> 'k \<Rightarrow> 'r option"
    and key :: "'r \<Rightarrow> 'k"
    and inv :: "'c \<Rightarrow> bool"
  assumes find_add: "find_entry (add c r) k = (if k = key r then Some r else find_entry c k)"
    and find_remove: "find_entry (remove c r) k = (if k = key r then None else find_entry c k)"
    and inv_add: "inv c \<Longrightarrow> inv (add c r)"
    and inv_remove: "inv c \<Longrightarrow> inv (remove c r)"
    and inv_key: "inv c \<Longrightarrow> find_entry c k = Some r \<Longrightarrow> key r = k"
begin

abbreviation run :: "'c \<Rightarrow> ('r + 'r) list \<Rightarrow> 'c" where
  "run \<equiv> run_ops add remove"

lemma run_simps [simp]: "run c [] = c" "run c (ops @ [Inl r]) = add (run c ops) r"
  "run c (ops @ [Inr r]) = remove (run c ops) r"
  by (simp_all add: run_ops_def)

lemma inv_run: "inv c \<Longrightarrow> inv (run c ops)"
proof (induction ops rule: rev_induct)
  case (snoc opn ops)
  then show ?case by (cases opn) (simp_all add: inv_add inv_remove)
qed simp

lemma find_run:
  "find_entry (run c ops) k =
     (case last_on key k ops of None \<Rightarrow> find_entry c k | Some (Inl r) \<Rightarrow> Some r | Some (Inr r) \<Rightarrow> None)"
proof (induction ops rule: rev_induct)
  case Nil
  show ?case by (simp add: last_on_def)
next
  case (snoc opn ops)
  then show ?case
    by (cases opn) (auto simp: last_on_def find_add find_remove)
qed

lemma find_remove_all:
  "find_entry (foldl remove c rs) k = (if k \<in> key ` set rs then None else find_entry c k)"
  by (induction rs rule: rev_induct) (auto simp: find_remove)

lemma inv_remove_all: "inv c \<Longrightarrow> inv (foldl remove c rs)"
  by (induction rs rule: rev_induct) (simp_all add: inv_remove)

end

text \<open>The code keeps responses under formatted keys; for a client they are kept under name and type.\<close>

abbreviation name_type :: "Response \<Rightarrow> string \<times> 16 word" where
  "name_type r \<equiv> (resp_Name r, resp_Qtype r)"

definition entry_for :: "RecordCache \<Rightarrow> string \<times> 16 word \<Rightarrow> Response option" where
  "entry_for rc = (\<lambda>(n, q). fmlookup (rc_cache rc) (cache_key n q))"

interpretation rcache: response_cache RecordCache_Add RecordCache_Remove entry_for name_type cache_keyed
proof
  show "entry_for (RecordCache_Add c r) k = (if k = name_type r then Some r else entry_for c k)" for c r k
    by (cases k) (auto simp: entry_for_def FormatKey_def word_uint_eq_iff)
  show "entry_for (RecordCache_Remove c r) k = (if k = name_type r then None else entry_for c k)" for c r k
    by (cases k) (auto simp: entry_for_def RecordCache_Remove_def FormatKey_def word_uint_eq_iff)
  show "name_type r = k" if "cache_keyed c" and "entry_for c k = Some r" for c k r
    using Get_no_mismatch [OF that(1)] that(2) by (cases k) (simp add: entry_for_def)
qed (auto simp: RecordCache_Remove_def)

lemma RemoveSlice_fold: "RecordCache_RemoveSlice rc rs = foldl RecordCache_Remove rc rs"
  by (induction rs arbitrary: rc) (simp_all add: RecordCache_Remove_def)

text \<open>
  C37. After any sequence of \<open>Add\<close> and \<open>Remove\<close>, a lookup of a name and a type sees only the last of them
  for this name and this type: a response that was added and not removed since is returned, with its
  TTLs, at the time of its creation; and otherwise the lookup misses at any time and changes nothing. So
  answers for different types of a name, or for names that contain the separator of the keys, never
  get in each other's way.
\<close>

theorem Get_sees_last_write:
  "let c = run_ops RecordCache_Add RecordCache_Remove NewCache ops
   in case last_on name_type (n, q) ops of
        Some (Inl r) \<Rightarrow> RecordCache_Get oob (\<lambda>_. resp_CreationTime r) c n q st = ((r, True), c, st)
      | _ \<Rightarrow> RecordCache_Get oob clk c n q st = ((zero_Response, False), c, st)"
proof -
  define c where "c = run_ops RecordCache_Add RecordCache_Remove NewCache ops"
  have "entry_for NewCache (n, q) = None" by (simp add: NewCache_def entry_for_def)
  then have entry: "entry_for c (n, q) = (case last_on name_type (n, q) ops of Some (Inl r) \<Rightarrow> Some r | _ \<Rightarrow> None)"
    by (simp add: rcache.find_run c_def split: option.splits sum.splits)
  have keyed: "cache_keyed c" unfolding c_def by (rule rcache.inv_run) simp
  have miss: "RecordCache_Get oob clk c n q st = ((zero_Response, False), c, st)" if "entry_for c (n, q) = None" for clk
    using that by (cases rule: Get_cases [where n = n and q = q and st = st and oob = oob and rc = c and clk = clk])
      (simp_all add: entry_for_def)
  have hit: "RecordCache_Get oob (\<lambda>_. resp_CreationTime r) c n q st = ((r, True), c, st)"
    if "entry_for c (n, q) = Some r" for r
    using rcache.inv_key [OF keyed that] that by (intro Get_newborn) (simp_all add: entry_for_def)
  show ?thesis
    using entry hit miss unfolding c_def [symmetric] Let_def by (auto split: option.splits sum.splits)
qed

end
