(* ===== verification/CleaningCrew.thy ===== *)
theory CleaningCrew
  imports CacheContract Config
begin

text \<open>
  The cleaning crew of \<open>src/cache.go\<close>: the trashman, which buffers evicted responses and removes
  them in batches, the janitor, and the cache, the trashman and the goroutines of \<open>Evict\<close> running
  together. One round of the trashman's \<open>select\<close> loop is one step: between the receive and the
  removal it touches only its own state, so nothing another goroutine does in between can be told
  apart from doing it before.
\<close>

section \<open>The trashman\<close>

definition ResponsesQueued :: "trashMan \<Rightarrow> nat" where
  "ResponsesQueued t = fm_size (tm_responses t)"

definition AddResponse :: "trashMan \<Rightarrow> Response \<Rightarrow> trashMan" where
  "AddResponse t r =
     (case fmlookup (tm_responses t) (FormatKey r) of
        None \<Rightarrow> t\<lparr>tm_responses := fmupd (FormatKey r) r (tm_responses t)\<rparr>
      | Some _ \<Rightarrow> t)"

fun Flush_loop ::
  "string list \<Rightarrow> (string, Response) fmap \<Rightarrow> Response list \<Rightarrow> (string, Response) fmap \<times> Response list"
where
  "Flush_loop [] m flushBuffer = (m, flushBuffer)"
| "Flush_loop (k # order) m flushBuffer =
     (case fmlookup m k of
        None \<Rightarrow> Flush_loop order m flushBuffer
      | Some v \<Rightarrow> Flush_loop order (fmdrop k m) (flushBuffer @ [v]))"

definition FlushResponses ::
  "string list \<Rightarrow> trashMan \<Rightarrow> RecordCache \<Rightarrow> trashMan \<times> RecordCache" where
  "FlushResponses order t rc =
     (case Flush_loop order (tm_responses t) [] of
        (m, flushBuffer) \<Rightarrow> (t\<lparr>tm_responses := m\<rparr>, RecordCache_RemoveSlice rc flushBuffer))"

text \<open>The three arms of the \<open>select\<close> loop.\<close>

definition trashMan_receive ::
  "string list \<Rightarrow> trashMan \<Rightarrow> RecordCache \<Rightarrow> Response \<Rightarrow> trashMan \<times> RecordCache" where
  "trashMan_receive order t rc response =
     (let t1 = AddResponse t response
      in if tm_evictionBatchSize t1 \<le> int (ResponsesQueued t1) \<and> \<not> tm_paused t1
         then FlushResponses order t1 rc else (t1, rc))"

definition trashMan_pause ::
  "string list \<Rightarrow> trashMan \<Rightarrow> RecordCache \<Rightarrow> bool \<Rightarrow> trashMan \<times> RecordCache" where
  "trashMan_pause order t rc p =
     (let t1 = t\<lparr>tm_paused := p\<rparr>
      in if \<not> p \<and> tm_evictionBatchSize t1 \<le> int (ResponsesQueued t1)
         then FlushResponses order t1 rc else (t1, rc))"

definition trashMan_cancel :: "trashMan \<Rightarrow> trashMan" where
  "trashMan_cancel t = t\<lparr>tm_running := False\<rparr>"

definition trashMan_Start :: "trashMan \<Rightarrow> trashMan" where
  "trashMan_Start t = t\<lparr>tm_running := True\<rparr>"

section \<open>Starting and stopping the crew\<close>

text \<open>
  The goroutine that \<open>Start\<close> spawns makes a ticker before its loop, which panics unless the interval is
  positive: the product of a configured number and a millisecond may be negative, or wrap around.
\<close>

definition janitor_Start :: "Configuration \<Rightarrow> janitor \<Rightarrow> janitor" where
  "janitor_Start cfg j =
     (let interval = (if cfg_CleanInterval cfg = 0 then 1000 else cfg_CleanInterval cfg)
      in j\<lparr>j_running := True, j_interval := interval * Millisecond\<rparr>)"

definition NewTicker :: "janitor \<Rightarrow> duration outcome" where
  "NewTicker j = (if nanos (j_interval j) \<le> 0 then Panic NonPositiveInterval else Ok (j_interval j))"

definition StartCleaningCrew :: "Configuration \<Rightarrow> RecordCache \<Rightarrow> RecordCache" where
  "StartCleaningCrew cfg rc =
     (let j = (case rc_Janitor rc of
                 None \<Rightarrow> \<lparr>j_running = False, j_interval = 0\<rparr> | Some j \<Rightarrow> j);
          t = (case rc_TrashMan rc of
                 None \<Rightarrow> \<lparr>tm_responses = fmempty, tm_evictionBatchSize = cfg_EvictionBatchSize cfg,
                          tm_paused = False, tm_running = False\<rparr>
               | Some t \<Rightarrow> t)
      in rc\<lparr>rc_Janitor := Some (janitor_Start cfg j), rc_TrashMan := Some (trashMan_Start t)\<rparr>)"

definition janitor_Stop :: "janitor \<Rightarrow> janitor" where
  "janitor_Stop j = j\<lparr>j_running := False\<rparr>"

definition StopCleaningCrew :: "RecordCache \<Rightarrow> RecordCache outcome" where
  "StopCleaningCrew rc =
     (case rc_TrashMan rc of
        None \<Rightarrow> Panic NilDereference
      | Some t \<Rightarrow>
          (case rc_Janitor rc of
             None \<Rightarrow> Panic NilDereference
           | Some j \<Rightarrow> Ok (rc\<lparr>rc_TrashMan := Some (trashMan_cancel t),
                             rc_Janitor := Some (janitor_Stop j)\<rparr>)))"


section \<open>Flushing\<close>

lemma AddResponse_fields [simp]:
  "tm_evictionBatchSize (AddResponse t r) = tm_evictionBatchSize t"
  "tm_paused (AddResponse t r) = tm_paused t"
  "tm_running (AddResponse t r) = tm_running t"
  by (simp_all add: AddResponse_def split: option.splits)

lemma lookup_AddResponse [simp]:
  "fmlookup (tm_responses (AddResponse t r)) k =
     (if k = FormatKey r \<and> fmlookup (tm_responses t) k = None then Some r
      else fmlookup (tm_responses t) k)"
  by (auto simp: AddResponse_def split: option.splits)

lemma dom_AddResponse: "fmdom (tm_responses (AddResponse t r)) = finsert (FormatKey r) (fmdom (tm_responses t))"
  by (auto simp: AddResponse_def fmdomI split: option.splits)

lemma Flush_loop_eq:
  "distinct order \<Longrightarrow> Flush_loop order m buf =
     (fmdrop_set (set order) m, buf @ List.map_filter (fmlookup m) order)"
proof (induction order arbitrary: m buf)
  case Nil
  then show ?case by (simp add: map_filter_simps)
next
  case (Cons k order)
  have same: "List.map_filter (fmlookup (fmdrop k m)) order = List.map_filter (fmlookup m) order"
    using Cons.prems by (auto simp: List.map_filter_def intro!: map_cong filter_cong)
  show ?case
  proof (cases "fmlookup m k")
    case None
    then have "fmdrop_set (insert k (set order)) m = fmdrop_set (set order) m"
      by (intro fmap_ext) auto
    with None Cons show ?thesis by (simp add: map_filter_simps)
  next
    case (Some v)
    have "fmdrop_set (set order) (fmdrop k m) = fmdrop_set (insert k (set order)) m"
      by (intro fmap_ext) auto
    with Some Cons same show ?thesis by (simp add: map_filter_simps)
  qed
qed

definition tm_keyed :: "trashMan \<Rightarrow> bool" where
  "tm_keyed t \<longleftrightarrow> (\<forall>k r. fmlookup (tm_responses t) k = Some r \<longrightarrow> FormatKey r = k)"

lemma tm_keyed_AddResponse [intro]: "tm_keyed t \<Longrightarrow> tm_keyed (AddResponse t r)"
  by (auto simp: tm_keyed_def)

lemma Flush_spec:
  assumes "enumerates order (tm_responses t)"
  shows "fst (FlushResponses order t rc) = t\<lparr>tm_responses := fmempty\<rparr>"
    and "\<exists>rs. snd (FlushResponses order t rc) = RecordCache_RemoveSlice rc rs \<and>
           set rs = {r. \<exists>k. fmlookup (tm_responses t) k = Some r}"
proof -
  have d: "distinct order" and s: "set order = fset (fmdom (tm_responses t))"
    using assms by (simp_all add: enumerates_def)
  have "fmdrop_set (set order) (tm_responses t) = fmempty"
    by (intro fmap_ext) (simp add: s fmdom_notI flip: fmdom_notD)
  then show "fst (FlushResponses order t rc) = t\<lparr>tm_responses := fmempty\<rparr>"
    by (simp add: FlushResponses_def Flush_loop_eq [OF d])
  have "k \<in> set order" if "fmlookup (tm_responses t) k = Some r" for k r
    using that by (simp add: s fmdomI)
  then have "set (List.map_filter (fmlookup (tm_responses t)) order)
      = {r. \<exists>k. fmlookup (tm_responses t) k = Some r}"
    by (auto simp: set_map_filter)
  then show "\<exists>rs. snd (FlushResponses order t rc) = RecordCache_RemoveSlice rc rs \<and>
           set rs = {r. \<exists>k. fmlookup (tm_responses t) k = Some r}"
    by (auto simp: FlushResponses_def Flush_loop_eq [OF d])
qed

lemma Flush_lookup:
  assumes "enumerates order (tm_responses t)" and "tm_keyed t"
    and "FlushResponses order t rc = (t', rc')"
  shows "ResponsesQueued t' = 0 \<and> fmlookup (rc_cache rc') k =
    (if k |\<in>| fmdom (tm_responses t) then None else fmlookup (rc_cache rc) k)"
proof -
  obtain rs where rs: "rc' = RecordCache_RemoveSlice rc rs"
      "set rs = {r. \<exists>k. fmlookup (tm_responses t) k = Some r}"
    using Flush_spec(2) [OF assms(1), of rc] assms(3) by auto
  have "t' = t\<lparr>tm_responses := fmempty\<rparr>"
    using Flush_spec(1) [OF assms(1), of rc] assms(3) by simp
  moreover have "k \<in> FormatKey ` set rs \<longleftrightarrow> k |\<in>| fmdom (tm_responses t)"
    using assms(2) by (auto simp: rs(2) tm_keyed_def fmlookup_dom_iff image_iff)
  ultimately show ?thesis
    by (simp add: rs(1) lookup_RemoveSlice ResponsesQueued_def)
qed

section \<open>The crew at work\<close>

record crew =
  c_rc :: RecordCache
  c_store :: rr_store
  c_panic :: "panic_reason option"

text \<open>
  What clients do to the entry under a key. A new response comes with its own records, so storing it may
  give values to pointers no cached response uses.
\<close>

inductive client_step :: "string \<Rightarrow> crew \<Rightarrow> crew \<Rightarrow> bool" where
  client_add: "\<lbrakk>c_panic s = None;
     \<forall>k r0. fmlookup (rc_cache (c_rc s)) k = Some r0 \<longrightarrow>
       (\<forall>p\<in>set (m_Answer (resp_Entry r0)). st' p = c_store s p)\<rbrakk> \<Longrightarrow>
     client_step (FormatKey r) s (s\<lparr>c_rc := RecordCache_Add (c_rc s) r, c_store := st'\<rparr>)"
| client_remove: "c_panic s = None \<Longrightarrow>
     client_step (FormatKey r) s (s\<lparr>c_rc := RecordCache_Remove (c_rc s) r\<rparr>)"

text \<open>
  Lookups, the janitor, the eviction goroutines and the trashman with its control messages. Lookups
  overlap, so that between any two steps one that is still under way may write TTLs; which ones, is left
  open here. An eviction goroutine without a trashman calls a method of a nil interface, and the
  janitor's goroutine may fail to make its ticker; a panic takes the process down.
\<close>

inductive crew_work :: "(rat \<Rightarrow> 32 word) \<Rightarrow> crew \<Rightarrow> crew \<Rightarrow> bool" for oob where
  crew_get: "\<lbrakk>c_panic s = None; RecordCache_Get_shared oob clk oth (c_rc s) n q (c_store s) = (res, rc', st')\<rbrakk> \<Longrightarrow>
     crew_work oob s (s\<lparr>c_rc := rc', c_store := st'\<rparr>)"
| crew_under_way: "c_panic s = None \<Longrightarrow> crew_work oob s (s\<lparr>c_store := others_write f (c_store s)\<rparr>)"
| crew_clean: "\<lbrakk>c_panic s = None; rc_Janitor (c_rc s) = Some j; j_running j; NewTicker j = Ok d;
     enumerates order (rc_cache (c_rc s));
     RecordCache_Clean order clk (c_store s) (c_rc s) = (n, rc')\<rbrakk> \<Longrightarrow>
     crew_work oob s (s\<lparr>c_rc := rc'\<rparr>)"
| crew_ticker: "\<lbrakk>c_panic s = None; rc_Janitor (c_rc s) = Some j; j_running j; NewTicker j = Panic reason\<rbrakk> \<Longrightarrow>
     crew_work oob s (s\<lparr>c_panic := Some reason\<rparr>)"
| crew_evict: "\<lbrakk>c_panic s = None; rc_evicting (c_rc s) = xs @ r # ys;
     rc_TrashMan (c_rc s) = Some t; tm_running t;
     enumerates order (tm_responses (AddResponse t r));
     trashMan_receive order t (c_rc s) r = (t', rc')\<rbrakk> \<Longrightarrow>
     crew_work oob s (s\<lparr>c_rc := rc'\<lparr>rc_TrashMan := Some t', rc_evicting := xs @ ys\<rparr>\<rparr>)"
| crew_no_trashman: "\<lbrakk>c_panic s = None; rc_evicting (c_rc s) = xs @ r # ys; rc_TrashMan (c_rc s) = None\<rbrakk> \<Longrightarrow>
     crew_work oob s (s\<lparr>c_panic := Some NilDereference\<rparr>)"
| crew_pause: "\<lbrakk>c_panic s = None; rc_TrashMan (c_rc s) = Some t; tm_running t;
     enumerates order (tm_responses t); trashMan_pause order t (c_rc s) p = (t', rc')\<rbrakk> \<Longrightarrow>
     crew_work oob s (s\<lparr>c_rc := rc'\<lparr>rc_TrashMan := Some t'\<rparr>\<rparr>)"
| crew_cancel: "\<lbrakk>c_panic s = None; rc_TrashMan (c_rc s) = Some t; tm_running t\<rbrakk> \<Longrightarrow>
     crew_work oob s (s\<lparr>c_rc := (c_rc s)\<lparr>rc_TrashMan := Some (trashMan_cancel t)\<rparr>\<rparr>)"

text \<open>Any interleaving of both.\<close>

inductive crew_step :: "(rat \<Rightarrow> 32 word) \<Rightarrow> crew \<Rightarrow> crew \<Rightarrow> bool" for oob where
  crew_client: "client_step k s s' \<Longrightarrow> crew_step oob s s'"
| crew_works: "crew_work oob s s' \<Longrightarrow> crew_step oob s s'"

definition buffer_bounded :: "trashMan \<Rightarrow> bool" where
  "buffer_bounded t \<longleftrightarrow>
     (\<not> tm_paused t \<longrightarrow> int (ResponsesQueued t) < max 1 (tm_evictionBatchSize t))"

definition crew_inv :: "crew \<Rightarrow> bool" where
  "crew_inv s \<longleftrightarrow> cache_keyed (c_rc s) \<and>
     (\<forall>t. rc_TrashMan (c_rc s) = Some t \<longrightarrow> tm_keyed t \<and> buffer_bounded t)"

lemma cache_only [simp]:
  "cache_keyed (rc\<lparr>rc_TrashMan := x\<rparr>) = cache_keyed rc"
  "cache_keyed (rc\<lparr>rc_evicting := e\<rparr>) = cache_keyed rc"
  by (simp_all add: cache_keyed_def)

text \<open>The two arms of the loop that may flush, seen from outside.\<close>

lemma flush_arm:
  assumes "enumerates order (tm_responses t)" and "tm_keyed t" and "cache_keyed rc"
    and "(if c then FlushResponses order t rc else (t, rc)) = (t', rc')"
    and "\<not> tm_paused t \<Longrightarrow> \<not> c \<Longrightarrow> int (ResponsesQueued t) < max 1 (tm_evictionBatchSize t)"
  shows "tm_keyed t' \<and> buffer_bounded t' \<and> cache_keyed rc'"
proof (cases c)
  case True
  with assms(4) have f: "FlushResponses order t rc = (t', rc')" by simp
  then obtain rs where "rc' = RecordCache_RemoveSlice rc rs"
    using Flush_spec(2) [OF assms(1), of rc] by auto
  moreover have "t' = t\<lparr>tm_responses := fmempty\<rparr>"
    using Flush_spec(1) [OF assms(1), of rc] f by simp
  ultimately show ?thesis
    using assms(3) by (auto simp: tm_keyed_def buffer_bounded_def ResponsesQueued_def)
next
  case False
  with assms show ?thesis by (auto simp: buffer_bounded_def)
qed

lemma trashMan_receive_inv:
  assumes "enumerates order (tm_responses (AddResponse t r))" "tm_keyed t" "cache_keyed rc"
    and "trashMan_receive order t rc r = (t', rc')"
  shows "tm_keyed t' \<and> buffer_bounded t' \<and> cache_keyed rc'"
  by (rule flush_arm [OF assms(1) tm_keyed_AddResponse [OF assms(2)] assms(3)
        assms(4) [unfolded trashMan_receive_def Let_def]]) auto

lemma trashMan_pause_inv:
  assumes "enumerates order (tm_responses t)" "tm_keyed t" "cache_keyed rc"
    and "trashMan_pause order t rc p = (t', rc')"
  shows "tm_keyed t' \<and> buffer_bounded t' \<and> cache_keyed rc'"
  by (rule flush_arm [where t = "t\<lparr>tm_paused := p\<rparr>", OF _ _ assms(3)
        assms(4) [unfolded trashMan_pause_def Let_def]])
    (use assms(1,2) in \<open>auto simp: tm_keyed_def ResponsesQueued_def\<close>)


lemma crew_inv_frame:
  assumes "crew_inv s" and "rc_cache rc' = rc_cache (c_rc s)" and "rc_TrashMan rc' = rc_TrashMan (c_rc s)"
  shows "crew_inv (s\<lparr>c_rc := rc', c_store := st\<rparr>)" and "crew_inv (s\<lparr>c_rc := rc'\<rparr>)"
  using assms by (auto simp: crew_inv_def cache_keyed_def)

lemma client_step_inv: "client_step k s s' \<Longrightarrow> crew_inv s \<Longrightarrow> crew_inv s'"
  by (auto simp: crew_inv_def RecordCache_Remove_def elim!: client_step.cases)

lemma crew_work_inv: "crew_work oob s s' \<Longrightarrow> crew_inv s \<Longrightarrow> crew_inv s'"
proof (induction rule: crew_work.induct)
  case (crew_get s clk oth n q res rc' st')
  have "rc' = fst (snd (RecordCache_Get_shared oob clk oth (c_rc s) n q (c_store s)))"
    using crew_get(2) by simp
  then show ?case
    by (intro crew_inv_frame [OF crew_get.prems]) simp_all
next
  case (crew_clean s j d order clk n rc')
  then show ?case
    using Clean_fields [of order clk "c_store s" "c_rc s" n rc']
    by (intro crew_inv_frame [OF crew_clean.prems]) simp_all
next
  case (crew_evict s xs r ys t order t' rc')
  then have "tm_keyed t' \<and> buffer_bounded t' \<and> cache_keyed rc'"
    by (intro trashMan_receive_inv [OF crew_evict(5) _ _ crew_evict(6)]) (simp_all add: crew_inv_def)
  then show ?case by (simp add: crew_inv_def)
next
  case (crew_pause s t order p t' rc')
  then have "tm_keyed t' \<and> buffer_bounded t' \<and> cache_keyed rc'"
    by (intro trashMan_pause_inv [OF crew_pause(4) _ _ crew_pause(5)]) (simp_all add: crew_inv_def)
  then show ?case by (simp add: crew_inv_def)
next
  case (crew_cancel s t)
  then show ?case
    by (auto simp: crew_inv_def trashMan_cancel_def tm_keyed_def buffer_bounded_def ResponsesQueued_def)
qed (simp_all add: crew_inv_def)

lemma crew_step_inv: "crew_step oob s s' \<Longrightarrow> crew_inv s \<Longrightarrow> crew_inv s'"
  by (auto elim!: crew_step.cases intro: client_step_inv crew_work_inv)

lemma crew_reach_inv: "(crew_step oob)\<^sup>*\<^sup>* s s' \<Longrightarrow> crew_inv s \<Longrightarrow> crew_inv s'"
  by (induction rule: rtranclp_induct) (auto dest: crew_step_inv)

lemma arm_batch:
  "trashMan_receive order t rc r = (t', rc') \<Longrightarrow> tm_evictionBatchSize t' = tm_evictionBatchSize t"
  "trashMan_pause order t rc p = (t', rc') \<Longrightarrow> tm_evictionBatchSize t' = tm_evictionBatchSize t"
  by (auto simp: trashMan_receive_def trashMan_pause_def FlushResponses_def Let_def split: prod.splits if_splits)

lemma crew_step_batch:
  assumes "crew_step oob s s'"
  shows "map_option tm_evictionBatchSize (rc_TrashMan (c_rc s')) = map_option tm_evictionBatchSize (rc_TrashMan (c_rc s))"
  using assms
proof cases
  case (crew_client k)
  then show ?thesis by cases (simp_all add: RecordCache_Remove_def)
next
  case crew_works
  then show ?thesis
  proof cases
    case (crew_get clk oth n q res rc' st')
    then show ?thesis using shared_fields(2) [of oob clk oth "c_rc s" n q "c_store s"] by simp
  next
    case (crew_clean j d order clk n rc')
    then show ?thesis using Clean_fields [of order clk "c_store s" "c_rc s" n rc'] by simp
  qed (auto simp: trashMan_cancel_def dest: arm_batch)
qed

definition crew_start :: "Configuration \<Rightarrow> rr_store \<Rightarrow> crew" where
  "crew_start cfg st = \<lparr>c_rc = StartCleaningCrew cfg NewCache, c_store = st, c_panic = None\<rparr>"

lemma crew_start_inv: "crew_inv (crew_start cfg st)"
  by (auto simp: crew_inv_def crew_start_def StartCleaningCrew_def NewCache_def cache_keyed_def
      tm_keyed_def buffer_bounded_def ResponsesQueued_def trashMan_Start_def Let_def)

text \<open>
  C34. Whatever clients, lookups, janitor and trashman do, in any order, every cached and every buffered
  response stays under its own key, and while the trashman is not paused its buffer stays below the
  configured batch size (one, if that is not positive).
\<close>

theorem crew_invariant:
  assumes "(crew_step oob)\<^sup>*\<^sup>* (crew_start cfg st) s"
  shows "cache_keyed (c_rc s) \<and>
    (\<forall>t. rc_TrashMan (c_rc s) = Some t \<longrightarrow> tm_keyed t \<and> tm_evictionBatchSize t = cfg_EvictionBatchSize cfg \<and>
       (\<not> tm_paused t \<longrightarrow> int (ResponsesQueued t) < max 1 (cfg_EvictionBatchSize cfg)))"
proof -
  have "map_option tm_evictionBatchSize (rc_TrashMan (c_rc s)) = Some (cfg_EvictionBatchSize cfg)"
    using assms
    by (induction rule: rtranclp_induct)
      (simp_all add: crew_step_batch crew_start_def StartCleaningCrew_def NewCache_def trashMan_Start_def Let_def)
  with crew_reach_inv [OF assms crew_start_inv] show ?thesis
    by (auto simp: crew_inv_def buffer_bounded_def)
qed

end
