(* ===== verification/Servers.thy ===== *)
theory Servers
  imports RecordCache Upstreams Config
begin

text \<open>
  \<open>src/server.go\<close>: what the two servers share, with the metrics of \<open>src/prom.go\<close> they update and the
  query log they write. The DNS library and the network are not part of the repository: the
  functions used of them are arguments (\<open>dns_lib\<close>, \<open>exchange\<close>). A message that leaves through a
  response writer is kept as the writer sends it: the header and the records its pointers reach.
\<close>

section \<open>The library\<close>

text \<open>
  \<open>m.SetReply(r)\<close>, \<open>m.SetRcode(r, c)\<close>, \<open>m.SetQuestion(n, t)\<close>, \<open>m.Copy()\<close>, which allocates new records,
  and the text of a record.
\<close>

record dns_lib =
  lib_SetReply :: "Msg \<Rightarrow> Msg \<Rightarrow> Msg"
  lib_SetRcode :: "Msg \<Rightarrow> Msg \<Rightarrow> int \<Rightarrow> Msg"
  lib_SetQuestion :: "Msg \<Rightarrow> string \<Rightarrow> 16 word \<Rightarrow> Msg"
  lib_Copy :: "Msg \<Rightarrow> rr_store \<Rightarrow> Msg \<times> rr_store"
  lib_String :: "rr \<Rightarrow> string"

text \<open>A message as it is written: its header and its answer records.\<close>

type_synonym wire = "Msg \<times> rr list"

definition on_wire :: "rr_store \<Rightarrow> Msg \<Rightarrow> wire" where
  "on_wire st m = (m\<lparr>m_Answer := []\<rparr>, map st (m_Answer m))"

text \<open>
  What the documentation promises: a reply takes over identifier, opcode and first question of the
  request and leaves the answer alone, \<open>SetRcode\<close> is \<open>SetReply\<close> with another code, a question is set
  as given, and a copy reads like the original.
\<close>

definition dns_contract :: "dns_lib \<Rightarrow> bool" where
  "dns_contract lib \<longleftrightarrow>
     (\<forall>m r. m_Id (lib_SetReply lib m r) = m_Id r \<and> m_Opcode (lib_SetReply lib m r) = m_Opcode r \<and>
        m_Rcode (lib_SetReply lib m r) = 0 \<and> m_Answer (lib_SetReply lib m r) = m_Answer m \<and>
        m_Question (lib_SetReply lib m r) =
          (case m_Question r of [] \<Rightarrow> m_Question m | q # _ \<Rightarrow> [q])) \<and>
     (\<forall>m r c. lib_SetRcode lib m r c = (lib_SetReply lib m r)\<lparr>m_Rcode := c\<rparr>) \<and>
     (\<forall>m n t. m_Question (lib_SetQuestion lib m n t) = [\<lparr>q_Name = n, q_Qtype = t\<rparr>]) \<and>
     (\<forall>m st. on_wire (snd (lib_Copy lib m st)) (fst (lib_Copy lib m st)) = on_wire st m)"

text \<open>A copy is made in new records; those of the message that is copied stay as they are.\<close>

definition copies_apart :: "dns_lib \<Rightarrow> bool" where
  "copies_apart lib \<longleftrightarrow> (\<forall>m st. \<forall>p\<in>set (m_Answer m). snd (lib_Copy lib m st) p = st p)"

text \<open>One call of \<open>ExchangeWithConn\<close>: reply, round trip time and error; it allocates the reply's records.\<close>

type_synonym exchange =
  "Msg \<Rightarrow> nat \<Rightarrow> rr_store \<Rightarrow> (Msg \<times> duration \<times> go_error option) \<times> rr_store"

section \<open>Metrics and query log\<close>

record metrics =
  mt_QueuedQueries :: int
  mt_TotalDnsQueries :: nat
  mt_CacheHits :: nat
  mt_HostedCacheHits :: nat
  mt_RecursiveQueries :: nat
  mt_UpstreamErrors :: "string \<Rightarrow> nat"
  mt_LocalServfails :: nat
  mt_QueryTimer :: nat
  mt_ExchangeTimer :: "string \<Rightarrow> nat"
  mt_ReusedConnections :: "string \<Rightarrow> nat"

definition zero_metrics :: metrics where
  "zero_metrics = \<lparr>mt_QueuedQueries = 0, mt_TotalDnsQueries = 0, mt_CacheHits = 0,
     mt_HostedCacheHits = 0, mt_RecursiveQueries = 0, mt_UpstreamErrors = (\<lambda>_. 0),
     mt_LocalServfails = 0, mt_QueryTimer = 0, mt_ExchangeTimer = (\<lambda>_. 0),
     mt_ReusedConnections = (\<lambda>_. 0)\<rparr>"

definition bump :: "string \<Rightarrow> (string \<Rightarrow> nat) \<Rightarrow> string \<Rightarrow> nat" where
  "bump label f = f(label := Suc (f label))"

text \<open>Names of types and opcodes are the library's; the log line keeps the numbers.\<close>

record query_line =
  ql_name :: string
  ql_type :: "16 word"
  ql_opcode :: int
  ql_answer :: string
  ql_answerSource :: string
  ql_duration :: duration

text \<open>What the handlers change outside the server: the records, the metrics and the query log.\<close>

record world =
  w_store :: rr_store
  w_mt :: metrics
  w_log :: "query_line list"

section \<open>The client of the upstreams\<close>

text \<open>
  What \<open>BuildClient\<close> sets of the library's client and dialer. The dialer runs its control function on a
  new socket: \<open>control\<close> is the error of \<open>c.Control\<close>, with which the function is not run, and \<open>setsockopt\<close> whether
  the kernel takes the option.
\<close>

datatype socket_option = TCP_FASTOPEN_CONNECT

definition sockoptSetter :: "Configuration \<Rightarrow> go_error option \<Rightarrow> bool \<Rightarrow> socket_option list \<times> go_error option" where
  "sockoptSetter config control setsockopt =
     (if control = None \<and> cfg_UseTfo config \<and> setsockopt then [TCP_FASTOPEN_CONNECT] else [], control)"

record net_Dialer =
  nd_Control :: "go_error option \<Rightarrow> bool \<Rightarrow> socket_option list \<times> go_error option"
  nd_Timeout :: duration

definition buildDialer :: "Configuration \<Rightarrow> duration \<Rightarrow> net_Dialer" where
  "buildDialer config timeout = \<lparr>nd_Control = sockoptSetter config, nd_Timeout = timeout\<rparr>"

record dns_Client =
  dc_SingleInflight :: bool
  dc_Dialer :: net_Dialer
  dc_Timeout :: duration
  dc_Net :: string
  dc_InsecureSkipVerify :: bool

definition BuildClient :: "Configuration \<Rightarrow> go_error + dns_Client" where
  "BuildClient config =
     (let timeout = cfg_Timeout config * Millisecond
      in Inr \<lparr>dc_SingleInflight = True, dc_Dialer = buildDialer config timeout, dc_Timeout = timeout,
           dc_Net = ''tcp-tls'', dc_InsecureSkipVerify = cfg_SkipUpstreamVerification config\<rparr>)"

text \<open>Fast open is only an attempt: whether the kernel takes the option does not change the outcome.\<close>

lemma sockoptSetter_error [simp]: "snd (sockoptSetter config control setsockopt) = control"
  by (simp add: sockoptSetter_def)

section \<open>Operations\<close>

definition processResults :: "time \<Rightarrow> Msg \<Rightarrow> string \<Rightarrow> 16 word \<Rightarrow> Response \<times> go_error option" where
  "processResults now r domain rrtype =
     (zero_Response\<lparr>resp_Entry := r, resp_CreationTime := now, resp_Name := domain,
        resp_Qtype := rrtype\<rparr>, None)"

fun split_on :: "char \<Rightarrow> string \<Rightarrow> string list" where
  "split_on sep [] = [[]]"
| "split_on sep (c # cs) =
     (if c = sep then [] # split_on sep cs
      else case split_on sep cs of [] \<Rightarrow> [[c]] | w # ws \<Rightarrow> (c # w) # ws)"

definition logQuery :: "dns_lib \<Rightarrow> string \<Rightarrow> duration \<Rightarrow> Msg \<Rightarrow> world \<Rightarrow> world" where
  "logQuery lib source duration response w =
     (let st = w_store w;
          lines = concat (map (\<lambda>q. map (\<lambda>p.
            \<lparr>ql_name = q_Name q, ql_type = q_Qtype q, ql_opcode = m_Opcode response,
             ql_answer = last (split_on (CHR '' '') (lib_String lib (st p))),
             ql_answerSource = ''['' @ source @ '']'', ql_duration = duration\<rparr>)
            (m_Answer response)) (m_Question response))
      in w\<lparr>w_log := w_log w @ lines\<rparr>)"

text \<open>\<open>sendServfail\<close> writes one message, which is the first component of the result.\<close>

definition sendServfail :: "dns_lib \<Rightarrow> duration \<Rightarrow> Msg \<Rightarrow> world \<Rightarrow> wire \<times> world" where
  "sendServfail lib duration r w =
     (let w1 = w\<lparr>w_mt := (w_mt w)\<lparr>mt_LocalServfails := mt_LocalServfails (w_mt w) + 1\<rparr>\<rparr>;
          m = lib_SetRcode lib zero_Msg r RcodeServerFailure
      in (on_wire (w_store w1) m, logQuery lib ''servfail'' duration m w1))"

definition attemptExchange ::
  "Configuration \<Rightarrow> exchange \<Rightarrow> Msg \<Rightarrow> connEntry \<Rightarrow> world
     \<Rightarrow> ((connEntry \<times> Msg \<times> go_error option) \<times> world) outcome" where
  "attemptExchange cfg ExchangeWithConn m ce w =
     (let address = connEntry_GetAddress ce
      in outcome_bind (GetConn ce) (\<lambda>conn.
           case ExchangeWithConn m conn (w_store w) of
             ((reply, rtt, err), st) \<Rightarrow>
               let mt = (w_mt w)\<lparr>mt_ExchangeTimer := bump address (mt_ExchangeTimer (w_mt w))\<rparr>;
                   ce1 = AddExchange cfg rtt ce
               in case err of
                    Some e \<Rightarrow>
                      Ok ((ce1, zero_Msg, Some e),
                          w\<lparr>w_store := st,
                            w_mt := mt\<lparr>mt_UpstreamErrors := bump address (mt_UpstreamErrors mt)\<rparr>\<rparr>)
                  | None \<Rightarrow> Ok ((ce1, reply, None), w\<lparr>w_store := st, w_mt := mt\<rparr>)))"

lemma split_on_not_Nil [simp]: "split_on sep cs \<noteq> []"
  by (induction cs) (auto split: list.splits)

lemma processResults_simps [simp]:
  "snd (processResults now r domain rrtype) = None"
  "resp_Entry (fst (processResults now r domain rrtype)) = r"
  "resp_Name (fst (processResults now r domain rrtype)) = domain"
  "resp_Qtype (fst (processResults now r domain rrtype)) = rrtype"
  "resp_CreationTime (fst (processResults now r domain rrtype)) = now"
  by (simp_all add: processResults_def)

lemma logQuery_fields [simp]:
  "w_store (logQuery lib source d m w) = w_store w"
  "w_mt (logQuery lib source d m w) = w_mt w"
  by (simp_all add: logQuery_def Let_def)

lemma length_logQuery:
  "length (w_log (logQuery lib source d m w)) =
     length (w_log w) + length (m_Question m) * length (m_Answer m)"
  by (simp add: logQuery_def Let_def length_concat o_def sum_list_triv)

lemma sendServfail_fields [simp]:
  "w_store (snd (sendServfail lib d r w)) = w_store w"
  "w_mt (snd (sendServfail lib d r w)) = (w_mt w)\<lparr>mt_LocalServfails := mt_LocalServfails (w_mt w) + 1\<rparr>"
  by (simp_all add: sendServfail_def Let_def)

lemma attemptExchange_Ok:
  "attemptExchange cfg xchg m ce w = Ok ((ce', reply, err), w') \<longleftrightarrow>
     (\<exists>conn rtt reply0 st. ce_Conn ce = Some conn \<and> xchg m conn (w_store w) = ((reply0, rtt, err), st) \<and>
        ce' = AddExchange cfg rtt ce \<and> reply = (case err of None \<Rightarrow> reply0 | Some _ \<Rightarrow> zero_Msg) \<and>
        w_store w' = st \<and> w_log w' = w_log w \<and>
        w_mt w' = (w_mt w)\<lparr>mt_ExchangeTimer := bump (connEntry_GetAddress ce) (mt_ExchangeTimer (w_mt w)),
          mt_UpstreamErrors := (case err of None \<Rightarrow> mt_UpstreamErrors (w_mt w)
            | Some _ \<Rightarrow> bump (connEntry_GetAddress ce) (mt_UpstreamErrors (w_mt w)))\<rparr>)"
proof -
  have ext: "w' = w\<lparr>w_store := st, w_mt := mt\<rparr> \<longleftrightarrow> w_store w' = st \<and> w_log w' = w_log w \<and> w_mt w' = mt"
    for st mt by auto
  show ?thesis
  proof (cases "ce_Conn ce")
    case None
    then show ?thesis by (simp add: attemptExchange_def GetConn_def)
  next
    case (Some conn)
    obtain reply0 rtt err0 st where x: "xchg m conn (w_store w) = ((reply0, rtt, err0), st)"
      by (metis surj_pair)
    show ?thesis
      by (cases err0)
        (auto simp: attemptExchange_def GetConn_def Some x Let_def eq_commute [of _ w'] ext)
  qed
qed

end
