(* ===== verification/MutexServer.thy ===== *)
theory MutexServer
  imports PoolRuns CleaningCrew Servers
begin

text \<open>
  \<open>src/mutex_server.go\<close>: one goroutine per query that looks in the lookup cache, in the hosted cache
  and then asks an upstream. Each definition is one function of the file, run by one goroutine; what
  the clock and the network do during attempt \<open>i\<close> of a query is \<open>calls i\<close>. The semaphore is the
  number of free permits.
\<close>

section \<open>State\<close>

record MutexServer =
  ms_Cache :: RecordCache
  ms_HostedCache :: RecordCache
  ms_sem :: int
  ms_connPool :: connPool

record client_call =
  cc_clk :: clock
  cc_Dial :: "string \<Rightarrow> go_error + nat"
  cc_dialDuration :: duration
  cc_now :: time
  cc_Exchange :: exchange

section \<open>Connections and exchanges\<close>

definition newConnection ::
  "Configuration \<Rightarrow> client_call \<Rightarrow> MutexServer \<Rightarrow> Upstream
     \<Rightarrow> (connEntry \<times> go_error option) \<times> MutexServer" where
  "newConnection cfg call s upstream =
     (case connPool_NewConnection cfg (cc_now call) (ms_connPool s) upstream (cc_Dial call)
             (cc_dialDuration call) of
        ((ce, err), c) \<Rightarrow>
          let s1 = s\<lparr>ms_connPool := c\<rparr>
          in case err of
               Some e \<Rightarrow>
                 ((zero_connEntry, Some (ConnectFailed (Upstream_GetAddress upstream) e)), s1)
             | None \<Rightarrow> ((ce, None), s1))"

definition MutexServer_GetConnection ::
  "Configuration \<Rightarrow> client_call \<Rightarrow> MutexServer \<Rightarrow> world
     \<Rightarrow> ((connEntry \<times> go_error option) \<times> MutexServer \<times> world) outcome" where
  "MutexServer_GetConnection cfg call s w =
     outcome_bind (connPool_Get (cc_clk call) (ms_connPool s)) (\<lambda>((ce, upstream), c).
       let s1 = s\<lparr>ms_connPool := c\<rparr>;
           ((ce1, err), s2) =
             (if upstream \<noteq> zero_Upstream then newConnection cfg call s1 upstream
              else ((ce, None), s1))
       in case err of
            Some e \<Rightarrow> Ok ((zero_connEntry, Some e), s2, w)
          | None \<Rightarrow>
              Ok ((ce1, None), s2,
                  w\<lparr>w_mt := (w_mt w)\<lparr>mt_ReusedConnections :=
                      bump (connEntry_GetAddress ce1) (mt_ReusedConnections (w_mt w))\<rparr>\<rparr>))"

definition MutexServer_AddUpstream :: "MutexServer \<Rightarrow> nat \<Rightarrow> MutexServer" where
  "MutexServer_AddUpstream s r = s\<lparr>ms_connPool := connPool_AddUpstream (ms_connPool s) r\<rparr>"

text \<open>
  The reply is a pointer, nil beside an error of the pool. The domain of the error message is the
  name of the first question.
\<close>

definition MutexServer_attemptExchange ::
  "Configuration \<Rightarrow> sort_fun \<Rightarrow> client_call \<Rightarrow> Msg \<Rightarrow> MutexServer \<Rightarrow> world
     \<Rightarrow> ((connEntry \<times> Msg option \<times> go_error option) \<times> MutexServer \<times> world) outcome" where
  "MutexServer_attemptExchange cfg srt call m s w =
     outcome_bind (MutexServer_GetConnection cfg call s w) (\<lambda>((ce, err), s1, w1).
       case err of
         Some e \<Rightarrow> Ok ((ce, None, Some (NoPoolConnection e)), s1, w1)
       | None \<Rightarrow>
           outcome_bind (attemptExchange cfg (cc_Exchange call) m ce w1) (\<lambda>((ce1, reply, err1), w2).
             case err1 of
               None \<Rightarrow> Ok ((ce1, Some reply, None), s1, w2)
             | Some e \<Rightarrow>
                 let ce2 = AddError ce1
                 in outcome_bind (connPool_CloseConnection cfg srt (cc_now call) (ms_connPool s1) ce2)
                      (\<lambda>c.
                         let address = connEntry_GetAddress ce2;
                             w3 = w2\<lparr>w_mt := (w_mt w2)\<lparr>mt_UpstreamErrors :=
                                    bump address (mt_UpstreamErrors (w_mt w2))\<rparr>\<rparr>
                         in case m_Question m of
                              [] \<Rightarrow> Panic IndexOutOfRange
                            | q # _ \<Rightarrow>
                                Ok ((zero_connEntry, Some zero_Msg,
                                     Some (LookupFailed (q_Name q) address)),
                                    s1\<lparr>ms_connPool := c\<rparr>, w3))))"

text \<open>
  The retry loop: \<open>i\<close> counts up to and including \<open>UpstreamRetries\<close>, \<open>k\<close> is the number of rounds left.
  The variables \<open>ce\<close>, \<open>r\<close> and \<open>err\<close> live outside the loop and start as nil.
\<close>

type_synonym tried = "connEntry option \<times> Msg option \<times> go_error option"

fun RecursiveQuery_loop ::
  "Configuration \<Rightarrow> sort_fun \<Rightarrow> (nat \<Rightarrow> client_call) \<Rightarrow> Msg \<Rightarrow> nat \<Rightarrow> nat \<Rightarrow> tried \<Rightarrow> MutexServer \<Rightarrow> world
     \<Rightarrow> (tried \<times> MutexServer \<times> world) outcome" where
  "RecursiveQuery_loop cfg srt calls m 0 i var s w = Ok (var, s, w)"
| "RecursiveQuery_loop cfg srt calls m (Suc k) i var s w =
     outcome_bind (MutexServer_attemptExchange cfg srt (calls i) m s w) (\<lambda>((ce, r, err), s1, w1).
       case err of
         None \<Rightarrow> Ok ((Some ce, r, None), s1, w1)
       | Some e \<Rightarrow> RecursiveQuery_loop cfg srt calls m k (i + 1) (Some ce, r, Some e) s1 w1)"

text \<open>
  \<open>fin\<close> is the reading of the clock in \<open>Add\<close>, \<open>born\<close> the creation time of the response. An error of
  \<open>Add\<close> is only logged. A nil connection entry or reply would be dereferenced.
\<close>

definition RecursiveQuery ::
  "dns_lib \<Rightarrow> Configuration \<Rightarrow> sort_fun \<Rightarrow> (nat \<Rightarrow> client_call) \<Rightarrow> time \<Rightarrow> time \<Rightarrow> MutexServer \<Rightarrow> world
     \<Rightarrow> string \<Rightarrow> 16 word \<Rightarrow> ((Response \<times> string \<times> go_error option) \<times> MutexServer \<times> world) outcome" where
  "RecursiveQuery lib cfg srt calls fin born s w domain rrtype =
     (let w0 = w\<lparr>w_mt := (w_mt w)\<lparr>mt_RecursiveQueries := mt_RecursiveQueries (w_mt w) + 1\<rparr>\<rparr>;
          m = (lib_SetQuestion lib zero_Msg domain rrtype)\<lparr>m_RecursionDesired := True\<rparr>
      in outcome_bind
           (RecursiveQuery_loop cfg srt calls m (nat (cfg_UpstreamRetries cfg + 1)) 0
              (None, None, None) s w0)
           (\<lambda>((ce, r, err), s1, w1).
              case err of
                Some e \<Rightarrow> Ok ((zero_Response, [], Some (NoExchange e)), s1, w1)
              | None \<Rightarrow>
                  (case ce of
                     None \<Rightarrow> Panic NilDereference
                   | Some ce1 \<Rightarrow>
                       let (err1, c) = connPool_Add cfg srt fin (ms_connPool s1) ce1;
                           s2 = s1\<lparr>ms_connPool := c\<rparr>
                       in case r of
                            None \<Rightarrow> Panic NilDereference
                          | Some msg \<Rightarrow>
                              (case processResults born msg domain rrtype of
                                 (reply, err2) \<Rightarrow>
                                   Ok ((reply, connEntry_GetAddress ce1, err2), s2, w1)))))"

section \<open>Queries\<close>

text \<open>What the outside does during one query: the clock readings of its steps, and its attempts.\<close>

record surroundings =
  e_oob :: "rat \<Rightarrow> 32 word"
  e_clk_cache :: clock
  e_clk_hosted :: clock
  e_calls :: "nat \<Rightarrow> client_call"
  e_fin :: time
  e_born :: time
  e_duration :: duration

definition RetrieveRecords ::
  "dns_lib \<Rightarrow> Configuration \<Rightarrow> sort_fun \<Rightarrow> surroundings \<Rightarrow> MutexServer \<Rightarrow> world \<Rightarrow> string \<Rightarrow> 16 word
     \<Rightarrow> ((Response \<times> string \<times> go_error option) \<times> MutexServer \<times> world) outcome" where
  "RetrieveRecords lib cfg srt e s w domain rrtype =
     (case RecordCache_Get (e_oob e) (e_clk_cache e) (ms_Cache s) domain rrtype (w_store w) of
        ((cached_response, ok), rc, st) \<Rightarrow>
          let s1 = s\<lparr>ms_Cache := rc\<rparr>; w1 = w\<lparr>w_store := st\<rparr>
          in if ok then
               Ok ((cached_response, ''cache'', None), s1,
                   w1\<lparr>w_mt := (w_mt w1)\<lparr>mt_CacheHits := mt_CacheHits (w_mt w1) + 1\<rparr>\<rparr>)
             else
               (case RecordCache_Get (e_oob e) (e_clk_hosted e) (ms_HostedCache s1) domain rrtype
                       (w_store w1) of
                  ((hosted_response, ok), rc, st) \<Rightarrow>
                    let s2 = s1\<lparr>ms_HostedCache := rc\<rparr>; w2 = w1\<lparr>w_store := st\<rparr>
                    in if ok then
                         Ok ((hosted_response, ''cache'', None), s2,
                             w2\<lparr>w_mt := (w_mt w2)\<lparr>mt_HostedCacheHits :=
                                 mt_HostedCacheHits (w_mt w2) + 1\<rparr>\<rparr>)
                       else
                         outcome_bind
                           (RecursiveQuery lib cfg srt (e_calls e) (e_fin e) (e_born e) s2 w2
                              domain rrtype)
                           (\<lambda>((response, source, err), s3, w3).
                              case err of
                                Some er \<Rightarrow>
                                  Ok ((response, [], Some (RecursiveQueryFailed domain er)), s3, w3)
                              | None \<Rightarrow>
                                  Ok ((response, source, None),
                                      s3\<lparr>ms_Cache := RecordCache_Add (ms_Cache s3) response\<rparr>, w3))))"

text \<open>
  \<open>HandleDNS\<close> up to its goroutine: the counters, the name that is asked for, and the permit, without
  which it waits (\<open>None\<close>). The reply it prepares is used for the name only.
\<close>

definition HandleDNS_accept ::
  "dns_lib \<Rightarrow> MutexServer \<Rightarrow> world \<Rightarrow> Msg \<Rightarrow> (string \<times> world) outcome" where
  "HandleDNS_accept lib s w r =
     (let mt = w_mt w;
          w1 = w\<lparr>w_mt := mt\<lparr>mt_TotalDnsQueries := mt_TotalDnsQueries mt + 1,
                           mt_QueuedQueries := mt_QueuedQueries mt + 1\<rparr>\<rparr>;
          msg = lib_SetReply lib zero_Msg r
      in case m_Question msg of [] \<Rightarrow> Panic IndexOutOfRange | q # _ \<Rightarrow> Ok (q_Name q, w1))"

definition sem_Acquire :: "MutexServer \<Rightarrow> MutexServer option" where
  "sem_Acquire s = (if 1 \<le> ms_sem s then Some (s\<lparr>ms_sem := ms_sem s - 1\<rparr>) else None)"

definition sem_Release :: "MutexServer \<Rightarrow> MutexServer" where
  "sem_Release s = s\<lparr>ms_sem := ms_sem s + 1\<rparr>"

text \<open>The goroutine of \<open>HandleDNS\<close>; the first component of the result is what it writes.\<close>

definition HandleDNS_serve ::
  "dns_lib \<Rightarrow> Configuration \<Rightarrow> sort_fun \<Rightarrow> surroundings \<Rightarrow> MutexServer \<Rightarrow> world \<Rightarrow> string \<Rightarrow> Msg
     \<Rightarrow> (wire list \<times> MutexServer \<times> world) outcome" where
  "HandleDNS_serve lib cfg srt e s w domain r =
     (let w0 = w\<lparr>w_mt := (w_mt w)\<lparr>mt_QueuedQueries := mt_QueuedQueries (w_mt w) - 1\<rparr>\<rparr>
      in case m_Question r of
           [] \<Rightarrow> Panic IndexOutOfRange
         | q # _ \<Rightarrow>
             outcome_bind (RetrieveRecords lib cfg srt e s w0 domain (q_Qtype q))
               (\<lambda>((response, source, err), s1, w1).
                  let observe = (\<lambda>w. w\<lparr>w_mt := (w_mt w)\<lparr>mt_QueryTimer := mt_QueryTimer (w_mt w) + 1\<rparr>\<rparr>)
                  in case err of
                       Some er \<Rightarrow>
                         (case sendServfail lib (e_duration e) r (observe w1) of
                            (out, w2) \<Rightarrow> Ok ([out], sem_Release s1, w2))
                     | None \<Rightarrow>
                         (case lib_Copy lib (resp_Entry response) (w_store w1) of
                            (copy, st) \<Rightarrow>
                              let reply = lib_SetRcode lib copy r (m_Rcode (resp_Entry response));
                                  w2 = observe (w1\<lparr>w_store := st\<rparr>)
                              in Ok ([on_wire st reply], sem_Release s1,
                                     logQuery lib source (e_duration e) reply w2))))"

text \<open>
  \<open>HandleDNS\<close> run alone: nothing is written before the permit is there, so a query that waits leaves
  the server as it is.
\<close>

definition HandleDNS ::
  "dns_lib \<Rightarrow> Configuration \<Rightarrow> sort_fun \<Rightarrow> surroundings \<Rightarrow> MutexServer \<Rightarrow> world \<Rightarrow> Msg
     \<Rightarrow> (wire list \<times> MutexServer \<times> world) outcome" where
  "HandleDNS lib cfg srt e s w r =
     outcome_bind (HandleDNS_accept lib s w r) (\<lambda>(domain, w1).
       case sem_Acquire s of
         None \<Rightarrow> Ok ([], s, w1)
       | Some s1 \<Rightarrow> HandleDNS_serve lib cfg srt e s1 w1 domain r)"

section \<open>Construction\<close>

text \<open>
  \<open>NewMutexServer\<close> without an injected client or pool: the upstreams of the configuration get the
  pointers 0, 1, ... in order. \<open>gomaxprocs\<close> is the runtime's answer, \<open>build\<close> the result of
  \<open>BuildClient\<close>.
\<close>

fun add_upstreams :: "MutexServer \<Rightarrow> nat \<Rightarrow> string list \<Rightarrow> MutexServer" where
  "add_upstreams s p [] = s"
| "add_upstreams s p (name # names) =
     (let c = ms_connPool s;
          c1 = c\<lparr>cp_store := (cp_store c)(p := zero_Upstream\<lparr>up_Name := name\<rparr>)\<rparr>
      in add_upstreams (MutexServer_AddUpstream (s\<lparr>ms_connPool := c1\<rparr>) p) (p + 1) names)"

definition NewMutexServer ::
  "Configuration \<Rightarrow> int \<Rightarrow> go_error option \<Rightarrow> go_error + MutexServer" where
  "NewMutexServer cfg gomaxprocs build =
     (case build of
        Some e \<Rightarrow> Inl (ClientNotBuilt e)
      | None \<Rightarrow>
          let c = (if cfg_ConcurrentQueries cfg = 0 then gomaxprocs else cfg_ConcurrentQueries cfg);
              newcache = StartCleaningCrew cfg NewCache;
              hostedcache = NewCache
          in Inr (add_upstreams \<lparr>ms_Cache = newcache, ms_HostedCache = hostedcache, ms_sem = c,
                    ms_connPool = NewConnPool (\<lambda>_. zero_Upstream)\<rparr> 0 (cfg_Upstreams cfg)))"

end
