(* ===== verification/Zones.thy ===== *)
theory Zones
  imports MutexServer
begin

text \<open>
  Zone files: \<open>src/bind.go\<close> and \<open>loadLocalZones\<close> of \<open>src/main.go\<close>. The parser belongs to the DNS
  library. \<open>parse\<close> is what it does with a text: for each call of \<open>Next\<close> that delivers a record, the
  pointer to it and what \<open>Err\<close> reports then, and what \<open>Err\<close> would report after the last call.
\<close>

type_synonym zone_parser = "string \<Rightarrow> (rrptr \<times> go_error option) list \<times> go_error option"

text \<open>One record becomes one response; the loop reads the clock once a round.\<close>

definition zone_response :: "time \<Rightarrow> rr_store \<Rightarrow> rrptr \<Rightarrow> Response" where
  "zone_response now st rec =
     (let cachedMsg = zero_Msg\<lparr>m_Answer := [rec]\<rparr>
      in \<lparr>resp_Name = rr_Name (st rec), resp_Entry = cachedMsg, resp_Ttl = ttl_duration (rr_Ttl (st rec)),
          resp_Qtype = rr_Rrtype (st rec), resp_CreationTime = now\<rparr>)"

fun ParseZoneFile_loop ::
  "clock \<Rightarrow> rr_store \<Rightarrow> (rrptr \<times> go_error option) list \<Rightarrow> Response list \<Rightarrow> go_error + Response list" where
  "ParseZoneFile_loop clk st [] responses = Inr responses"
| "ParseZoneFile_loop clk st ((rec, err) # rest) responses =
     (case err of
        Some e \<Rightarrow> Inl (ZoneTokenError e)
      | None \<Rightarrow> ParseZoneFile_loop (later 1 clk) st rest (responses @ [zone_response (clk 0) st rec]))"

definition ParseZoneFile ::
  "zone_parser \<Rightarrow> clock \<Rightarrow> rr_store \<Rightarrow> string \<Rightarrow> go_error + Response list" where
  "ParseZoneFile parse clk st zone = ParseZoneFile_loop clk st (fst (parse zone)) []"

text \<open>
  \<open>loadLocalZones\<close>: \<open>files\<close> are the contents of the file system; \<open>None\<close> is the exit of \<open>log.Fatalf\<close>.
\<close>

fun load_responses :: "RecordCache \<Rightarrow> Response list \<Rightarrow> RecordCache" where
  "load_responses rc [] = rc"
| "load_responses rc (response # responses) = load_responses (RecordCache_Add rc response) responses"

fun load_files ::
  "zone_parser \<Rightarrow> (string \<Rightarrow> go_error + string) \<Rightarrow> (string \<Rightarrow> clock) \<Rightarrow> rr_store \<Rightarrow> string list
     \<Rightarrow> MutexServer \<Rightarrow> MutexServer option" where
  "load_files parse files clks st [] server = Some server"
| "load_files parse files clks st (file # rest) server =
     (case files file of
        Inl err \<Rightarrow> None
      | Inr text \<Rightarrow>
          (case ParseZoneFile parse (clks file) st text of
             Inl err \<Rightarrow> None
           | Inr responses \<Rightarrow>
               load_files parse files clks st rest
                 (server\<lparr>ms_HostedCache := load_responses (ms_HostedCache server) responses\<rparr>)))"

definition loadLocalZones ::
  "Configuration \<Rightarrow> zone_parser \<Rightarrow> (string \<Rightarrow> go_error + string) \<Rightarrow> (string \<Rightarrow> clock) \<Rightarrow> rr_store
     \<Rightarrow> MutexServer \<Rightarrow> MutexServer option" where
  "loadLocalZones cfg parse files clks st server =
     load_files parse files clks st (cfg_ZoneFiles cfg) server"

section \<open>What is loaded\<close>

lemma load_responses_fold: "load_responses rc rs = foldl RecordCache_Add rc rs"
  by (induction rs arbitrary: rc) simp_all

lemma load_responses_lookup:
  "fmlookup (rc_cache (load_responses rc rs)) k =
     (case List.find (\<lambda>r. FormatKey r = k) (rev rs) of
        None \<Rightarrow> fmlookup (rc_cache rc) k | Some r \<Rightarrow> Some r)"
  unfolding load_responses_fold
  by (induction rs rule: rev_induct) auto

lemma load_responses_fields [simp]:
  "rc_TrashMan (load_responses rc rs) = rc_TrashMan rc"
  "cache_keyed rc \<Longrightarrow> cache_keyed (load_responses rc rs)"
  by (induction rs arbitrary: rc) auto

lemma load_responses_append: "load_responses rc (rs @ rs') = load_responses (load_responses rc rs) rs'"
  by (simp add: load_responses_fold)

lemma parse_loop_ok:
  assumes "\<forall>(rec, err)\<in>set recs. err = None"
  shows "ParseZoneFile_loop (\<lambda>_. now) st recs acc = Inr (acc @ map (\<lambda>x. zone_response now st (fst x)) recs)"
  using assms by (induction recs arbitrary: acc) (auto simp: case_prod_beta)

text \<open>
  The records of all zone files in order, as far as the parser gets in each file. The documentation
  of the parser says that \<open>Err\<close> reports nothing while \<open>Next\<close> still delivers.
\<close>

definition delivers :: "zone_parser \<Rightarrow> bool" where
  "delivers parse \<longleftrightarrow> (\<forall>text rec err. (rec, err) \<in> set (fst (parse text)) \<longrightarrow> err = None)"

definition zone_records :: "zone_parser \<Rightarrow> (string \<Rightarrow> go_error + string) \<Rightarrow> string list \<Rightarrow> rrptr list" where
  "zone_records parse files names =
     concat (map (\<lambda>f. case files f of Inl _ \<Rightarrow> [] | Inr text \<Rightarrow> map fst (fst (parse text))) names)"

lemma load_files_eq:
  assumes "delivers parse" and "\<And>f. f \<in> set names \<Longrightarrow> \<exists>text. files f = Inr text"
  shows "load_files parse files (\<lambda>_ _. now) st names s =
    Some (s\<lparr>ms_HostedCache := load_responses (ms_HostedCache s)
      (map (zone_response now st) (zone_records parse files names))\<rparr>)"
  using assms(2)
proof (induction names arbitrary: s)
  case Nil
  show ?case by (simp add: zone_records_def)
next
  case (Cons f names)
  then obtain contents where t: "files f = Inr contents" by auto
  have "ParseZoneFile parse (\<lambda>_. now) st contents
      = Inr (map (\<lambda>x. zone_response now st (fst x)) (fst (parse contents)))"
    using parse_loop_ok [of "fst (parse contents)" now st "[]"] assms(1)
    by (auto simp: ParseZoneFile_def delivers_def)
  then show ?case
    using Cons by (simp add: t zone_records_def load_responses_append comp_def)
qed

lemma zones_loaded:
  assumes "delivers parse" and "\<And>f. f \<in> set (cfg_ZoneFiles cfg) \<Longrightarrow> \<exists>text. files f = Inr text"
    and "rc_cache (ms_HostedCache s) = fmempty"
  shows "\<exists>s'. loadLocalZones cfg parse files (\<lambda>_ _. now) st s = Some s' \<and>
    (\<forall>n q. fmlookup (rc_cache (ms_HostedCache s')) (cache_key n q) =
       map_option (zone_response now st)
         (List.find (\<lambda>p. rr_Name (st p) = n \<and> rr_Rrtype (st p) = q)
            (rev (zone_records parse files (cfg_ZoneFiles cfg))))) \<and>
    ms_Cache s' = ms_Cache s \<and> ms_connPool s' = ms_connPool s \<and>
    rc_TrashMan (ms_HostedCache s') = rc_TrashMan (ms_HostedCache s)"
proof -
  have find_map: "List.find P (map f xs) = map_option f (List.find (P \<circ> f) xs)" for P f and xs :: "rrptr list"
    by (induction xs) auto
  have key: "FormatKey (zone_response now st p) = cache_key n q \<longleftrightarrow> rr_Name (st p) = n \<and> rr_Rrtype (st p) = q"
    for p n q
    by (simp add: FormatKey_def zone_response_def word_uint_eq_iff)
  let ?rs = "map (zone_response now st) (zone_records parse files (cfg_ZoneFiles cfg))"
  have load: "loadLocalZones cfg parse files (\<lambda>_ _. now) st s
      = Some (s\<lparr>ms_HostedCache := load_responses (ms_HostedCache s) ?rs\<rparr>)"
    unfolding loadLocalZones_def by (rule load_files_eq [OF assms(1,2)])
  have "fmlookup (rc_cache (load_responses (ms_HostedCache s) ?rs)) (cache_key n q) =
       map_option (zone_response now st)
         (List.find (\<lambda>p. rr_Name (st p) = n \<and> rr_Rrtype (st p) = q)
            (rev (zone_records parse files (cfg_ZoneFiles cfg))))" for n q
    by (simp add: load_responses_lookup assms(3) rev_map find_map comp_def key split: option.split)
  with load show ?thesis by simp
qed

text \<open>
  C29. Loading the zone files always succeeds once they can be read, even when a file is malformed,
  which only cuts it short. Of several records with the same name and type only the last one is
  hosted: it alone is the answer of the hosted response.
\<close>

theorem zones_keep_last_record:
  assumes "delivers parse" and "\<And>f. f \<in> set (cfg_ZoneFiles cfg) \<Longrightarrow> \<exists>text. files f = Inr text"
    and "rc_cache (ms_HostedCache s) = fmempty"
  shows "\<exists>s'. loadLocalZones cfg parse files (\<lambda>_ _. now) st s = Some s' \<and>
    (\<forall>n q. fmlookup (rc_cache (ms_HostedCache s')) (cache_key n q) =
       map_option (zone_response now st)
         (List.find (\<lambda>p. rr_Name (st p) = n \<and> rr_Rrtype (st p) = q)
            (rev (zone_records parse files (cfg_ZoneFiles cfg))))) \<and>
    ms_Cache s' = ms_Cache s \<and> ms_connPool s' = ms_connPool s \<and>
    rc_TrashMan (ms_HostedCache s') = rc_TrashMan (ms_HostedCache s)"
  by (rule zones_loaded [OF assms])

end
