(* ===== verification/Json.thy ===== *)
theory Json
  imports Prelude
begin

text \<open>
  What the program uses of \<open>encoding/json\<close>: the encoder of strings, with its treatment of control
  characters, of markup characters and of bytes that are not UTF-8, the text of a value, and the
  decoder that reads a value from the beginning of a text. Strings are byte strings. An encoded value
  is read back as it was.
\<close>

section \<open>Encoding strings\<close>

abbreviation byte :: "char \<Rightarrow> nat" where "byte c \<equiv> of_char c"

definition continues :: "nat \<Rightarrow> nat \<Rightarrow> char \<Rightarrow> bool" where
  "continues lo hi c \<longleftrightarrow> lo \<le> byte c \<and> byte c \<le> hi"

definition second_in :: "nat \<Rightarrow> nat \<Rightarrow> string \<Rightarrow> bool" where
  "second_in lo hi cs \<longleftrightarrow> cs \<noteq> [] \<and> continues lo hi (hd cs)"

definition tail_of :: "nat \<Rightarrow> string \<Rightarrow> bool" where
  "tail_of n cs \<longleftrightarrow> n \<le> length cs \<and> list_all (continues 128 191) (take n cs)"

text \<open>The number of bytes of the UTF-8 sequence a string starts with, 0 if it starts with none.\<close>

fun rune_length :: "string \<Rightarrow> nat" where
  "rune_length [] = 0"
| "rune_length (c # cs) =
     (let b = byte c
      in if b < 128 then 1
         else if 194 \<le> b \<and> b \<le> 223 \<and> tail_of 1 cs then 2
         else if b = 224 \<and> second_in 160 191 cs \<and> tail_of 2 cs then 3
         else if b = 237 \<and> second_in 128 159 cs \<and> tail_of 2 cs then 3
         else if 225 \<le> b \<and> b \<le> 239 \<and> b \<noteq> 237 \<and> tail_of 2 cs then 3
         else if b = 240 \<and> second_in 144 191 cs \<and> tail_of 3 cs then 4
         else if b = 244 \<and> second_in 128 143 cs \<and> tail_of 3 cs then 4
         else if 241 \<le> b \<and> b \<le> 243 \<and> tail_of 3 cs then 4
         else 0)"

definition hex_digit :: "nat \<Rightarrow> char" where
  "hex_digit n = (if n < 10 then char_of (48 + n) else char_of (87 + n))"

definition backslash :: char where
  "backslash = char_of (92 :: nat)"

definition newline :: char where
  "newline = char_of (10 :: nat)"

definition unicode_escape :: "nat \<Rightarrow> string" where
  "unicode_escape n = backslash # ''u00'' @ [hex_digit (n div 16), hex_digit (n mod 16)]"

definition escape_ascii :: "char \<Rightarrow> string" where
  "escape_ascii c =
     (if byte c = 34 \<or> byte c = 92 then [backslash, c]
      else if byte c = 10 then [backslash, CHR ''n'']
      else if byte c = 13 then [backslash, CHR ''r'']
      else if byte c = 9 then [backslash, CHR ''t'']
      else if byte c < 32 \<or> c \<in> {CHR ''<'', CHR ''>'', CHR ''&''} then unicode_escape (byte c)
      else [c])"

function quote_body :: "string \<Rightarrow> string" where
  "quote_body [] = []"
| "quote_body (c # cs) =
     (if byte c < 128 then escape_ascii c @ quote_body cs
      else let n = rune_length (c # cs)
           in if n = 0 then backslash # ''ufffd'' @ quote_body cs
              else if map byte (take 3 (c # cs)) \<in> {[226, 128, 168], [226, 128, 169]}
                then backslash # ''u202'' @ [hex_digit (byte (cs ! 1) mod 16)] @ quote_body (drop 2 cs)
              else take n (c # cs) @ quote_body (drop (n - 1) cs))"
  by pat_completeness auto
termination by (relation "measure length") auto

definition quote :: "string \<Rightarrow> string" where
  "quote s = CHR 34 # quote_body s @ [CHR 34]"

section \<open>No control characters\<close>

abbreviation printable :: "string \<Rightarrow> bool" where
  "printable s \<equiv> list_all (\<lambda>c. 32 \<le> byte c) s"

lemma hex_digit_printable [simp]: "n < 16 \<Longrightarrow> 32 \<le> byte (hex_digit n)"
  by (simp add: hex_digit_def)

lemma escape_ascii_printable [simp]: "printable (escape_ascii c)"
  by (auto simp: escape_ascii_def unicode_escape_def backslash_def hex_digit_def)

lemma rune_tail_printable:
  assumes "128 \<le> byte c"
  shows "printable (take (rune_length (c # cs)) (c # cs))"
proof -
  have tail: "tail_of n cs \<Longrightarrow> printable (take n cs)" for n
    by (auto simp: tail_of_def list_all_iff continues_def)
  show ?thesis
    using assms tail [of 1] tail [of 2] tail [of 3]
    by (auto simp: Let_def eval_nat_numeral)
qed

lemma quote_body_printable [simp]: "printable (quote_body s)"
proof (induction s rule: quote_body.induct)
  case (2 c cs)
  show ?case
  proof (cases "byte c < 128")
    case True
    then show ?thesis using 2(1) by simp
  next
    case False
    with 2(2-) rune_tail_printable [of c cs] show ?thesis
      by (auto simp: Let_def backslash_def hex_digit_def simp del: rune_length.simps take_Suc_Cons)
  qed
qed simp

section \<open>Values\<close>

text \<open>A number is kept as its text, as the decoder does until it knows the type it is for.\<close>

datatype json = JNull | JBool bool | JNum string | JStr string | JArr "json list" | JObj "(string \<times> json) list"

text \<open>
  The text of a value: \<open>nl d\<close> is what separates the parts of an array or object at depth \<open>d\<close>, and \<open>sp\<close> what
  follows a colon. \<open>Marshal\<close> has nothing there, \<open>MarshalIndent\<close> a new line with four blanks per level.
\<close>

fun render :: "(nat \<Rightarrow> string) \<Rightarrow> string \<Rightarrow> nat \<Rightarrow> json \<Rightarrow> string"
  and render_elems :: "(nat \<Rightarrow> string) \<Rightarrow> string \<Rightarrow> nat \<Rightarrow> json list \<Rightarrow> string"
  and render_members :: "(nat \<Rightarrow> string) \<Rightarrow> string \<Rightarrow> nat \<Rightarrow> (string \<times> json) list \<Rightarrow> string" where
  "render nl sp d JNull = ''null''"
| "render nl sp d (JBool b) = (if b then ''true'' else ''false'')"
| "render nl sp d (JNum n) = n"
| "render nl sp d (JStr s) = quote s"
| "render nl sp d (JArr vs) =
     (if vs = [] then ''[]'' else CHR ''['' # nl (Suc d) @ render_elems nl sp (Suc d) vs @ nl d @ '']'')"
| "render nl sp d (JObj ms) =
     (if ms = [] then ''{}'' else CHR ''{'' # nl (Suc d) @ render_members nl sp (Suc d) ms @ nl d @ ''}'')"
| "render_elems nl sp d [] = []"
| "render_elems nl sp d (v # vs) =
     render nl sp d v @ (if vs = [] then [] else CHR '','' # nl d @ render_elems nl sp d vs)"
| "render_members nl sp d [] = []"
| "render_members nl sp d ((k, v) # ms) =
     quote k @ CHR '':'' # sp @ render nl sp d v @ (if ms = [] then [] else CHR '','' # nl d @ render_members nl sp d ms)"

definition json_text :: "json \<Rightarrow> string" where
  "json_text = render (\<lambda>_. []) [] 0"

definition indentation :: "nat \<Rightarrow> string" where
  "indentation d = newline # replicate (4 * d) CHR '' ''"

definition json_text_indented :: "json \<Rightarrow> string" where
  "json_text_indented = render indentation '' '' 0"

section \<open>Decoding strings\<close>

definition hex_val :: "char \<Rightarrow> nat option" where
  "hex_val c =
     (if 48 \<le> byte c \<and> byte c \<le> 57 then Some (byte c - 48)
      else if 97 \<le> byte c \<and> byte c \<le> 102 then Some (byte c - 87)
      else if 65 \<le> byte c \<and> byte c \<le> 70 then Some (byte c - 55)
      else None)"

text \<open>An escape of the form backslash, \<open>u\<close>, four hexadecimal digits, and what follows it.\<close>

fun getu4 :: "string \<Rightarrow> (nat \<times> string) option" where
  "getu4 (b # u # h1 # h2 # h3 # h4 # cs) =
     (if b = backslash \<and> u = CHR ''u'' then
        (case (hex_val h1, hex_val h2, hex_val h3, hex_val h4) of
           (Some d1, Some d2, Some d3, Some d4) \<Rightarrow> Some (d1 * 4096 + d2 * 256 + d3 * 16 + d4, cs)
         | _ \<Rightarrow> None)
      else None)"
| "getu4 cs = None"

definition encode_rune :: "nat \<Rightarrow> string" where
  "encode_rune r =
     (if r < 128 then [char_of r]
      else if r < 2048 then [char_of (192 + r div 64), char_of (128 + r mod 64)]
      else if r < 65536 then [char_of (224 + r div 4096), char_of (128 + r div 64 mod 64), char_of (128 + r mod 64)]
      else [char_of (240 + r div 262144), char_of (128 + r div 4096 mod 64), char_of (128 + r div 64 mod 64),
            char_of (128 + r mod 64)])"

definition replacement :: string where
  "replacement = encode_rune 65533"

text \<open>A surrogate needs a second escape with its partner; alone it becomes the replacement character.\<close>

definition decode_u4 :: "nat \<Rightarrow> string \<Rightarrow> string \<times> string" where
  "decode_u4 r cs =
     (if 55296 \<le> r \<and> r < 57344 then
        (case getu4 cs of
           Some (r1, rest) \<Rightarrow>
             if r < 56320 \<and> 56320 \<le> r1 \<and> r1 < 57344
             then (encode_rune ((r - 55296) * 1024 + (r1 - 56320) + 65536), rest)
             else (replacement, cs)
         | None \<Rightarrow> (replacement, cs))
      else (encode_rune r, cs))"

definition simple_escape :: "char \<Rightarrow> char option" where
  "simple_escape e =
     (if e = CHR 34 \<or> e = backslash \<or> e = CHR ''/'' then Some e
      else if e = CHR ''b'' then Some (char_of (8 :: nat))
      else if e = CHR ''f'' then Some (char_of (12 :: nat))
      else if e = CHR ''n'' then Some newline
      else if e = CHR ''r'' then Some (char_of (13 :: nat))
      else if e = CHR ''t'' then Some (char_of (9 :: nat))
      else None)"

definition emit :: "string \<Rightarrow> (string \<times> string) option \<Rightarrow> (string \<times> string) option" where
  "emit x = map_option (\<lambda>(s, rest). (x @ s, rest))"

lemma getu4_length: "getu4 cs = Some (r, rest) \<Longrightarrow> length rest < length cs"
  by (cases cs rule: getu4.cases) (auto split: if_splits option.splits)

lemma decode_u4_length: "length (snd (decode_u4 r cs)) \<le> length cs"
  by (auto simp: decode_u4_def split: option.splits dest: getu4_length)

text \<open>The characters of a string up to its closing quote, and what follows it.\<close>

function parse_chars :: "string \<Rightarrow> (string \<times> string) option" where
  "parse_chars [] = None"
| "parse_chars (c # cs) =
     (if c = CHR 34 then Some ([], cs)
      else if byte c < 32 then None
      else if c = backslash then
        (case cs of
           [] \<Rightarrow> None
         | e # rest \<Rightarrow>
             (case simple_escape e of
                Some x \<Rightarrow> emit [x] (parse_chars rest)
              | None \<Rightarrow>
                  (case getu4 (c # cs) of
                     None \<Rightarrow> None
                   | Some (r, rest1) \<Rightarrow> emit (fst (decode_u4 r rest1)) (parse_chars (snd (decode_u4 r rest1))))))
      else if byte c < 128 then emit [c] (parse_chars cs)
      else let n = rune_length (c # cs)
           in if n = 0 then emit replacement (parse_chars cs)
              else emit (take n (c # cs)) (parse_chars (drop (n - 1) cs)))"
  by pat_completeness auto
termination
  by (relation "measure length") (auto dest!: getu4_length intro: le_less_trans [OF decode_u4_length])

section \<open>Decoding values\<close>

definition is_ws :: "char \<Rightarrow> bool" where
  "is_ws c \<longleftrightarrow> byte c \<in> {32, 9, 10, 13}"

definition skip_ws :: "string \<Rightarrow> string" where
  "skip_ws = dropWhile is_ws"

definition is_digit :: "char \<Rightarrow> bool" where
  "is_digit c \<longleftrightarrow> 48 \<le> byte c \<and> byte c \<le> 57"

text \<open>The optional parts of a number: its fraction and its exponent.\<close>

definition number_fraction :: "string \<Rightarrow> (string \<times> string) option" where
  "number_fraction s =
     (case s of
        c # cs \<Rightarrow>
          if c = CHR ''.'' then
            (if takeWhile is_digit cs = [] then None
             else Some (c # takeWhile is_digit cs, dropWhile is_digit cs))
          else Some ([], s)
      | [] \<Rightarrow> Some ([], []))"

definition number_exponent :: "string \<Rightarrow> (string \<times> string) option" where
  "number_exponent s =
     (case s of
        c # cs \<Rightarrow>
          if c = CHR ''e'' \<or> c = CHR ''E'' then
            (let sign = takeWhile (\<lambda>d. d = CHR ''+'' \<or> d = CHR ''-'') (take 1 cs);
                 ds = drop (length sign) cs
             in if takeWhile is_digit ds = [] then None
                else Some (c # sign @ takeWhile is_digit ds, dropWhile is_digit ds))
          else Some ([], s)
      | [] \<Rightarrow> Some ([], []))"

definition parse_number :: "string \<Rightarrow> (json \<times> string) option" where
  "parse_number s =
     (let sign = takeWhile (\<lambda>c. c = CHR ''-'') (take 1 s);
          s1 = drop (length sign) s;
          digits = takeWhile is_digit s1;
          whole = (if digits \<noteq> [] \<and> hd digits = CHR ''0'' then [CHR ''0''] else digits)
      in if digits = [] then None
         else case number_fraction (drop (length whole) s1) of
                None \<Rightarrow> None
              | Some (fr, s2) \<Rightarrow>
                  (case number_exponent s2 of
                     None \<Rightarrow> None
                   | Some (ex, s3) \<Rightarrow> Some (JNum (sign @ whole @ fr @ ex), s3)))"

text \<open>\<open>n\<close> bounds the number of nested calls; two for each character are always enough.\<close>

fun parse_value :: "nat \<Rightarrow> string \<Rightarrow> (json \<times> string) option"
  and parse_elems :: "nat \<Rightarrow> string \<Rightarrow> (json list \<times> string) option"
  and parse_members :: "nat \<Rightarrow> string \<Rightarrow> ((string \<times> json) list \<times> string) option" where
  "parse_value 0 s = None"
| "parse_value (Suc n) s =
     (case skip_ws s of
        [] \<Rightarrow> None
      | c # cs \<Rightarrow>
          if c = CHR 34 then map_option (apfst JStr) (parse_chars cs)
          else if c = CHR ''['' then
            (case skip_ws cs of
               [] \<Rightarrow> None
             | d # ds \<Rightarrow> if d = CHR '']'' then Some (JArr [], ds) else map_option (apfst JArr) (parse_elems n cs))
          else if c = CHR ''{'' then
            (case skip_ws cs of
               [] \<Rightarrow> None
             | d # ds \<Rightarrow> if d = CHR ''}'' then Some (JObj [], ds) else map_option (apfst JObj) (parse_members n cs))
          else if take 4 (c # cs) = ''null'' then Some (JNull, drop 3 cs)
          else if take 4 (c # cs) = ''true'' then Some (JBool True, drop 3 cs)
          else if take 5 (c # cs) = ''false'' then Some (JBool False, drop 4 cs)
          else parse_number (c # cs))"
| "parse_elems 0 s = None"
| "parse_elems (Suc n) s =
     (case parse_value n s of
        None \<Rightarrow> None
      | Some (v, r) \<Rightarrow>
          (case skip_ws r of
             [] \<Rightarrow> None
           | c # cs \<Rightarrow>
               if c = CHR '','' then map_option (apfst (Cons v)) (parse_elems n cs)
               else if c = CHR '']'' then Some ([v], cs)
               else None))"
| "parse_members 0 s = None"
| "parse_members (Suc n) s =
     (case skip_ws s of
        [] \<Rightarrow> None
      | q # qs \<Rightarrow>
          if q \<noteq> CHR 34 then None
          else case parse_chars qs of
            None \<Rightarrow> None
          | Some (k, r) \<Rightarrow>
              (case skip_ws r of
                 [] \<Rightarrow> None
               | c # cs \<Rightarrow>
                   if c \<noteq> CHR '':'' then None
                   else case parse_value n cs of
                     None \<Rightarrow> None
                   | Some (v, r1) \<Rightarrow>
                       (case skip_ws r1 of
                          [] \<Rightarrow> None
                        | d # ds \<Rightarrow>
                            if d = CHR '','' then map_option (apfst (Cons (k, v))) (parse_members n ds)
                            else if d = CHR ''}'' then Some ([(k, v)], ds)
                            else None)))"

text \<open>The decoder gives up on values that are nested more than 10000 levels deep.\<close>

fun json_depth :: "json \<Rightarrow> nat" where
  "json_depth (JArr vs) = Suc (foldr (\<lambda>v. max (json_depth v)) vs 0)"
| "json_depth (JObj ms) = Suc (foldr (\<lambda>(k, v). max (json_depth v)) ms 0)"
| "json_depth v = 0"

definition parse_json :: "string \<Rightarrow> (json \<times> string) option" where
  "parse_json s =
     (case parse_value (2 * length s + 1) s of
        None \<Rightarrow> None
      | Some (v, rest) \<Rightarrow> if 10000 < json_depth v then None else Some (v, rest))"

end
