(* ===== verification/JsonRoundtrip.thy ===== *)
theory JsonRoundtrip
  imports Json
begin

text \<open>An encoded value is read back as it was, however it is laid out.\<close>

section \<open>Strings\<close>

text \<open>Strings that are valid UTF-8.\<close>

function utf8 :: "string \<Rightarrow> bool" where
  "utf8 [] = True"
| "utf8 (c # cs) = (rune_length (c # cs) \<noteq> 0 \<and> utf8 (drop (rune_length (c # cs) - 1) cs))"
  by pat_completeness auto
termination by (relation "measure length") auto

lemma rune_length_ascii [simp]: "byte c < 128 \<Longrightarrow> rune_length (c # cs) = 1"
  by simp

lemma utf8_plain: "list_all (\<lambda>c. byte c < 128) s \<Longrightarrow> utf8 s"
  by (induction s) (simp_all del: rune_length.simps)

lemma rune_length_le: "rune_length s \<le> length s"
  by (cases s) (auto simp: Let_def tail_of_def)

lemma rune_length_iff:
  "rune_length (c # cs) = Suc n \<longleftrightarrow>
     byte c < 128 \<and> n = 0 \<or>
     194 \<le> byte c \<and> byte c \<le> 223 \<and> tail_of 1 cs \<and> n = 1 \<or>
     (byte c = 224 \<and> second_in 160 191 cs \<or> byte c = 237 \<and> second_in 128 159 cs \<or>
       225 \<le> byte c \<and> byte c \<le> 239 \<and> byte c \<noteq> 237) \<and> tail_of 2 cs \<and> n = 2 \<or>
     (byte c = 240 \<and> second_in 144 191 cs \<or> byte c = 244 \<and> second_in 128 143 cs \<or>
       241 \<le> byte c \<and> byte c \<le> 243) \<and> tail_of 3 cs \<and> n = 3"
  unfolding rune_length.simps Let_def
  by (auto split: if_split)

lemma tail_of_prefix: "tail_of n cs \<Longrightarrow> tail_of n (take n cs @ x)"
  by (auto simp: tail_of_def)

lemma second_in_prefix: "second_in lo hi cs \<Longrightarrow> 0 < n \<Longrightarrow> second_in lo hi (take n cs @ x)"
  by (cases cs; cases n) (auto simp: second_in_def)

lemma rune_length_prefix:
  assumes "rune_length (c # cs) = Suc n"
  shows "rune_length (c # take n cs @ x) = Suc n"
proof -
  have tail: "tail_of m cs \<Longrightarrow> n = m \<Longrightarrow> tail_of m (take n cs @ x)" for m
    using tail_of_prefix by simp
  have second: "second_in lo hi cs \<Longrightarrow> n = 2 \<or> n = 3 \<Longrightarrow> second_in lo hi (take n cs @ x)" for lo hi
    by (rule second_in_prefix) auto
  show ?thesis
    using assms tail second unfolding rune_length_iff by blast
qed

lemma hex_val_digit [simp]: "n < 16 \<Longrightarrow> hex_val (hex_digit n) = Some n"
  by (auto simp: hex_val_def hex_digit_def)

lemma backslash_eq: "backslash = CHR 0x5C"
  by code_simp

lemma simple_escape_u [simp]: "simple_escape CHR ''u'' = None"
  by (simp add: simple_escape_def backslash_eq)

lemma backslash_props [simp]: "backslash \<noteq> CHR 34" "byte backslash = 92"
  by (simp_all add: backslash_eq)

lemma hex_val_literals [simp]:
  "hex_val CHR ''0'' = Some 0" "hex_val CHR ''2'' = Some 2" "hex_val CHR ''f'' = Some 15" "hex_val CHR ''d'' = Some 13"
  by code_simp+

lemma parse_chars_u4:
  assumes "hex_val h1 = Some d1" "hex_val h2 = Some d2" "hex_val h3 = Some d3" "hex_val h4 = Some d4"
    and "r = d1 * 4096 + d2 * 256 + d3 * 16 + d4" and "r < 55296"
  shows "parse_chars (backslash # CHR ''u'' # h1 # h2 # h3 # h4 # x) = emit (encode_rune r) (parse_chars x)"
  using assms by (simp add: decode_u4_def)

lemma parse_unicode_escape:
  assumes "n < 128"
  shows "parse_chars (unicode_escape n @ x) = emit [char_of n] (parse_chars x)"
proof -
  have "parse_chars (unicode_escape n @ x) = emit (encode_rune n) (parse_chars x)"
    unfolding unicode_escape_def append.simps
    by (rule parse_chars_u4 [where ?d1.0 = 0 and ?d2.0 = 0 and ?d3.0 = "n div 16" and ?d4.0 = "n mod 16"])
       (use assms in simp_all)
  then show ?thesis using assms by (simp add: encode_rune_def)
qed

lemma parse_simple_escape:
  "simple_escape e = Some y \<Longrightarrow> parse_chars (backslash # e # x) = emit [y] (parse_chars x)"
  by simp

lemma parse_plain:
  "c \<noteq> CHR 34 \<Longrightarrow> c \<noteq> backslash \<Longrightarrow> 32 \<le> byte c \<Longrightarrow> byte c < 128 \<Longrightarrow> parse_chars (c # x) = emit [c] (parse_chars x)"
  by simp

lemma byte_eqD: "byte c = n \<Longrightarrow> char_of n = c"
  by auto

lemma simple_escape_literals [simp]:
  "simple_escape (char_of (34 :: nat)) = Some (char_of (34 :: nat))"
  "simple_escape (char_of (92 :: nat)) = Some (char_of (92 :: nat))"
  "simple_escape CHR ''n'' = Some (char_of (10 :: nat))" "simple_escape CHR ''r'' = Some (char_of (13 :: nat))"
  "simple_escape CHR ''t'' = Some (char_of (9 :: nat))"
  by code_simp+

lemma parse_escape_ascii:
  assumes "byte c < 128"
  shows "parse_chars (escape_ascii c @ x) = emit [c] (parse_chars x)"
proof -
  consider "byte c = 34" | "byte c = 92" | "byte c = 10" | "byte c = 13" | "byte c = 9"
    | "byte c \<notin> {34, 92, 10, 13, 9}" "byte c < 32 \<or> c \<in> {CHR ''<'', CHR ''>'', CHR ''&''}"
    | "byte c \<notin> {34, 92, 10, 13, 9}" "32 \<le> byte c" "c \<notin> {CHR ''<'', CHR ''>'', CHR ''&''}"
    by force
  then show ?thesis
  proof cases
    case 7
    then have "c \<noteq> CHR 34" "c \<noteq> backslash" by auto
    with 7 assms show ?thesis by (simp add: escape_ascii_def del: parse_chars.simps add: parse_plain)
  next
    case 6
    with assms show ?thesis by (simp add: escape_ascii_def parse_unicode_escape del: parse_chars.simps)
  qed (drule byte_eqD, force simp: escape_ascii_def parse_simple_escape simp del: parse_chars.simps)+
qed

lemma parse_separator:
  assumes "map byte (take 3 (c # cs)) \<in> {[226, 128, 168], [226, 128, 169]}"
  shows "rune_length (c # cs) = 3"
    and "parse_chars (backslash # ''u202'' @ hex_digit (byte (cs ! 1) mod 16) # x) = emit (c # take 2 cs) (parse_chars x)"
proof -
  obtain c2 c3 cs' where cs: "cs = c2 # c3 # cs'"
    using assms by (cases cs; cases "tl cs") auto
  with assms have b: "byte c = 226" "byte c2 = 128" and b3: "byte c3 = 168 \<or> byte c3 = 169" by auto
  then show "rune_length (c # cs) = 3"
    by (auto simp: cs tail_of_def continues_def eval_nat_numeral)
  have e: "encode_rune (8224 + byte c3 mod 16) = [c, c2, c3]"
    using b3 by (elim disjE) (use b in \<open>auto simp: encode_rune_def dest!: byte_eqD\<close>)
  have "parse_chars (backslash # CHR ''u'' # CHR ''2'' # CHR ''0'' # CHR ''2'' # hex_digit (byte c3 mod 16) # x) =
      emit (encode_rune (8224 + byte c3 mod 16)) (parse_chars x)"
    by (rule parse_chars_u4 [OF hex_val_literals(2,1,2) hex_val_digit]) (use b3 in auto)
  then show "parse_chars (backslash # ''u202'' @ hex_digit (byte (cs ! 1) mod 16) # x) = emit (c # take 2 cs) (parse_chars x)"
    by (simp add: cs e del: parse_chars.simps)
qed

lemma parse_rune:
  assumes "128 \<le> byte c" and "rune_length (c # cs) = Suc n"
  shows "parse_chars (take (Suc n) (c # cs) @ x) = emit (take (Suc n) (c # cs)) (parse_chars x)"
proof -
  have "n \<le> length cs" using rune_length_le [of "c # cs"] assms(2) by simp
  moreover have "c \<noteq> CHR 34" "c \<noteq> backslash" using assms(1) by auto
  ultimately show ?thesis
    using assms rune_length_prefix [OF assms(2), of x] by (simp add: Let_def del: rune_length.simps)
qed

lemma parse_quote_body:
  "utf8 s \<Longrightarrow> parse_chars (quote_body s @ CHR 34 # rest) = Some (s, rest)"
proof (induction s rule: quote_body.induct)
  case (2 c cs)
  show ?case
  proof (cases "byte c < 128")
    case True
    with 2 show ?thesis by (simp add: parse_escape_ascii emit_def del: parse_chars.simps)
  next
    case False
    with 2(5) obtain n where n: "rune_length (c # cs) = Suc n" "utf8 (drop n cs)"
      by (cases "rune_length (c # cs)") (auto simp del: rune_length.simps)
    show ?thesis
    proof (cases "map byte (take 3 (c # cs)) \<in> {[226, 128, 168], [226, 128, 169]}")
      case True
      with parse_separator(1) n have "n = 2" by simp
      with True False n 2 parse_separator(2) [OF True, of "quote_body (drop 2 cs) @ CHR 34 # rest"] show ?thesis
        by (simp add: Let_def emit_def del: parse_chars.simps rune_length.simps)
    next
      case sep: False
      with False n 2 show ?thesis
        using parse_rune [of c cs n "quote_body (drop n cs) @ CHR 34 # rest"]
        by (auto simp: Let_def emit_def simp del: parse_chars.simps rune_length.simps)
    qed
  qed
qed simp

section \<open>Numbers\<close>

definition number :: "string \<Rightarrow> bool" where
  "number n \<longleftrightarrow> parse_number n = Some (JNum n, [])"

text \<open>What may follow a value without becoming a part of it.\<close>

definition separated :: "string \<Rightarrow> bool" where
  "separated rest \<longleftrightarrow> rest = [] \<or> is_ws (hd rest) \<or> hd rest \<in> set '',]}''"

lemma separated_Cons [simp]: "separated (c # cs) \<longleftrightarrow> is_ws c \<or> c \<in> set '',]}''"
  by (simp add: separated_def)

lemma separated_not:
  "separated rest \<Longrightarrow> rest = [] \<or> \<not> is_digit (hd rest) \<and> hd rest \<notin> set ''.eE+-''"
  by (auto simp: separated_def is_ws_def is_digit_def)

lemma digits_append:
  assumes "separated rest"
  shows "takeWhile is_digit (s @ rest) = takeWhile is_digit s" "dropWhile is_digit (s @ rest) = dropWhile is_digit s @ rest"
proof -
  have "takeWhile is_digit rest = []" "dropWhile is_digit rest = rest"
    using separated_not [OF assms] by (cases rest; auto)+
  then show "takeWhile is_digit (s @ rest) = takeWhile is_digit s" "dropWhile is_digit (s @ rest) = dropWhile is_digit s @ rest"
    by (induction s) auto
qed

lemma number_fraction_append:
  "number_fraction s = Some (f, s1) \<Longrightarrow> separated rest \<Longrightarrow> number_fraction (s @ rest) = Some (f, s1 @ rest)"
  by (cases s; cases rest) (auto simp: number_fraction_def digits_append is_ws_def split: if_splits)

lemma number_exponent_append:
  assumes "number_exponent s = Some (x, s1)" and "separated rest"
  shows "number_exponent (s @ rest) = Some (x, s1 @ rest)"
proof (cases s)
  case Nil
  with assms show ?thesis
    by (cases rest) (auto simp: number_exponent_def is_ws_def)
next
  case (Cons c cs)
  show ?thesis
  proof (cases "c = CHR ''e'' \<or> c = CHR ''E''")
    case True
    with assms Cons have "cs \<noteq> []" by (auto simp: number_exponent_def Let_def)
    then have "take 1 (cs @ rest) = take 1 cs" by (cases cs) auto
    moreover have "length (takeWhile (\<lambda>d. d = CHR ''+'' \<or> d = CHR ''-'') (take 1 cs)) \<le> length cs"
      using length_takeWhile_le [of _ "take 1 cs"] by (simp add: order_trans)
    ultimately show ?thesis
      using assms Cons True by (auto simp: number_exponent_def Let_def digits_append split: if_splits)
  next
    case False
    with assms Cons show ?thesis by (auto simp: number_exponent_def)
  qed
qed

lemma parse_number_append:
  assumes "parse_number s = Some (v, s3)" and "separated rest"
  shows "parse_number (s @ rest) = Some (v, s3 @ rest)"
proof -
  define sign where "sign = takeWhile (\<lambda>c. c = CHR ''-'') (take 1 s)"
  define s1 where "s1 = drop (length sign) s"
  define digits where "digits = takeWhile is_digit s1"
  define whole where "whole = (if digits \<noteq> [] \<and> hd digits = CHR ''0'' then [CHR ''0''] else digits)"
  have parse: "parse_number s = (if digits = [] then None else case number_fraction (drop (length whole) s1) of None \<Rightarrow> None
      | Some (fr, s2) \<Rightarrow> (case number_exponent s2 of None \<Rightarrow> None
          | Some (ex, s3) \<Rightarrow> Some (JNum (sign @ whole @ fr @ ex), s3)))"
    unfolding parse_number_def Let_def sign_def s1_def digits_def whole_def by (rule refl)
  then have digits: "digits \<noteq> []" using assms(1) by auto
  have ne: "s \<noteq> []" using digits by (auto simp: digits_def s1_def)
  then have take1: "take 1 (s @ rest) = take 1 s" by (cases s) auto
  have "length sign \<le> length s"
    using length_takeWhile_le [of _ "take 1 s"] ne by (simp add: sign_def order_trans)
  then have drop1: "drop (length sign) (s @ rest) = s1 @ rest" by (simp add: s1_def)
  have "length whole \<le> length s1"
    using length_takeWhile_le [of is_digit s1] digits
    by (auto simp: whole_def digits_def Suc_le_eq dest: takeWhile_eq_Nil_iff [THEN iffD1])
  then have "drop (length whole) (s1 @ rest) = drop (length whole) s1 @ rest" by simp
  moreover obtain fr s2 ex where "number_fraction (drop (length whole) s1) = Some (fr, s2)"
      "number_exponent s2 = Some (ex, s3)" "v = JNum (sign @ whole @ fr @ ex)"
    using assms(1) digits unfolding parse by (auto split: option.splits)
  ultimately show ?thesis
    unfolding parse_number_def Let_def take1 sign_def [symmetric] drop1 digits_append(1) [OF assms(2)]
      digits_def [symmetric] whole_def [symmetric]
    using digits by (simp add: number_fraction_append number_exponent_append assms(2))
qed

lemma number_head:
  assumes "number n"
  shows "\<exists>c cs. n = c # cs \<and> (c = CHR ''-'' \<or> is_digit c)"
proof -
  obtain c cs where n: "n = c # cs" using assms by (cases n) (auto simp: number_def parse_number_def)
  moreover have "c = CHR ''-'' \<or> is_digit c"
    using assms by (cases "c = CHR ''-''") (auto simp: n number_def parse_number_def Let_def split: if_splits)
  ultimately show ?thesis by blast
qed

section \<open>Values\<close>

fun json_ok :: "json \<Rightarrow> bool" where
  "json_ok (JNum n) = number n"
| "json_ok (JStr s) = utf8 s"
| "json_ok (JArr vs) = list_all json_ok vs"
| "json_ok (JObj ms) = list_all (\<lambda>(k, v). utf8 k \<and> json_ok v) ms"
| "json_ok _ = True"

definition blank :: "string \<Rightarrow> bool" where
  "blank s = list_all is_ws s"

lemma skip_blank [simp]: "blank s \<Longrightarrow> skip_ws (s @ x) = skip_ws x"
  by (induction s) (auto simp: blank_def skip_ws_def)

lemma skip_ws_Cons [simp]: "\<not> is_ws c \<Longrightarrow> skip_ws (c # cs) = c # cs"
  by (simp add: skip_ws_def)

lemma separated_blank [simp]: "blank s \<Longrightarrow> separated x \<Longrightarrow> separated (s @ x)"
  by (cases s) (auto simp: blank_def)

lemma parse_blank [simp]:
  assumes "blank b"
  shows "parse_value n (b @ x) = parse_value n x" "parse_elems n (b @ x) = parse_elems n x"
    "parse_members n (b @ x) = parse_members n x"
proof -
  show val: "parse_value n (b @ x) = parse_value n x" for n
    using assms by (cases n) simp_all
  show "parse_elems n (b @ x) = parse_elems n x"
    by (cases n) (simp_all add: val)
  show "parse_members n (b @ x) = parse_members n x"
    using assms by (cases n) simp_all
qed

lemma render_head:
  assumes "json_ok v"
  shows "\<exists>c cs. render nl sp d v = c # cs \<and> \<not> is_ws c \<and> c \<noteq> CHR '']'' \<and> c \<noteq> CHR ''}''"
  using assms
proof (cases v)
  case (JNum n)
  with assms obtain c cs where n: "n = c # cs" "c = CHR ''-'' \<or> is_digit c"
    using number_head [of n] by auto
  then have "\<not> is_ws c" "c \<noteq> CHR '']''" "c \<noteq> CHR ''}''" by (auto simp: is_ws_def is_digit_def)
  with JNum n(1) show ?thesis by simp
next
  case (JBool b)
  then show ?thesis by (cases b) (simp_all add: is_ws_def)
qed (simp_all add: quote_def is_ws_def)

lemma parse_number_value:
  assumes "number t" and "separated rest" and "length t \<le> n"
  shows "parse_value n (t @ rest) = Some (JNum t, rest)"
proof -
  obtain c cs where t: "t = c # cs" "c = CHR ''-'' \<or> is_digit c"
    using number_head [OF assms(1)] by blast
  then obtain m where n: "n = Suc m" using assms(3) by (cases n) auto
  have "c \<notin> {CHR 34, CHR ''['', CHR ''{'', CHR ''n'', CHR ''t'', CHR ''f''}" "\<not> is_ws c"
    using t(2) by (auto simp: is_digit_def is_ws_def)
  then have "parse_value n (t @ rest) = parse_number (t @ rest)"
    by (simp add: n t(1))
  with assms parse_number_append show ?thesis by (simp add: number_def)
qed

lemma parse_quote [simp]:
  "utf8 s \<Longrightarrow> parse_chars (quote_body s @ CHR 34 # rest) = Some (s, rest)"
  by (rule parse_quote_body)

lemma quote_append: "quote s @ x = CHR 34 # quote_body s @ CHR 34 # x"
  by (simp add: quote_def)

lemma punctuation_not_ws [simp]:
  "\<not> is_ws CHR 34" "\<not> is_ws CHR '',''" "\<not> is_ws CHR '':''" "\<not> is_ws CHR ''[''" "\<not> is_ws CHR '']''"
  "\<not> is_ws CHR ''{''" "\<not> is_ws CHR ''}''"
  by (simp_all add: is_ws_def)

lemma parse_members_step:
  assumes "utf8 k" and "parse_value n x = Some (v, r)" and "skip_ws r = c # cs"
  shows "parse_members (Suc n) (quote k @ CHR '':'' # x) =
    (if c = CHR '','' then map_option (apfst (Cons (k, v))) (parse_members n cs)
     else if c = CHR ''}'' then Some ([(k, v)], cs) else None)"
  using assms by (simp add: quote_append del: parse_value.simps)

lemma parse_elems_step:
  assumes "parse_value n x = Some (v, r)" and "skip_ws r = c # cs"
  shows "parse_elems (Suc n) x =
    (if c = CHR '','' then map_option (apfst (Cons v)) (parse_elems n cs)
     else if c = CHR '']'' then Some ([v], cs) else None)"
  using assms by simp

lemma elems_head:
  assumes "list_all json_ok vs" and "vs \<noteq> []"
  shows "\<exists>c cs. render_elems nl sp d vs = c # cs \<and> \<not> is_ws c \<and> c \<noteq> CHR '']''"
  using assms render_head [of "hd vs" nl sp d] by (cases vs) auto

lemma members_head: "ms \<noteq> [] \<Longrightarrow> \<exists>cs. render_members nl sp d ms = CHR 34 # cs"
  by (cases ms) (auto simp: quote_def)

lemma parse_render_all:
  assumes nl: "\<And>d. blank (nl d)" and sp: "blank sp"
  shows "json_ok v \<Longrightarrow> length (render nl sp d v) \<le> n \<Longrightarrow> separated rest \<Longrightarrow>
      parse_value n (render nl sp d v @ rest) = Some (v, rest)"
    and "list_all json_ok vs \<Longrightarrow> vs \<noteq> [] \<Longrightarrow> length (render_elems nl sp d vs) < n \<Longrightarrow> blank b \<Longrightarrow>
      parse_elems n (render_elems nl sp d vs @ b @ CHR '']'' # rest) = Some (vs, rest)"
    and "list_all (\<lambda>(k, v). utf8 k \<and> json_ok v) ms \<Longrightarrow> ms \<noteq> [] \<Longrightarrow> length (render_members nl sp d ms) < n \<Longrightarrow>
      blank b \<Longrightarrow> parse_members n (render_members nl sp d ms @ b @ CHR ''}'' # rest) = Some (ms, rest)"
  using nl sp
proof (induction nl sp d v and nl sp d vs and nl sp d ms
    arbitrary: n rest and n b rest and n b rest rule: render_render_elems_render_members.induct)
  case (3 nl sp d t)
  then show ?case by (simp add: parse_number_value)
next
  case (5 nl sp d vs)
  show ?case
  proof (cases "vs = []")
    case True
    then show ?thesis using 5(3) by (cases n) simp_all
  next
    case False
    with 5(3) obtain m where n: "n = Suc m" "length (render_elems nl sp (Suc d) vs) < m"
      by (cases n) auto
    have "list_all json_ok vs" using 5(2) by simp
    with elems_head [OF this False, of nl sp "Suc d"] False n 5 show ?thesis
      by (auto simp del: parse_elems.simps)
  qed
next
  case (6 nl sp d ms)
  show ?case
  proof (cases "ms = []")
    case True
    then show ?thesis using 6(3) by (cases n) simp_all
  next
    case False
    with 6(3) obtain m where n: "n = Suc m" "length (render_members nl sp (Suc d) ms) < m"
      by (cases n) auto
    have "list_all (\<lambda>(k, v). utf8 k \<and> json_ok v) ms" using 6(2) by simp
    with members_head [OF False, of nl sp "Suc d"] False n 6 show ?thesis
      by (auto simp del: parse_members.simps)
  qed
next
  case (8 nl sp d v vs)
  then obtain m where n: "n = Suc m" by (cases n) auto
  show ?case
  proof (cases "vs = []")
    case True
    with 8 n show ?thesis
      by (subst n, subst parse_elems_step [where v = v and c = "CHR '']''" and cs = rest]) auto
  next
    case False
    with 8 n show ?thesis
      by (subst n, subst parse_elems_step [where v = v and c = "CHR '',''"
            and cs = "nl d @ render_elems nl sp d vs @ b @ CHR '']'' # rest"]) auto
  qed
next
  case (10 nl sp d k v ms)
  then obtain m where n: "n = Suc m" by (cases n) auto
  show ?case
  proof (cases "ms = []")
    case True
    with 10 n show ?thesis
      by (simp del: parse_members.simps, subst parse_members_step [where v = v and c = "CHR ''}''" and cs = rest]) auto
  next
    case False
    with 10 n show ?thesis
      by (simp del: parse_members.simps, subst parse_members_step [where v = v and c = "CHR '',''"
            and cs = "nl d @ render_members nl sp d ms @ b @ CHR ''}'' # rest"]) auto
  qed
next
  case (1 nl sp d)
  then show ?case by (cases n) (simp_all add: is_ws_def)
next
  case (2 nl sp d b)
  then show ?case by (cases n; cases b) (simp_all add: is_ws_def)
next
  case (4 nl sp d s)
  then show ?case by (cases n) (simp_all add: quote_append quote_def)
qed simp_all

lemma blank_layouts [simp]: "blank (indentation d)" "blank []" "blank '' ''"
  by (auto simp: blank_def indentation_def newline_def is_ws_def list_all_iff)

lemma parse_json_render:
  assumes "\<And>d. blank (nl d)" "blank sp" "json_ok v" "json_depth v \<le> 10000" "separated rest"
  shows "parse_json (render nl sp d v @ rest) = Some (v, rest)"
proof -
  have "parse_value (2 * length (render nl sp d v @ rest) + 1) (render nl sp d v @ rest) = Some (v, rest)"
    by (rule parse_render_all(1) [OF assms(1,2,3) _ assms(5)]) simp
  with assms(4) show ?thesis by (simp add: parse_json_def del: parse_value.simps)
qed

section \<open>Encodings\<close>

text \<open>
  What the rest of the program needs of an encoding: a value is read back from its text, up to where the
  text ends, whatever follows.
\<close>

locale codec =
  fixes ok :: "'a \<Rightarrow> bool" and ends :: "string \<Rightarrow> bool"
    and encode :: "'a \<Rightarrow> string" and decode :: "string \<Rightarrow> ('a \<times> string) option"
  assumes reads_back: "ok v \<Longrightarrow> ends rest \<Longrightarrow> decode (encode v @ rest) = Some (v, rest)"
    and ends_Nil: "ends []"
begin

lemma reads_all: "ok v \<Longrightarrow> decode (encode v) = Some (v, [])"
  using reads_back [of v "[]", OF _ ends_Nil] by (simp only: append_Nil2)

lemma encode_prefix_free:
  assumes "encode v @ rest = encode w @ rest'" and "ok v" "ok w" "ends rest" "ends rest'"
  shows "v = w \<and> rest = rest'"
proof -
  from reads_back [OF assms(2,4)] reads_back [OF assms(3,5)]
  have "Some (v, rest) = Some (w, rest')" by (simp only: assms(1))
  then show ?thesis by blast
qed

lemma encode_inject: "ok v \<Longrightarrow> ok w \<Longrightarrow> encode v = encode w \<longleftrightarrow> v = w"
  using encode_prefix_free [of v "[]" w "[]", OF _ _ _ ends_Nil ends_Nil] by metis

end

text \<open>Values that Go decodes: valid strings and numbers, and not nested too deep.\<close>

definition decodable :: "json \<Rightarrow> bool" where
  "decodable v \<longleftrightarrow> json_ok v \<and> json_depth v \<le> 10000"

lemma parse_json_text:
  assumes "decodable v" "separated rest"
  shows "parse_json (json_text v @ rest) = Some (v, rest)"
    and "parse_json (json_text_indented v @ rest) = Some (v, rest)"
proof -
  from assms(1) have "json_ok v" "json_depth v \<le> 10000" unfolding decodable_def by blast+
  note parse = parse_json_render [OF _ _ this assms(2)]
  show "parse_json (json_text v @ rest) = Some (v, rest)"
    unfolding json_text_def by (rule parse) (rule blank_layouts)+
  show "parse_json (json_text_indented v @ rest) = Some (v, rest)"
    unfolding json_text_indented_def by (rule parse) (rule blank_layouts)+
qed

lemma separated_Nil: "separated []"
  by (simp add: separated_def)

interpretation compact: codec decodable separated json_text parse_json
  using parse_json_text(1) separated_Nil by (rule codec.intro)

interpretation indented: codec decodable separated json_text_indented parse_json
  using parse_json_text(2) separated_Nil by (rule codec.intro)

section \<open>What the decoder returns\<close>

text \<open>Every string of a decoded value is valid UTF-8, whatever the text was.\<close>

lemma utf8_Cons_iff: "utf8 (c # cs) \<longleftrightarrow> (\<exists>n. rune_length (c # cs) = Suc n \<and> n \<le> length cs \<and> utf8 (drop n cs))"
  using rune_length_le [of "c # cs"] by (cases "rune_length (c # cs)") (simp_all del: rune_length.simps)

lemma utf8_append: "utf8 x \<Longrightarrow> utf8 y \<Longrightarrow> utf8 (x @ y)"
proof (induction x rule: utf8.induct)
  case (2 c cs)
  obtain n where n: "rune_length (c # cs) = Suc n" "n \<le> length cs" "utf8 (drop n cs)"
    using 2(2) utf8_Cons_iff [of c cs] by blast
  have "rune_length (c # cs @ y) = Suc n"
    using rune_length_prefix [OF n(1), of "drop n cs @ y"] by (simp del: rune_length.simps flip: append_assoc)
  moreover have "utf8 (drop n cs @ y)" using 2 n by (simp del: rune_length.simps)
  ultimately show ?case using n(2) by (simp del: rune_length.simps)
qed simp

lemma utf8_ascii [simp]: "byte c < 128 \<Longrightarrow> utf8 [c]"
  by simp

lemma utf8_rune:
  assumes "rune_length (c # cs) = Suc n"
  shows "utf8 (c # take n cs)"
proof -
  have "rune_length (c # take n cs) = Suc n" using rune_length_prefix [OF assms, of "[]"] by simp
  then show ?thesis by (simp del: rune_length.simps)
qed

lemma utf8_two:
  fixes b1 b2 :: nat
  assumes "194 \<le> b1" "b1 \<le> 223" "128 \<le> b2" "b2 \<le> 191"
  shows "utf8 [char_of b1, char_of b2]"
proof -
  have "rune_length (char_of b1 # [char_of b2]) = Suc 1"
    unfolding rune_length_iff using assms by (simp add: tail_of_def continues_def)
  from utf8_rune [OF this] show ?thesis by simp
qed

lemma utf8_three:
  fixes b1 b2 b3 :: nat
  assumes "b1 = 224 \<and> 160 \<le> b2 \<or> b1 = 237 \<and> b2 \<le> 159 \<or> 225 \<le> b1 \<and> b1 \<le> 239 \<and> b1 \<noteq> 237"
    and "128 \<le> b2" "b2 \<le> 191" "128 \<le> b3" "b3 \<le> 191"
  shows "utf8 [char_of b1, char_of b2, char_of b3]"
proof -
  have "rune_length (char_of b1 # [char_of b2, char_of b3]) = Suc 2"
    unfolding rune_length_iff using assms
    by (elim disjE conjE) (simp_all add: tail_of_def second_in_def continues_def)
  from utf8_rune [OF this] show ?thesis by simp
qed

lemma utf8_four:
  fixes b1 b2 b3 b4 :: nat
  assumes "b1 = 240 \<and> 144 \<le> b2 \<or> b1 = 244 \<and> b2 \<le> 143 \<or> 241 \<le> b1 \<and> b1 \<le> 243"
    and "128 \<le> b2" "b2 \<le> 191" "128 \<le> b3" "b3 \<le> 191" "128 \<le> b4" "b4 \<le> 191"
  shows "utf8 [char_of b1, char_of b2, char_of b3, char_of b4]"
proof -
  have "rune_length (char_of b1 # [char_of b2, char_of b3, char_of b4]) = Suc 3"
    unfolding rune_length_iff using assms
    by (elim disjE conjE) (simp_all add: tail_of_def second_in_def continues_def)
  from utf8_rune [OF this] show ?thesis by simp
qed

lemma utf8_encode_rune:
  assumes "r < 55296 \<or> 57344 \<le> r" and "r < 1114112"
  shows "utf8 (encode_rune r)"
proof -
  have low: "m mod 64 \<le> 63" for m :: nat using mod_less_divisor [of 64 m] by linarith
  consider "r < 128" | "128 \<le> r" "r < 2048" | "2048 \<le> r" "r < 65536" | "65536 \<le> r" by linarith
  then show ?thesis
  proof cases
    case 1
    then show ?thesis by (simp add: encode_rune_def)
  next
    case 2
    then have "194 \<le> 192 + r div 64" "192 + r div 64 \<le> 223" by linarith+
    then show ?thesis using 2 low [of r] by (simp add: encode_rune_def utf8_two del: utf8.simps)
  next
    case 3
    have "r div 64 = 64 * (r div 4096) + r div 64 mod 64"
      using div_mult2_eq [of r 64 64] div_mult_mod_eq [of "r div 64" 64] by simp
    with 3 assms low [of "r div 64"] have "224 + r div 4096 = 224 \<and> 160 \<le> 128 + r div 64 mod 64 \<or>
        224 + r div 4096 = 237 \<and> 128 + r div 64 mod 64 \<le> 159 \<or>
        225 \<le> 224 + r div 4096 \<and> 224 + r div 4096 \<le> 239 \<and> 224 + r div 4096 \<noteq> 237" by arith
    from utf8_three [OF this] show ?thesis using 3 low [of r] low [of "r div 64"] by (simp add: encode_rune_def del: utf8.simps)
  next
    case 4
    have "r div 4096 = 64 * (r div 262144) + r div 4096 mod 64"
      using div_mult2_eq [of r 4096 64] div_mult_mod_eq [of "r div 4096" 64] by simp
    with 4 assms low [of "r div 4096"] have "240 + r div 262144 = 240 \<and> 144 \<le> 128 + r div 4096 mod 64 \<or>
        240 + r div 262144 = 244 \<and> 128 + r div 4096 mod 64 \<le> 143 \<or>
        241 \<le> 240 + r div 262144 \<and> 240 + r div 262144 \<le> 243" by arith
    from utf8_four [OF this] show ?thesis
      using 4 low [of r] low [of "r div 64"] low [of "r div 4096"] by (simp add: encode_rune_def del: utf8.simps)
  qed
qed

lemma hex_val_bound: "hex_val c = Some d \<Longrightarrow> d < 16"
  by (auto simp: hex_val_def split: if_splits)

lemma getu4_bound: "getu4 cs = Some (r, rest) \<Longrightarrow> r < 65536"
  by (cases cs rule: getu4.cases) (force split: if_splits option.splits dest: hex_val_bound)+

lemma utf8_decode_u4: "r < 65536 \<Longrightarrow> utf8 (fst (decode_u4 r cs))"
  by (auto simp: decode_u4_def replacement_def split: option.split intro!: utf8_encode_rune dest: getu4_bound)

lemma emit_SomeD: "emit x p = Some (t, r) \<Longrightarrow> \<exists>t1. p = Some (t1, r) \<and> t = x @ t1"
  by (auto simp: emit_def)

lemma simple_escape_ascii: "simple_escape e = Some x \<Longrightarrow> byte x < 128"
  by (auto simp: simple_escape_def newline_def split: if_splits)

lemma utf8_emit:
  assumes "emit x p = Some (t, r)" and "utf8 x" and "\<And>t1 r1. p = Some (t1, r1) \<Longrightarrow> utf8 t1"
  shows "utf8 t"
  using assms by (auto dest!: emit_SomeD intro: utf8_append)

lemma parse_chars_utf8: "parse_chars s = Some (t, r) \<Longrightarrow> utf8 t"
proof (induction s arbitrary: t r rule: parse_chars.induct)
  case (2 c cs)
  note IH = "2.IH" and parsed = "2.prems"
  consider "c = CHR 34" | "byte c < 32" "c \<noteq> CHR 34" | "c = backslash"
    | "c \<noteq> CHR 34" "32 \<le> byte c" "c \<noteq> backslash" "byte c < 128" | "128 \<le> byte c" by linarith
  then show ?case
  proof cases
    case 1
    with parsed show ?thesis by simp
  next
    case 2
    with parsed show ?thesis by simp
  next
    case 3
    then obtain e rest where cs: "cs = e # rest" using parsed by (cases cs) auto
    show ?thesis
    proof (cases "simple_escape e")
      case None
      with 3 cs parsed obtain k rest1 where k: "getu4 (c # cs) = Some (k, rest1)"
        "emit (fst (decode_u4 k rest1)) (parse_chars (snd (decode_u4 k rest1))) = Some (t, r)"
        by (auto split: option.splits simp del: getu4.simps)
      show ?thesis
        by (rule utf8_emit [OF k(2) utf8_decode_u4 [OF getu4_bound [OF k(1)]]])
           (use 3 IH(1) [OF _ _ _ cs None k(1) refl] in auto)
    next
      case (Some x)
      with 3 cs parsed have "emit [x] (parse_chars rest) = Some (t, r)" by simp
      then show ?thesis
        by (rule utf8_emit [OF _ utf8_ascii [OF simple_escape_ascii [OF Some]]])
          (use 3 IH(2) [OF _ _ _ cs Some] in auto)
    qed
  next
    case 4
    with parsed have "emit [c] (parse_chars cs) = Some (t, r)" by simp
    then show ?thesis by (rule utf8_emit [OF _ utf8_ascii [OF 4(4)]]) (use 4 IH(3) in auto)
  next
    case 5
    then have c: "c \<noteq> CHR 34" "\<not> byte c < 32" "c \<noteq> backslash" "\<not> byte c < 128" by auto
    show ?thesis
    proof (cases "rune_length (c # cs)")
      case 0
      with c parsed have "emit replacement (parse_chars cs) = Some (t, r)" by (simp del: rune_length.simps)
      then show ?thesis
        by (rule utf8_emit) (simp add: replacement_def utf8_encode_rune del: utf8.simps, use IH(4) [OF c refl 0] in auto)
    next
      case (Suc n)
      with c parsed have "emit (c # take n cs) (parse_chars (drop n cs)) = Some (t, r)"
        by (simp add: Let_def del: rune_length.simps)
      then show ?thesis
        by (rule utf8_emit [OF _ utf8_rune [OF Suc]]) (use IH(5) [OF c refl] Suc in auto)
    qed
  qed
qed simp

fun strings_ok :: "json \<Rightarrow> bool" where
  "strings_ok (JStr s) = utf8 s"
| "strings_ok (JArr vs) = list_all strings_ok vs"
| "strings_ok (JObj ms) = list_all (\<lambda>(k, v). utf8 k \<and> strings_ok v) ms"
| "strings_ok _ = True"

lemma parse_number_JNum: "parse_number s = Some (v, r) \<Longrightarrow> \<exists>t. v = JNum t"
  by (auto simp: parse_number_def Let_def split: if_splits option.splits)

lemma parse_value_strings:
  "parse_value n s = Some (v, r) \<Longrightarrow> strings_ok v"
  "parse_elems n s = Some (vs, r) \<Longrightarrow> list_all strings_ok vs"
  "parse_members n s = Some (ms, r) \<Longrightarrow> list_all (\<lambda>(k, v). utf8 k \<and> strings_ok v) ms"
proof (induction n s and n s and n s arbitrary: v r and vs r and ms r rule: parse_value_parse_elems_parse_members.induct)
  case (2 n s)
  then show ?case
    by (auto split: list.splits if_splits dest: parse_chars_utf8 parse_number_JNum)
next
  case (4 n s)
  then show ?case
    by (fastforce split: option.splits list.splits if_splits)
next
  case (6 n s)
  then show ?case
    by (fastforce split: option.splits list.splits if_splits dest: parse_chars_utf8)
qed simp_all

lemma parse_json_strings: "parse_json s = Some (v, r) \<Longrightarrow> strings_ok v"
  by (auto simp: parse_json_def split: option.splits if_splits simp del: parse_value.simps dest: parse_value_strings)

section \<open>The bound on nested calls is enough\<close>

text \<open>Every part of the decoder consumes what it returns.\<close>

lemma parse_chars_consumes: "parse_chars s = Some (t, r) \<Longrightarrow> length r < length s"
proof (induction s arbitrary: t r rule: parse_chars.induct)
  case (2 c cs)
  note IH = "2.IH" and parsed = "2.prems"
  consider "c = CHR 34" | "byte c < 32" "c \<noteq> CHR 34" | "c = backslash"
    | "c \<noteq> CHR 34" "32 \<le> byte c" "c \<noteq> backslash" "byte c < 128" | "128 \<le> byte c" by linarith
  then show ?case
  proof cases
    case 3
    then obtain e rest where cs: "cs = e # rest" using parsed by (cases cs) auto
    show ?thesis
    proof (cases "simple_escape e")
      case None
      with 3 cs parsed obtain k rest1 t1 where k: "getu4 (c # cs) = Some (k, rest1)"
        "parse_chars (snd (decode_u4 k rest1)) = Some (t1, r)"
        by (auto split: option.splits simp del: getu4.simps dest!: emit_SomeD)
      then have "length r < length (snd (decode_u4 k rest1))"
        using 3 IH(1) [OF _ _ _ cs None k(1) refl] by auto
      with decode_u4_length [of k rest1] getu4_length [OF k(1)] show ?thesis by simp
    next
      case (Some x)
      with 3 cs parsed IH(2) [OF _ _ _ cs Some] show ?thesis by (fastforce dest!: emit_SomeD)
    qed
  next
    case 4
    with parsed IH(3) show ?thesis by (fastforce dest!: emit_SomeD)
  next
    case 5
    then have c: "c \<noteq> CHR 34" "\<not> byte c < 32" "c \<noteq> backslash" "\<not> byte c < 128" by auto
    show ?thesis
    proof (cases "rune_length (c # cs)")
      case 0
      with c parsed IH(4) [OF c refl 0] show ?thesis by (fastforce dest!: emit_SomeD simp del: rune_length.simps)
    next
      case (Suc n)
      with c parsed IH(5) [OF c refl] show ?thesis
        by (fastforce simp: Let_def dest!: emit_SomeD simp del: rune_length.simps)
    qed
  qed (use parsed in auto)
qed simp

lemma skip_ws_length: "length (skip_ws s) \<le> length s"
  by (simp add: skip_ws_def length_dropWhile_le)

lemma skip_ws_Cons_length: "skip_ws s = c # cs \<Longrightarrow> length cs < length s"
  using skip_ws_length [of s] by simp

lemma number_parts_length:
  "number_fraction s = Some (f, r) \<Longrightarrow> length r \<le> length s"
  "number_exponent s = Some (f, r) \<Longrightarrow> length r \<le> length s"
  by (auto simp: number_fraction_def number_exponent_def Let_def split: list.splits if_splits
      intro: le_trans [OF length_dropWhile_le] le_SucI)

lemma parse_number_consumes: "parse_number s = Some (v, r) \<Longrightarrow> length r < length s"
proof -
  assume parsed: "parse_number s = Some (v, r)"
  define s1 where "s1 = drop (length (takeWhile (\<lambda>c. c = CHR ''-'') (take 1 s))) s"
  define digits where "digits = takeWhile is_digit s1"
  define whole where "whole = (if digits \<noteq> [] \<and> hd digits = CHR ''0'' then [CHR ''0''] else digits)"
  obtain f s2 x where parts: "digits \<noteq> []" "number_fraction (drop (length whole) s1) = Some (f, s2)"
      "number_exponent s2 = Some (x, r)"
    using parsed unfolding parse_number_def Let_def s1_def [symmetric] digits_def [symmetric] whole_def [symmetric]
    by (auto split: if_splits option.splits)
  have "whole \<noteq> []" using parts(1) by (simp add: whole_def)
  moreover have "s1 \<noteq> []" using parts(1) by (auto simp: digits_def)
  ultimately have "length (drop (length whole) s1) < length s1" by simp
  with number_parts_length(1) [OF parts(2)] number_parts_length(2) [OF parts(3)] show ?thesis
    by (simp add: s1_def)
qed

lemma parse_value_consumes:
  "parse_value n s = Some (v, r) \<Longrightarrow> length r < length s"
  "parse_elems n s = Some (vs, r) \<Longrightarrow> length r < length s"
  "parse_members n s = Some (ms, r) \<Longrightarrow> length r < length s"
proof (induction n s and n s and n s arbitrary: v r and vs r and ms r rule: parse_value_parse_elems_parse_members.induct)
  case (2 n s)
  then show ?case
    by (fastforce split: list.splits if_splits dest: parse_chars_consumes parse_number_consumes skip_ws_Cons_length)
next
  case (4 n s)
  then show ?case
    by (fastforce split: option.splits list.splits if_splits dest: skip_ws_Cons_length)
next
  case (6 n s)
  then show ?case
    by (fastforce split: option.splits list.splits if_splits dest: parse_chars_consumes skip_ws_Cons_length)
qed simp_all

lemma parse_fuel_step:
  "(2 * length s + 1 \<le> n \<longrightarrow> parse_value (Suc n) s = parse_value n s) \<and>
   (2 * length s + 2 \<le> n \<longrightarrow> parse_elems (Suc n) s = parse_elems n s) \<and>
   (2 * length s + 2 \<le> n \<longrightarrow> parse_members (Suc n) s = parse_members n s)"
proof (induction n arbitrary: s)
  case (Suc n)
  have val: "parse_value (Suc n) t = parse_value n t" if "2 * length t + 1 \<le> n" for t
    using Suc that by blast
  have elems: "parse_elems (Suc n) t = parse_elems n t" if "2 * length t + 2 \<le> n" for t
    using Suc that by blast
  have members: "parse_members (Suc n) t = parse_members n t" if "2 * length t + 2 \<le> n" for t
    using Suc that by blast
  have "parse_value (Suc (Suc n)) s = parse_value (Suc n) s" if "2 * length s + 1 \<le> Suc n"
  proof (cases "skip_ws s")
    case (Cons c cs)
    from skip_ws_Cons_length [OF this] that have "2 * length cs + 2 \<le> n" by simp
    with Cons elems [of cs] members [of cs] show ?thesis
      by (simp del: parse_elems.simps parse_members.simps split: list.split)
  qed simp
  moreover have "parse_elems (Suc (Suc n)) s = parse_elems (Suc n) s" if "2 * length s + 2 \<le> Suc n"
  proof -
    have "parse_elems (Suc n) cs = parse_elems n cs"
      if "parse_value n s = Some (v, r)" "skip_ws r = c # cs" for v r c cs
      using parse_value_consumes(1) [OF that(1)] skip_ws_Cons_length [OF that(2)] \<open>2 * length s + 2 \<le> Suc n\<close>
      by (intro elems) simp
    with val [of s] that show ?thesis
      by (auto split: option.split list.split simp del: parse_value.simps)
  qed
  moreover have "parse_members (Suc (Suc n)) s = parse_members (Suc n) s" if "2 * length s + 2 \<le> Suc n"
  proof -
    have "parse_value (Suc n) cs = parse_value n cs \<and>
        (\<forall>v r1 d ds. parse_value n cs = Some (v, r1) \<longrightarrow> skip_ws r1 = d # ds \<longrightarrow> parse_members (Suc n) ds = parse_members n ds)"
      if "skip_ws s = q # qs" "parse_chars qs = Some (k, r)" "skip_ws r = c # cs" for q qs k r c cs
    proof -
      have "length cs < length s"
        using skip_ws_Cons_length [OF that(1)] parse_chars_consumes [OF that(2)] skip_ws_Cons_length [OF that(3)] by simp
      then show ?thesis
        using val [of cs] members parse_value_consumes(1) skip_ws_Cons_length \<open>2 * length s + 2 \<le> Suc n\<close> by fastforce
    qed
    then show ?thesis
      by (auto split: option.split list.split simp del: parse_value.simps)
  qed
  ultimately show ?case by blast
qed simp

lemma parse_fuel:
  assumes "2 * length s + 1 \<le> n"
  shows "parse_value n s = parse_value (2 * length s + 1) s"
  using assms
proof (induction n rule: dec_induct)
  case (step n)
  then show ?case using parse_fuel_step [of s n] by (simp only:)
qed simp

end
