(* ===== verification/ConfigJson.thy ===== *)
theory ConfigJson
  imports Config JsonRoundtrip
begin

text \<open>
  \<open>InitConfiguration\<close> of \<open>src/config.go\<close>: the JSON text of a configuration, decoded into the global
  record by the field tags and printed again. The decoder keeps the first error it meets in the tree
  and decodes on; a null leaves a field as it is; a slice is filled in place, so that what an
  earlier value left in its array can come back.
\<close>

section \<open>Decoding by type\<close>

type_synonym 'a decoder = "json \<Rightarrow> 'a \<Rightarrow> go_error option \<times> 'a"

fun first_error :: "go_error option \<Rightarrow> go_error option \<Rightarrow> go_error option" where
  "first_error (Some e) e2 = Some e"
| "first_error None e2 = e2"

fun mismatch :: "json \<Rightarrow> go_error option" where
  "mismatch JNull = None"
| "mismatch (JBool _) = Some (TypeMismatch ''bool'')"
| "mismatch (JNum t) = Some (TypeMismatch (''number '' @ t))"
| "mismatch (JStr _) = Some (TypeMismatch ''string'')"
| "mismatch (JArr _) = Some (TypeMismatch ''array'')"
| "mismatch (JObj _) = Some (TypeMismatch ''object'')"

text \<open>\<open>strconv.ParseInt\<close> with base 10 and 64 bits.\<close>

definition ParseInt :: "string \<Rightarrow> int option" where
  "ParseInt s =
     (let neg = (s \<noteq> [] \<and> hd s = CHR ''-'');
          digits = (if neg then tl s else s);
          i = (if neg then - int (undecimal digits) else int (undecimal digits))
      in if digits \<noteq> [] \<and> list_all is_digit digits \<and> min_dur \<le> i \<and> i \<le> max_dur then Some i else None)"

definition decode_int :: "int decoder" where
  "decode_int v old =
     (case v of
        JNum t \<Rightarrow> (case ParseInt t of None \<Rightarrow> (mismatch v, old) | Some i \<Rightarrow> (None, i))
      | _ \<Rightarrow> (mismatch v, old))"

definition decode_duration :: "duration decoder" where
  "decode_duration v old = (case decode_int v (nanos old) of (e, i) \<Rightarrow> (e, dur i))"

definition decode_bool :: "bool decoder" where
  "decode_bool v old = (case v of JBool b \<Rightarrow> (None, b) | _ \<Rightarrow> (mismatch v, old))"

definition decode_string :: "string decoder" where
  "decode_string v old = (case v of JStr s \<Rightarrow> (None, s) | _ \<Rightarrow> (mismatch v, old))"

text \<open>A slice: its elements, what its array still holds behind them, and whether it is not nil.\<close>

record go_slice =
  sl_elems :: "string list"
  sl_behind :: "string list"
  sl_made :: bool

definition nil_slice :: go_slice where
  "nil_slice = \<lparr>sl_elems = [], sl_behind = [], sl_made = False\<rparr>"

fun decode_elems :: "json list \<Rightarrow> string list \<Rightarrow> go_error option \<times> string list \<times> string list" where
  "decode_elems [] array = (None, [], array)"
| "decode_elems (v # vs) array =
     (let (e, x) = decode_string v (case array of [] \<Rightarrow> [] | old # _ \<Rightarrow> old);
          (e2, xs, behind) = decode_elems vs (tl array)
      in (first_error e e2, x # xs, behind))"

definition decode_slice :: "go_slice decoder" where
  "decode_slice v old =
     (case v of
        JNull \<Rightarrow> (None, nil_slice)
      | JArr [] \<Rightarrow> (None, nil_slice\<lparr>sl_made := True\<rparr>)
      | JArr vs \<Rightarrow>
          (case decode_elems vs (sl_elems old @ sl_behind old) of
             (e, xs, behind) \<Rightarrow> (e, \<lparr>sl_elems = xs, sl_behind = behind, sl_made = True\<rparr>))
      | _ \<Rightarrow> (mismatch v, old))"

section \<open>Decoding by name\<close>

text \<open>
  Names that are equal but for case. The long s and the Kelvin sign, outside ASCII, count as an s and a k.
\<close>

fun same_fold :: "string \<Rightarrow> string \<Rightarrow> bool" where
  "same_fold [] t = (t = [])"
| "same_fold (s # ss) [] = False"
| "same_fold (s # ss) (c # cs) =
     (if byte c < 128
      then (c = s \<or> 97 \<le> byte s \<and> byte s \<le> 122 \<and> byte c + 32 = byte s) \<and> same_fold ss cs
      else if s = CHR ''s'' then map byte (take 2 (c # cs)) = [197, 191] \<and> same_fold ss (drop 1 cs)
      else if s = CHR ''k'' then map byte (take 3 (c # cs)) = [226, 132, 170] \<and> same_fold ss (drop 2 cs)
      else False)"

type_synonym 'a fields = "(string \<times> 'a decoder) list"

definition find_field :: "(string \<times> 'b) list \<Rightarrow> string \<Rightarrow> 'b option" where
  "find_field flds key =
     (case map_of flds key of
        Some f \<Rightarrow> Some f
      | None \<Rightarrow> map_option snd (List.find (\<lambda>(name, f). same_fold name key) flds))"

fun decode_members :: "'a fields \<Rightarrow> (string \<times> json) list \<Rightarrow> 'a \<Rightarrow> go_error option \<times> 'a" where
  "decode_members flds [] a = (None, a)"
| "decode_members flds ((key, v) # ms) a =
     (let (e, a1) = (case find_field flds key of None \<Rightarrow> (Some (UnknownField key), a) | Some f \<Rightarrow> f v a);
          (e2, a2) = decode_members flds ms a1
      in (first_error e e2, a2))"

definition decode_struct :: "'a fields \<Rightarrow> 'a decoder" where
  "decode_struct flds v old =
     (case v of JObj ms \<Rightarrow> decode_members flds ms old | _ \<Rightarrow> (mismatch v, old))"

definition field :: "'b decoder \<Rightarrow> ('a \<Rightarrow> 'b) \<Rightarrow> (('b \<Rightarrow> 'b) \<Rightarrow> 'a \<Rightarrow> 'a) \<Rightarrow> 'a decoder" where
  "field dec get update v a = (case dec v (get a) of (e, x) \<Rightarrow> (e, update (\<lambda>_. x) a))"

section \<open>The configuration\<close>

text \<open>The global record while it is decoded, with its two slices as Go keeps them.\<close>

record decoded = Configuration +
  dec_zone_slice :: go_slice
  dec_upstream_slice :: go_slice

definition logConfig_fields :: "logConfig fields" where
  "logConfig_fields =
     [(''level'', field decode_int lc_Level lc_Level_update),
      (''location'', field decode_string lc_Location lc_Location_update)]"

definition tlsConfig_fields :: "tlsConfig fields" where
  "tlsConfig_fields =
     [(''private_key_file'', field decode_string tls_PrivateKeyFile tls_PrivateKeyFile_update),
      (''certificate_file'', field decode_string tls_CertificateFile tls_CertificateFile_update)]"

definition Configuration_fields :: "decoded fields" where
  "Configuration_fields =
     [(''cooldown_period'', field decode_duration cfg_CooldownPeriod cfg_CooldownPeriod_update),
      (''use_tfo'', field decode_bool cfg_UseTfo cfg_UseTfo_update),
      (''clean_interval'', field decode_duration cfg_CleanInterval cfg_CleanInterval_update),
      (''eviction_batch_size'', field decode_int cfg_EvictionBatchSize cfg_EvictionBatchSize_update),
      (''timeout'', field decode_duration cfg_Timeout cfg_Timeout_update),
      (''zone_files'', field decode_slice dec_zone_slice dec_zone_slice_update),
      (''upstreams'', field decode_slice dec_upstream_slice dec_upstream_slice_update),
      (''blackhole'', field decode_bool cfg_Blackhole cfg_Blackhole_update),
      (''dns_port'', field decode_int cfg_DnsPort cfg_DnsPort_update),
      (''http_port'', field decode_int cfg_HttpPort cfg_HttpPort_update),
      (''concurrent_queries'', field decode_int cfg_ConcurrentQueries cfg_ConcurrentQueries_update),
      (''server_log'', field (decode_struct logConfig_fields) cfg_ServerLog cfg_ServerLog_update),
      (''query_log'', field (decode_struct logConfig_fields) cfg_QueryLog cfg_QueryLog_update),
      (''listen_protocol'', field decode_string cfg_ListenProtocol cfg_ListenProtocol_update),
      (''tls'', field (decode_struct tlsConfig_fields) cfg_TlsConfig cfg_TlsConfig_update),
      (''skip_upstream_verification'',
         field decode_bool cfg_SkipUpstreamVerification cfg_SkipUpstreamVerification_update),
      (''upstream_retries'', field decode_int cfg_UpstreamRetries cfg_UpstreamRetries_update)]"

definition fresh :: decoded where
  "fresh = Configuration.extend zero_Configuration \<lparr>dec_zone_slice = nil_slice, dec_upstream_slice = nil_slice\<rparr>"

text \<open>The record the rest of the program reads.\<close>

definition GetConfiguration :: "decoded \<Rightarrow> Configuration" where
  "GetConfiguration a = (Configuration.truncate a)
     \<lparr>cfg_ZoneFiles := sl_elems (dec_zone_slice a), cfg_Upstreams := sl_elems (dec_upstream_slice a)\<rparr>"

definition json_int :: "int \<Rightarrow> json" where
  "json_int i = JNum (format_d i)"

definition json_slice :: "go_slice \<Rightarrow> json" where
  "json_slice s = (if sl_made s then JArr (map JStr (sl_elems s)) else JNull)"

definition json_logConfig :: "logConfig \<Rightarrow> json" where
  "json_logConfig l = JObj [(''level'', json_int (lc_Level l)), (''location'', JStr (lc_Location l))]"

definition json_tlsConfig :: "tlsConfig \<Rightarrow> json" where
  "json_tlsConfig t =
     JObj [(''private_key_file'', JStr (tls_PrivateKeyFile t)), (''certificate_file'', JStr (tls_CertificateFile t))]"

definition json_Configuration :: "decoded \<Rightarrow> json" where
  "json_Configuration a =
     JObj
      [(''cooldown_period'', json_int (nanos (cfg_CooldownPeriod a))),
       (''use_tfo'', JBool (cfg_UseTfo a)),
       (''clean_interval'', json_int (nanos (cfg_CleanInterval a))),
       (''eviction_batch_size'', json_int (cfg_EvictionBatchSize a)),
       (''timeout'', json_int (nanos (cfg_Timeout a))),
       (''zone_files'', json_slice (dec_zone_slice a)),
       (''upstreams'', json_slice (dec_upstream_slice a)),
       (''blackhole'', JBool (cfg_Blackhole a)),
       (''dns_port'', json_int (cfg_DnsPort a)),
       (''http_port'', json_int (cfg_HttpPort a)),
       (''concurrent_queries'', json_int (cfg_ConcurrentQueries a)),
       (''server_log'', json_logConfig (cfg_ServerLog a)),
       (''query_log'', json_logConfig (cfg_QueryLog a)),
       (''listen_protocol'', JStr (cfg_ListenProtocol a)),
       (''tls'', json_tlsConfig (cfg_TlsConfig a)),
       (''skip_upstream_verification'', JBool (cfg_SkipUpstreamVerification a)),
       (''upstream_retries'', json_int (cfg_UpstreamRetries a))]"

text \<open>
  What can be read from the file, nothing when it cannot be opened, decoded into \<open>a\<close>: the error returned,
  the record left behind, also after an error, and what is printed.
\<close>

definition InitConfiguration :: "string option \<Rightarrow> decoded \<Rightarrow> go_error option \<times> decoded \<times> string" where
  "InitConfiguration file a =
     (case (case file of None \<Rightarrow> None | Some s \<Rightarrow> parse_json s) of
        None \<Rightarrow> (Some (ConfigurationLoadFailed NotJson), a, [])
      | Some (v, _) \<Rightarrow>
          (case decode_struct Configuration_fields v a of
             (Some e, a1) \<Rightarrow> (Some (ConfigurationLoadFailed e), a1, [])
           | (None, a1) \<Rightarrow>
               (None, a1, ''running configuration: '' @ json_text_indented (json_Configuration a1) @ [newline])))"

end
