(* ===== verification/ConfigReads.thy ===== *)
theory ConfigReads
  imports ConfigJson
begin

text \<open>
  Which texts \<open>InitConfiguration\<close> accepts, by comparison with a schema, and that the configuration it
  prints, or that the HTTP API shows, is read back as the same configuration.
\<close>

section \<open>A schema of configurations\<close>

type_synonym typing = "json \<Rightarrow> bool"

definition is_int :: typing where
  "is_int v = (case v of JNull \<Rightarrow> True | JNum t \<Rightarrow> ParseInt t \<noteq> None | _ \<Rightarrow> False)"

definition is_bool :: typing where
  "is_bool v = (case v of JNull \<Rightarrow> True | JBool b \<Rightarrow> True | _ \<Rightarrow> False)"

definition is_string :: typing where
  "is_string v = (case v of JNull \<Rightarrow> True | JStr s \<Rightarrow> True | _ \<Rightarrow> False)"

definition is_strings :: typing where
  "is_strings v = (case v of JNull \<Rightarrow> True | JArr vs \<Rightarrow> list_all is_string vs | _ \<Rightarrow> False)"

definition is_struct :: "(string \<times> typing) list \<Rightarrow> typing" where
  "is_struct schema v =
     (case v of
        JNull \<Rightarrow> True
      | JObj ms \<Rightarrow> list_all (\<lambda>(key, w). case find_field schema key of None \<Rightarrow> False | Some typing \<Rightarrow> typing w) ms
      | _ \<Rightarrow> False)"

definition log_schema :: "(string \<times> typing) list" where
  "log_schema = [(''level'', is_int), (''location'', is_string)]"

definition tls_schema :: "(string \<times> typing) list" where
  "tls_schema = [(''private_key_file'', is_string), (''certificate_file'', is_string)]"

definition config_schema :: "(string \<times> typing) list" where
  "config_schema =
     [(''cooldown_period'', is_int), (''use_tfo'', is_bool), (''clean_interval'', is_int),
      (''eviction_batch_size'', is_int), (''timeout'', is_int), (''zone_files'', is_strings),
      (''upstreams'', is_strings), (''blackhole'', is_bool), (''dns_port'', is_int), (''http_port'', is_int),
      (''concurrent_queries'', is_int), (''server_log'', is_struct log_schema), (''query_log'', is_struct log_schema),
      (''listen_protocol'', is_string), (''tls'', is_struct tls_schema), (''skip_upstream_verification'', is_bool),
      (''upstream_retries'', is_int)]"

section \<open>Decoders accept what has their type\<close>

definition accepts :: "'a decoder \<Rightarrow> typing \<Rightarrow> bool" where
  "accepts dec typing \<longleftrightarrow> (\<forall>v old. fst (dec v old) = None \<longleftrightarrow> typing v)"

lemma first_error_None [simp]: "first_error e e2 = None \<longleftrightarrow> e = None \<and> e2 = None"
  by (cases e) auto

lemma mismatch_None [simp]: "mismatch v = None \<longleftrightarrow> v = JNull"
  by (cases v) auto

lemma accepts_int [simp]: "accepts decode_int is_int"
  by (auto simp: accepts_def decode_int_def is_int_def split: json.split option.split)

lemma accepts_duration [simp]: "accepts decode_duration is_int"
  using accepts_int by (auto simp: accepts_def decode_duration_def split: prod.split) (metis fst_conv)+

lemma accepts_bool [simp]: "accepts decode_bool is_bool"
  by (auto simp: accepts_def decode_bool_def is_bool_def split: json.split)

lemma accepts_string [simp]: "accepts decode_string is_string"
  by (auto simp: accepts_def decode_string_def is_string_def split: json.split)

lemma decode_elems_None: "fst (decode_elems vs array) = None \<longleftrightarrow> list_all is_string vs"
proof (induction vs arbitrary: array)
  case (Cons v vs)
  have "fst (decode_string v old) = None \<longleftrightarrow> is_string v" for old
    using accepts_string by (simp add: accepts_def)
  with Cons show ?case by (auto simp: case_prod_unfold Let_def)
qed simp

lemma accepts_slice [simp]: "accepts decode_slice is_strings"
  by (auto simp: accepts_def decode_slice_def is_strings_def case_prod_unfold decode_elems_None
      split: json.split list.split simp del: decode_elems.simps)

lemma accepts_field [simp]: "accepts dec typing \<Longrightarrow> accepts (field dec get update) typing"
  by (simp add: accepts_def field_def case_prod_unfold)

text \<open>Two tables that agree name by name agree in what they find.\<close>

definition agree :: "'a fields \<Rightarrow> (string \<times> typing) list \<Rightarrow> bool" where
  "agree flds schema \<longleftrightarrow> list_all2 (\<lambda>(n, dec) (m, typing). n = m \<and> accepts dec typing) flds schema"

lemma agree_find:
  assumes "agree flds schema"
  shows "rel_option accepts (find_field flds key) (find_field schema key)"
proof -
  have "rel_option accepts (map_of flds key) (map_of schema key)"
    and "rel_option accepts (map_option snd (List.find (\<lambda>(n, f). same_fold n key) flds))
      (map_option snd (List.find (\<lambda>(n, f). same_fold n key) schema))"
    using assms unfolding agree_def by (induction flds schema rule: list_all2_induct) auto
  then show ?thesis
    by (auto simp: find_field_def split: option.split elim: option.rel_cases)
qed

lemma accepts_struct:
  assumes "agree flds schema"
  shows "accepts (decode_struct flds) (is_struct schema)"
proof -
  have "fst (decode_members flds ms a) = None \<longleftrightarrow>
      list_all (\<lambda>(key, w). case find_field schema key of None \<Rightarrow> False | Some typing \<Rightarrow> typing w) ms" for ms a
  proof (induction ms arbitrary: a)
    case (Cons m ms)
    then show ?case
      using agree_find [OF assms, of "fst m"]
      by (cases m) (auto simp: case_prod_unfold Let_def accepts_def split: option.splits)
  qed simp
  then show ?thesis
    by (auto simp: accepts_def decode_struct_def is_struct_def split: json.split)
qed

lemma agree_config: "agree Configuration_fields config_schema"
  by (simp add: agree_def Configuration_fields_def config_schema_def accepts_struct
      logConfig_fields_def log_schema_def tlsConfig_fields_def tls_schema_def)

text \<open>
  C24. A configuration file is accepted exactly when it starts with a JSON text that fits the schema of the
  configuration: an object, or null, each of whose members names a field, in any case, and has null or a
  value of the field's type, integers within 64 bits. What the record held before does not matter, and
  whatever follows the first JSON value is ignored.
\<close>

theorem InitConfiguration_accepts:
  "fst (InitConfiguration (Some s) a) = None \<longleftrightarrow>
     (case parse_json s of None \<Rightarrow> False | Some (v, _) \<Rightarrow> is_struct config_schema v)"
  using accepts_struct [OF agree_config]
  by (auto simp: InitConfiguration_def accepts_def split: option.splits prod.splits) (metis fst_conv option.distinct(1))+

section \<open>What is printed is read back\<close>

lemma decimal_all_digits: "list_all is_digit (decimal n)"
  using decimal_digits [of _ n] by (fastforce simp: list_all_iff is_digit_def)

lemma decimal_nonempty [simp]: "decimal n \<noteq> []"
  by (subst decimal.simps) simp

lemma ParseInt_format_d:
  assumes "min_dur \<le> i" and "i \<le> max_dur"
  shows "ParseInt (format_d i) = Some i"
proof (cases "i < 0")
  case True
  with assms show ?thesis
    by (simp add: ParseInt_def format_d_def Let_def decimal_all_digits undecimal_decimal del: undecimal.simps)
next
  case False
  have "hd (decimal (nat i)) \<noteq> CHR ''-''"
    using decimal_no_minus [of "nat i"] by (cases "decimal (nat i)") auto
  with assms False show ?thesis
    by (simp add: ParseInt_def format_d_def Let_def decimal_all_digits undecimal_decimal del: undecimal.simps)
qed

lemma decimal_leading_zero: "hd (decimal n) = CHR ''0'' \<Longrightarrow> decimal n = ''0''"
proof (induction n rule: decimal.induct)
  case (1 n)
  show ?case
  proof (cases "n < 10")
    case True
    then have "hd (decimal n) = char_of (48 + n)" by (simp add: decimal.simps [of n])
    with 1(2) True show ?thesis by (simp add: decimal.simps [of n])
  next
    case False
    then have "decimal n = decimal (n div 10) @ [char_of (48 + n mod 10)]" by (simp add: decimal.simps [of n])
    with 1 False have "decimal (n div 10) = ''0''" by simp
    then have "undecimal (decimal (n div 10)) = 0" by simp
    with undecimal_decimal [of "n div 10"] False show ?thesis by simp
  qed
qed

lemma number_digits:
  assumes "list_all is_digit ds" and "ds \<noteq> []" and "hd ds = CHR ''0'' \<longrightarrow> ds = ''0''" and "sign = [] \<or> sign = ''-''"
  shows "number (sign @ ds)"
proof -
  have tw: "takeWhile is_digit ds = ds" using assms(1) by (simp add: takeWhile_eq_all_conv list_all_iff)
  have hd: "hd ds \<noteq> CHR ''-''" using assms(1,2) by (cases ds) (auto simp: is_digit_def)
  have "takeWhile (\<lambda>c. c = CHR ''-'') (take 1 (sign @ ds)) = sign"
    using assms(2,4) hd by (cases ds) auto
  moreover have "hd ds = CHR ''0'' \<Longrightarrow> drop (Suc 0) ds = []" using assms(3) by auto
  ultimately show ?thesis
    using assms(2,3)
    by (cases "hd ds = CHR ''0''")
       (simp_all add: number_def parse_number_def Let_def tw number_fraction_def number_exponent_def is_digit_def)
qed

lemma number_format_d: "number (format_d i)"
  using number_digits [of "decimal (nat (- i))" "''-''"] number_digits [of "decimal (nat i)" "[]"]
  by (simp add: format_d_def decimal_all_digits decimal_leading_zero)

text \<open>The configurations that decoding can produce.\<close>

definition in_range :: "int \<Rightarrow> bool" where
  "in_range i \<longleftrightarrow> min_dur \<le> i \<and> i \<le> max_dur"

definition slice_ok :: "go_slice \<Rightarrow> bool" where
  "slice_ok s \<longleftrightarrow> list_all utf8 (sl_elems s @ sl_behind s) \<and> (sl_made s \<or> sl_elems s = [])"

definition log_ok :: "logConfig \<Rightarrow> bool" where
  "log_ok l \<longleftrightarrow> in_range (lc_Level l) \<and> utf8 (lc_Location l)"

definition tls_ok :: "tlsConfig \<Rightarrow> bool" where
  "tls_ok t \<longleftrightarrow> utf8 (tls_PrivateKeyFile t) \<and> utf8 (tls_CertificateFile t)"

definition config_ok :: "decoded \<Rightarrow> bool" where
  "config_ok a \<longleftrightarrow> in_range (cfg_EvictionBatchSize a) \<and> in_range (cfg_DnsPort a) \<and> in_range (cfg_HttpPort a) \<and>
     in_range (cfg_ConcurrentQueries a) \<and> in_range (cfg_UpstreamRetries a) \<and> slice_ok (dec_zone_slice a) \<and>
     slice_ok (dec_upstream_slice a) \<and> log_ok (cfg_ServerLog a) \<and> log_ok (cfg_QueryLog a) \<and>
     utf8 (cfg_ListenProtocol a) \<and> tls_ok (cfg_TlsConfig a)"

definition keeps :: "('a \<Rightarrow> bool) \<Rightarrow> 'a decoder \<Rightarrow> bool" where
  "keeps P dec \<longleftrightarrow> (\<forall>v old. strings_ok v \<longrightarrow> P old \<longrightarrow> P (snd (dec v old)))"

lemma keeps_int [simp]: "keeps in_range decode_int"
  by (auto simp: keeps_def decode_int_def in_range_def ParseInt_def Let_def split: json.split option.split if_splits)

lemma keeps_string [simp]: "keeps utf8 decode_string"
  by (auto simp: keeps_def decode_string_def split: json.split)

lemma keeps_any [simp]: "keeps (\<lambda>_. True) dec"
  by (simp add: keeps_def)

lemma decode_elems_ok:
  "list_all strings_ok vs \<Longrightarrow> list_all utf8 array \<Longrightarrow> decode_elems vs array = (e, xs, behind) \<Longrightarrow>
     list_all utf8 xs \<and> list_all utf8 behind"
proof (induction vs arbitrary: array e xs behind)
  case (Cons v vs)
  obtain e1 x where x: "decode_string v (case array of [] \<Rightarrow> [] | old # _ \<Rightarrow> old) = (e1, x)" by fastforce
  obtain e2 ys b where ys: "decode_elems vs (tl array) = (e2, ys, b)" by (metis prod_cases3)
  have "utf8 (case array of [] \<Rightarrow> [] | old # _ \<Rightarrow> old)" using Cons(3) by (cases array) auto
  with x Cons(2) keeps_string have "utf8 x" by (auto simp: keeps_def dest!: spec [of _ v])
  moreover have "list_all utf8 (tl array)" using Cons(3) by (cases array) auto
  moreover have "xs = x # ys" "behind = b" using Cons(4) by (simp_all add: x ys)
  ultimately show ?case using Cons(1) [OF _ _ ys] Cons(2) by simp
qed simp

lemma keeps_slice [simp]: "keeps slice_ok decode_slice"
proof -
  have "slice_ok (snd (decode_slice w old))" if "strings_ok w" "slice_ok old" for w old
  proof (cases "\<exists>v vs. w = JArr (v # vs)")
    case True
    then obtain v vs where w: "w = JArr (v # vs)" by blast
    obtain e xs b where d: "decode_elems (v # vs) (sl_elems old @ sl_behind old) = (e, xs, b)" by (metis prod_cases3)
    with decode_elems_ok [OF _ _ d] that show ?thesis
      by (simp add: w decode_slice_def slice_ok_def del: decode_elems.simps)
  next
    case False
    with that show ?thesis
      by (cases w) (auto simp: decode_slice_def slice_ok_def nil_slice_def split: list.split)
  qed
  then show ?thesis by (simp add: keeps_def)
qed

lemma keeps_members:
  assumes "\<And>name dec. (name, dec) \<in> set flds \<Longrightarrow> keeps P dec" and "P a"
    and "list_all (\<lambda>(k, v). utf8 k \<and> strings_ok v) ms"
  shows "P (snd (decode_members flds ms a))"
  using assms(2,3)
proof (induction ms arbitrary: a)
  case (Cons m ms)
  obtain k v where m: "m = (k, v)" by fastforce
  have "keeps P dec" if "find_field flds k = Some dec" for dec
    using that assms(1) by (auto simp: find_field_def find_Some_iff split: option.splits dest!: map_of_SomeD)
       (metis nth_mem)
  then have "P (snd (case find_field flds k of None \<Rightarrow> (Some (UnknownField k), a) | Some f \<Rightarrow> f v a))"
    using Cons(2,3) by (auto simp: m keeps_def split: option.split)
  with Cons(1,3) m show ?case by (simp add: case_prod_unfold Let_def)
qed simp

lemma keeps_struct:
  assumes "\<And>name dec. (name, dec) \<in> set flds \<Longrightarrow> keeps P dec"
  shows "keeps P (decode_struct flds)"
  using keeps_members [of flds P, OF assms]
  by (auto simp: keeps_def decode_struct_def split: json.split)

lemma keeps_field:
  assumes "keeps Q dec" and "\<And>a. P a \<Longrightarrow> Q (get a)" and "\<And>a x. P a \<Longrightarrow> Q x \<Longrightarrow> P (update (\<lambda>_. x) a)"
  shows "keeps P (field dec get update)"
  using assms by (simp add: keeps_def field_def case_prod_unfold)

lemma keeps_log [simp]: "keeps log_ok (decode_struct logConfig_fields)"
proof (rule keeps_struct)
  fix name dec
  assume "(name, dec) \<in> set logConfig_fields"
  then show "keeps log_ok dec"
    by (auto simp: logConfig_fields_def log_ok_def intro: keeps_field [OF keeps_int] keeps_field [OF keeps_string])
qed

lemma keeps_tls [simp]: "keeps tls_ok (decode_struct tlsConfig_fields)"
proof (rule keeps_struct)
  fix name dec
  assume "(name, dec) \<in> set tlsConfig_fields"
  then show "keeps tls_ok dec"
    by (auto simp: tlsConfig_fields_def tls_ok_def intro: keeps_field [OF keeps_string])
qed

lemma keeps_config: "keeps config_ok (decode_struct Configuration_fields)"
proof (rule keeps_struct)
  fix name dec
  assume "(name, dec) \<in> set Configuration_fields"
  then show "keeps config_ok dec"
    by (auto simp: Configuration_fields_def config_ok_def intro: keeps_field [OF keeps_int] keeps_field [OF keeps_string]
        keeps_field [OF keeps_slice] keeps_field [OF keeps_log] keeps_field [OF keeps_tls] keeps_field [OF keeps_any])
qed

lemma config_ok_fresh: "config_ok fresh"
  by (simp add: config_ok_def fresh_def Configuration.defs zero_Configuration_def in_range_def min_dur_def max_dur_def
      slice_ok_def nil_slice_def log_ok_def tls_ok_def)

text \<open>Decoding a printed value of each type.\<close>

lemma field_int [simp]: "in_range i \<Longrightarrow> field decode_int get update (json_int i) a = (None, update (\<lambda>_. i) a)"
  by (simp add: field_def decode_int_def json_int_def in_range_def ParseInt_format_d)

lemma field_duration [simp]:
  "field decode_duration get update (json_int (nanos d)) a = (None, update (\<lambda>_. d) a)"
  by (simp add: field_def decode_duration_def decode_int_def json_int_def ParseInt_format_d nanos_bounds)

lemma field_bool [simp]: "field decode_bool get update (JBool b) a = (None, update (\<lambda>_. b) a)"
  by (simp add: field_def decode_bool_def)

lemma field_string [simp]: "field decode_string get update (JStr t) a = (None, update (\<lambda>_. t) a)"
  by (simp add: field_def decode_string_def)

lemma decode_printed_elems: "decode_elems (map JStr xs) [] = (None, xs, [])"
  by (induction xs) (simp_all add: decode_string_def)

lemma field_slice [simp]:
  assumes "slice_ok t" and "get a = nil_slice"
  shows "field decode_slice get update (json_slice t) a = (None, update (\<lambda>_. t\<lparr>sl_behind := []\<rparr>) a)"
proof -
  have "decode_slice (json_slice t) nil_slice = (None, t\<lparr>sl_behind := []\<rparr>)"
    using assms(1) decode_printed_elems [of "sl_elems t"]
    by (cases t; cases "sl_elems t") (auto simp: decode_slice_def json_slice_def nil_slice_def slice_ok_def)
  with assms(2) show ?thesis by (simp add: field_def)
qed

lemma field_log [simp]:
  "log_ok l \<Longrightarrow> field (decode_struct logConfig_fields) get update (json_logConfig l) a = (None, update (\<lambda>_. l) a)"
  by (cases l; cases "get a")
     (simp add: field_def [of "decode_struct _"] decode_struct_def json_logConfig_def find_field_def logConfig_fields_def log_ok_def)

lemma field_tls [simp]:
  "field (decode_struct tlsConfig_fields) get update (json_tlsConfig t) a = (None, update (\<lambda>_. t) a)"
  by (cases t; cases "get a")
     (simp add: field_def [of "decode_struct _"] decode_struct_def json_tlsConfig_def find_field_def tlsConfig_fields_def)

lemma decode_printed:
  assumes "config_ok a"
  shows "\<exists>a'. decode_struct Configuration_fields (json_Configuration a) fresh = (None, a') \<and>
    json_Configuration a' = json_Configuration a \<and> GetConfiguration a' = GetConfiguration a"
proof -
  have "decode_struct Configuration_fields (json_Configuration a) fresh =
      (None, a\<lparr>cfg_ZoneFiles := [], cfg_Upstreams := [], dec_zone_slice := (dec_zone_slice a)\<lparr>sl_behind := []\<rparr>,
        dec_upstream_slice := (dec_upstream_slice a)\<lparr>sl_behind := []\<rparr>\<rparr>)"
    using assms
    by (simp add: decode_struct_def json_Configuration_def config_ok_def Configuration_fields_def find_field_def
        fresh_def Configuration.defs zero_Configuration_def)
  then show ?thesis
    by (simp add: json_Configuration_def json_slice_def GetConfiguration_def Configuration.defs)
qed

lemma json_ok_int: "json_ok (json_int i)"
  by (simp add: json_int_def number_format_d)

lemma json_ok_slice: "slice_ok t \<Longrightarrow> json_ok (json_slice t)"
  by (auto simp: json_slice_def slice_ok_def list_all_iff)

lemma json_ok_config: "config_ok a \<Longrightarrow> json_ok (json_Configuration a)"
  using utf8_plain
  by (simp add: json_Configuration_def config_ok_def json_ok_int json_ok_slice json_logConfig_def log_ok_def
      json_tlsConfig_def tls_ok_def)

lemma depth_slice: "json_depth (json_slice t) \<le> 1"
proof -
  have "foldr (\<lambda>v. max (json_depth v)) (map JStr xs) 0 = 0" for xs by (induction xs) simp_all
  then show ?thesis by (simp add: json_slice_def)
qed

lemma depth_config: "json_depth (json_Configuration a) \<le> 10000"
  using depth_slice [of "dec_zone_slice a"] depth_slice [of "dec_upstream_slice a"]
  by (simp add: json_Configuration_def json_int_def json_logConfig_def json_tlsConfig_def)

lemma InitConfiguration_keeps:
  assumes "InitConfiguration file a0 = (e, a, out)" and "config_ok a0"
  shows "config_ok a"
proof (cases "file = None \<or> (\<exists>s. file = Some s \<and> parse_json s = None)")
  case True
  with assms show ?thesis by (auto simp: InitConfiguration_def)
next
  case False
  then obtain s v r where s: "file = Some s" "parse_json s = Some (v, r)" by auto
  have "config_ok (snd (decode_struct Configuration_fields v a0))"
    using keeps_config parse_json_strings [OF s(2)] assms(2) by (auto simp: keeps_def)
  with assms(1) s show ?thesis by (auto simp: InitConfiguration_def split: option.splits prod.splits)
qed

lemma decodable_config: "config_ok a \<Longrightarrow> decodable (json_Configuration a)"
  by (simp add: decodable_def json_ok_config depth_config)

lemma loaded_config_ok:
  assumes "InitConfiguration file fresh = (None, a, out)"
  shows "config_ok a" and "out = ''running configuration: '' @ json_text_indented (json_Configuration a) @ [newline]"
  using InitConfiguration_keeps [OF assms config_ok_fresh] assms
  by (auto simp: InitConfiguration_def split: option.splits prod.splits)

lemma printed_is_accepted:
  assumes "config_ok a" and "out = ''running configuration: '' @ json_text_indented (json_Configuration a) @ [newline]"
  shows "\<exists>a'. GetConfiguration a' = GetConfiguration a \<and>
    InitConfiguration (Some (json_text (json_Configuration a))) fresh = (None, a', out) \<and>
    InitConfiguration (Some (drop (length ''running configuration: '') out)) fresh = (None, a', out)"
proof -
  obtain a' where a': "decode_struct Configuration_fields (json_Configuration a) fresh = (None, a')"
      "json_Configuration a' = json_Configuration a" "GetConfiguration a' = GetConfiguration a"
    using decode_printed [OF assms(1)] by blast
  have sep: "separated [newline]" by (simp add: newline_def is_ws_def)
  note dec = decodable_config [OF assms(1)]
  have "InitConfiguration (Some t) fresh = (None, a', out)" if "parse_json t = Some (json_Configuration a, r)" for t r
    using that a' by (simp add: InitConfiguration_def assms(2))
  from this [OF compact.reads_all [OF dec]] this [OF indented.reads_back [OF dec sep]] a'(3) show ?thesis
    by (auto simp: assms(2))
qed

lemma printed_is_read_back:
  assumes "InitConfiguration file fresh = (None, a, out)"
  shows "\<exists>a'. GetConfiguration a' = GetConfiguration a \<and>
    InitConfiguration (Some (json_text (json_Configuration a))) fresh = (None, a', out) \<and>
    InitConfiguration (Some (drop (length ''running configuration: '') out)) fresh = (None, a', out)"
  by (rule printed_is_accepted [OF loaded_config_ok [OF assms]])

end
