(* ===== verification/HttpApi.thy ===== *)
theory HttpApi
  imports ConfigReads
begin

text \<open>
  The HTTP API of \<open>src/http.go\<close> with the version of \<open>src/version.go\<close>, the route of \<open>src/prom.go\<close>, and
  \<open>Shutdown\<close> of \<open>src/main.go\<close>. The router is what its configuration says: routes by path, and the
  middlewares around each of them. The messages the handlers log are left out.
\<close>

section \<open>Version and responses\<close>

record Version =
  v_Hostname :: string
  v_Branch :: string
  v_Tag :: string
  v_Date :: string
  v_Revision :: string

definition Version_String :: "Version \<Rightarrow> string" where
  "Version_String v = v_Hostname v @ ''-'' @ v_Branch v @ ''-'' @ v_Tag v @ ''-'' @ v_Date v @ ''-'' @ v_Revision v"

text \<open>
  A response writer: the first status counts and a write sends status 200 if there is none; \<open>fails\<close>
  says whether the connection takes the write.
\<close>

record http_writer =
  hw_header :: "(string, string) fmap"
  hw_status :: "int option"
  hw_body :: string
  hw_fails :: "go_error option"

definition WriteHeader :: "int \<Rightarrow> http_writer \<Rightarrow> http_writer" where
  "WriteHeader code w = (case hw_status w of None \<Rightarrow> w\<lparr>hw_status := Some code\<rparr> | Some _ \<Rightarrow> w)"

definition http_Write :: "string \<Rightarrow> http_writer \<Rightarrow> go_error option \<times> http_writer" where
  "http_Write s w =
     (let w1 = WriteHeader 200 w
      in case hw_fails w of Some e \<Rightarrow> (Some e, w1) | None \<Rightarrow> (None, w1\<lparr>hw_body := hw_body w1 @ s\<rparr>))"

definition handleError :: "http_writer \<Rightarrow> go_error \<Rightarrow> int \<Rightarrow> http_writer" where
  "handleError w err code = WriteHeader code w"

text \<open>Servers by network and address; \<open>shutdown\<close> is what the library does with one.\<close>

type_synonym dns_server = "string \<times> string"

definition addServer :: "dns_server list \<Rightarrow> dns_server \<Rightarrow> dns_server list" where
  "addServer servers s = servers @ [s]"

fun Shutdown :: "(dns_server \<Rightarrow> go_error option) \<Rightarrow> dns_server list \<Rightarrow> go_error list" where
  "Shutdown shutdown [] = []"
| "Shutdown shutdown (s # servers) =
     (case shutdown s of None \<Rightarrow> [] | Some e \<Rightarrow> [e]) @ Shutdown shutdown servers"

definition shutdownHttpHandler ::
  "(dns_server \<Rightarrow> go_error option) \<Rightarrow> dns_server list \<Rightarrow> http_writer \<Rightarrow> http_writer \<times> go_error list" where
  "shutdownHttpHandler shutdown servers w =
     (snd (http_Write (CHR ''{'' # quote ''message'' @ '': '' @ quote ''shutting down server'' @ ''}'') (WriteHeader 200 w)),
      Shutdown shutdown servers)"

text \<open>What is marshalled here always can be; the handlers check all the same.\<close>

definition Marshal :: "json \<Rightarrow> go_error + string" where
  "Marshal v = Inr (json_text v)"

definition json_Version :: "Version \<Rightarrow> json" where
  "json_Version v =
     JObj [(''Hostname'', JStr (v_Hostname v)), (''Branch'', JStr (v_Branch v)), (''Tag'', JStr (v_Tag v)),
       (''Date'', JStr (v_Date v)), (''Revision'', JStr (v_Revision v))]"

text \<open>The branch of \<open>versionHttpHandler\<close> for a failed encoding does not leave the handler.\<close>

definition versionHttpHandler :: "Version \<Rightarrow> http_writer \<Rightarrow> http_writer" where
  "versionHttpHandler v w =
     (case (case Marshal (json_Version v) of Inl err \<Rightarrow> ([], handleError w err 500) | Inr s \<Rightarrow> (s, w)) of
        (str, w1) \<Rightarrow>
          (case http_Write str w1 of
             (Some err, w2) \<Rightarrow> handleError w2 err 500
           | (None, w2) \<Rightarrow> w2))"

definition configHttpHandler :: "decoded \<Rightarrow> http_writer \<Rightarrow> http_writer" where
  "configHttpHandler conf w =
     (case Marshal (json_Configuration conf) of
        Inl err \<Rightarrow> handleError w err 500
      | Inr str \<Rightarrow>
          (case http_Write str w of
             (Some err, w1) \<Rightarrow> handleError w1 err 500
           | (None, w1) \<Rightarrow> w1))"

definition addPratchettHeader :: "(http_writer \<Rightarrow> 'a) \<Rightarrow> http_writer \<Rightarrow> 'a" where
  "addPratchettHeader nxt w =
     nxt (w\<lparr>hw_header := fmupd ''X-Clacks-Overhead'' ''GNU Terry Pratchett'' (hw_header w)\<rparr>)"

definition setContentTypeHeader :: "(http_writer \<Rightarrow> 'a) \<Rightarrow> http_writer \<Rightarrow> 'a" where
  "setContentTypeHeader nxt w =
     nxt (w\<lparr>hw_header := fmupd ''Content-Type'' ''application/json'' (hw_header w)\<rparr>)"

lemma WriteHeader_status [simp]:
  "hw_status (WriteHeader code w) = (case hw_status w of None \<Rightarrow> Some code | Some c \<Rightarrow> Some c)"
  "hw_header (WriteHeader code w) = hw_header w" "hw_body (WriteHeader code w) = hw_body w"
  by (simp_all add: WriteHeader_def split: option.splits)

text \<open>Once a write has been tried, a later error code is lost: the client sees 200 without a body.\<close>

lemma config_write_error_is_200:
  assumes "hw_status w = None" and "hw_fails w = Some e"
  shows "hw_status (configHttpHandler conf w) = Some 200 \<and> hw_body (configHttpHandler conf w) = hw_body w"
  using assms by (simp add: configHttpHandler_def Marshal_def http_Write_def handleError_def Let_def)

section \<open>Routes\<close>

text \<open>A handler writes the response; the errors are those of a shutdown it started.\<close>

type_synonym handler = "http_writer \<Rightarrow> http_writer \<times> go_error list"

record router =
  rt_StrictSlash :: bool
  rt_routes :: "(string \<times> handler) list"
  rt_middlewares :: "(handler \<Rightarrow> handler) list"

definition HandleFunc :: "string \<Rightarrow> handler \<Rightarrow> router \<Rightarrow> router" where
  "HandleFunc path h r = r\<lparr>rt_routes := rt_routes r @ [(path, h)]\<rparr>"

definition Use :: "(handler \<Rightarrow> handler) \<Rightarrow> router \<Rightarrow> router" where
  "Use m r = r\<lparr>rt_middlewares := rt_middlewares r @ [m]\<rparr>"

definition InitPrometheus :: "handler \<Rightarrow> router \<Rightarrow> router" where
  "InitPrometheus promhttp r = HandleFunc ''/metrics'' promhttp r"

text \<open>The router and the address the API listens on.\<close>

definition InitApi :: "handler \<Rightarrow> (dns_server \<Rightarrow> go_error option) \<Rightarrow> dns_server list \<Rightarrow> Version \<Rightarrow> decoded \<Rightarrow> router \<times> string" where
  "InitApi promhttp shutdown servers v conf =
     (let r0 = \<lparr>rt_StrictSlash = True, rt_routes = [], rt_middlewares = []\<rparr>;
          r1 = Use setContentTypeHeader (Use addPratchettHeader (InitPrometheus promhttp r0));
          r2 = HandleFunc ''/v1/config'' (\<lambda>w. (configHttpHandler conf w, [])) r1;
          r3 = HandleFunc ''/v1/shutdown'' (shutdownHttpHandler shutdown servers) r2;
          r4 = HandleFunc ''/v1/version'' (\<lambda>w. (versionHttpHandler v w, [])) r3
      in (r4, '':'' @ format_d (cfg_HttpPort conf)))"

text \<open>A request for one of the paths: the middleware that was added first is outermost.\<close>

definition serve_path :: "router \<Rightarrow> string \<Rightarrow> http_writer \<Rightarrow> (http_writer \<times> go_error list) option" where
  "serve_path r path w =
     map_option (\<lambda>h. foldr (\<lambda>m h. m h) (rt_middlewares r) h w) (map_of (rt_routes r) path)"

lemma InitApi_serves:
  "serve_path (fst (InitApi promhttp shutdown servers v conf)) path w =
     (let w1 = w\<lparr>hw_header := fmupd ''Content-Type'' ''application/json''
                (fmupd ''X-Clacks-Overhead'' ''GNU Terry Pratchett'' (hw_header w))\<rparr>
      in if path = ''/metrics'' then Some (promhttp w1)
         else if path = ''/v1/config'' then Some (configHttpHandler conf w1, [])
         else if path = ''/v1/shutdown'' then Some (shutdownHttpHandler shutdown servers w1)
         else if path = ''/v1/version'' then Some (versionHttpHandler v w1, [])
         else None)"
  by (simp add: InitApi_def serve_path_def HandleFunc_def Use_def InitPrometheus_def setContentTypeHeader_def
      addPratchettHeader_def Let_def)

lemma http_Write_ok [simp]:
  "hw_fails w = None \<Longrightarrow> http_Write t w = (None, (WriteHeader 200 w)\<lparr>hw_body := hw_body w @ t\<rparr>)"
  by (simp add: http_Write_def Let_def)

lemma WriteHeader_fails [simp]: "hw_fails (WriteHeader code w) = hw_fails w"
  by (simp add: WriteHeader_def split: option.splits)

section \<open>Answers\<close>

definition utf8_Version :: "Version \<Rightarrow> bool" where
  "utf8_Version v \<longleftrightarrow> utf8 (v_Hostname v) \<and> utf8 (v_Branch v) \<and> utf8 (v_Tag v) \<and> utf8 (v_Date v) \<and> utf8 (v_Revision v)"

lemma version_parses:
  assumes "utf8_Version v"
  shows "parse_json (json_text (json_Version v)) = Some (json_Version v, [])"
proof -
  have "decodable (json_Version v)"
    using assms by (simp add: decodable_def json_Version_def utf8_Version_def utf8_plain)
  then show ?thesis by (rule compact.reads_all)
qed

lemma config_parses:
  assumes "InitConfiguration file fresh = (None, a, out)"
  shows "parse_json (json_text (json_Configuration a)) = Some (json_Configuration a, [])"
  by (rule compact.reads_all [OF decodable_config [OF loaded_config_ok(1) [OF assms]]])

lemma shutdown_parses:
  "parse_json (CHR ''{'' # quote ''message'' @ '': '' @ quote ''shutting down server'' @ ''}'') =
     Some (JObj [(''message'', JStr ''shutting down server'')], [])"
  using parse_json_render [of "\<lambda>_. []" "'' ''" "JObj [(''message'', JStr ''shutting down server'')]" "[]" 0]
  by (simp add: separated_def utf8_plain)

text \<open>
  C39. Every request for one of the three paths of the API, on a connection that takes the answer, is
  answered with status 200, the type \<open>application/json\<close> and the second header, and a body that is exactly
  one JSON value: the running configuration, the version, or the announcement of a shutdown, which all
  registered servers have then been told.
\<close>

theorem api_answers_json:
  assumes "InitConfiguration file fresh = (None, a, out)" and "utf8_Version v"
    and "hw_status w = None" and "hw_fails w = None" and "hw_body w = []"
    and "path \<in> {''/v1/config'', ''/v1/shutdown'', ''/v1/version''}"
  shows "\<exists>w' errs value1. serve_path (fst (InitApi promhttp shutdown servers v a)) path w = Some (w', errs) \<and>
    hw_status w' = Some 200 \<and> parse_json (hw_body w') = Some (value1, []) \<and>
    fmlookup (hw_header w') ''Content-Type'' = Some ''application/json'' \<and>
    fmlookup (hw_header w') ''X-Clacks-Overhead'' = Some ''GNU Terry Pratchett'' \<and>
    (path = ''/v1/config'' \<longrightarrow> value1 = json_Configuration a) \<and>
    (path = ''/v1/version'' \<longrightarrow> value1 = json_Version v) \<and>
    (path = ''/v1/shutdown'' \<longrightarrow> value1 = JObj [(''message'', JStr ''shutting down server'')]) \<and>
    errs = (if path = ''/v1/shutdown'' then List.map_filter shutdown servers else [])"
proof -
  have shut: "Shutdown shutdown servers = List.map_filter shutdown servers"
    by (induction servers) (auto simp: map_filter_simps split: option.splits)
  show ?thesis
    using assms version_parses [OF assms(2)] config_parses [OF assms(1)] shutdown_parses
    by (auto simp: InitApi_serves Let_def configHttpHandler_def versionHttpHandler_def shutdownHttpHandler_def
        Marshal_def shut)
qed

text \<open>
  C23. What the API shows as the running configuration is itself a configuration file: a new process that
  reads the body of \<open>/v1/config\<close>, or the text printed at the start, accepts it, runs with the same
  configuration, and prints the same text again.
\<close>

theorem shown_configuration_is_read_back:
  assumes "InitConfiguration file fresh = (None, a, out)"
    and "hw_status w = None" and "hw_fails w = None" and "hw_body w = []"
  shows "\<exists>w' a'. serve_path (fst (InitApi promhttp shutdown servers v a)) ''/v1/config'' w = Some (w', []) \<and>
    hw_status w' = Some 200 \<and> InitConfiguration (Some (hw_body w')) fresh = (None, a', out) \<and>
    InitConfiguration (Some (drop (length ''running configuration: '') out)) fresh = (None, a', out) \<and>
    GetConfiguration a' = GetConfiguration a"
  using printed_is_read_back [OF assms(1)] assms(2-)
  by (auto simp: InitApi_serves Let_def configHttpHandler_def Marshal_def)

end
