(* ===== verification/Logging.thy ===== *)
theory Logging
  imports Config JsonRoundtrip "HOL-Library.List_Lexorder" "HOL-Library.Char_ord"
begin

text \<open>
  \<open>src/log.go\<close>: the structured logger. A message is a map that is written as one line of JSON, with the
  encoder of \<open>Json\<close>; the line can be read back. The file system is an argument.
\<close>

section \<open>Levels\<close>

type_synonym LogLevel = int

definition NOLOG :: LogLevel where "NOLOG = 0"
definition CRITICAL :: LogLevel where "CRITICAL = 1"
definition ERROR :: LogLevel where "ERROR = 2"
definition WARNING :: LogLevel where "WARNING = 3"
definition INFO :: LogLevel where "INFO = 4"
definition DEBUG :: LogLevel where "DEBUG = 5"

definition levelToString :: "LogLevel \<Rightarrow> string" where
  "levelToString level =
     (if level = CRITICAL then ''CRITICAL'' else if level = ERROR then ''ERROR''
      else if level = WARNING then ''WARNING'' else if level = INFO then ''INFO''
      else if level = DEBUG then ''DEBUG'' else ''UNDEFINED'')"

section \<open>Messages\<close>

type_synonym LogContext = "(string, string) fmap"

text \<open>A map of strings can always be marshalled; its keys come out sorted.\<close>

definition string_members :: "(string \<times> string) list \<Rightarrow> (string \<times> json) list" where
  "string_members kvs = map (\<lambda>(k, v). (k, JStr v)) kvs"

definition parseKeys :: "LogContext \<Rightarrow> string" where
  "parseKeys context1 = json_text (JObj (string_members (sorted_list_of_fmap context1)))"

section \<open>Loggers\<close>

text \<open>Where a logger writes; the null device is opened for reading only, so a write to it fails.\<close>

datatype log_handle = DevNull | Stderr | Stdout | LogFile string

record logger =
  lg_level :: LogLevel
  lg_handle :: "log_handle option"

definition zero_logger :: logger where
  "zero_logger = \<lparr>lg_level = NOLOG, lg_handle = None\<rparr>"

record LogMessage =
  lm_Level :: LogLevel
  lm_Context :: LogContext
  lm_DebugDetails :: "string option"

definition NewLogMessage :: "LogLevel \<Rightarrow> LogContext \<Rightarrow> string option \<Rightarrow> LogMessage" where
  "NewLogMessage level context1 debugDetails =
     \<lparr>lm_Level = level, lm_Context = context1, lm_DebugDetails = debugDetails\<rparr>"

text \<open>The local date and time that \<open>time.Now()\<close> is printed with, and the lines written so far.\<close>

record date =
  year :: nat
  month :: nat
  day :: nat
  hour :: nat
  minute :: nat
  second :: nat

type_synonym log_lines = "(log_handle \<times> string) list"

definition pad2 :: "nat \<Rightarrow> string" where
  "pad2 n = (if n < 10 then ''0'' @ decimal n else decimal n)"

definition format_date :: "date \<Rightarrow> string" where
  "format_date d = decimal (year d) @ ''-'' @ pad2 (month d) @ ''-'' @ pad2 (day d) @ '':'' @
     pad2 (hour d) @ '':'' @ pad2 (minute d) @ '':'' @ pad2 (second d)"

definition logger_output :: "log_handle \<Rightarrow> string \<Rightarrow> log_lines \<Rightarrow> log_lines" where
  "logger_output h text1 lines = (if h = DevNull then lines else lines @ [(h, text1 @ [newline])])"

text \<open>\<open>Log\<close> writes into the map it is given, so the map comes back.\<close>

definition Log :: "logger \<Rightarrow> LogMessage \<Rightarrow> date \<Rightarrow> log_lines \<Rightarrow> LogContext \<times> log_lines" where
  "Log l message now lines =
     (case lg_handle l of
        None \<Rightarrow> (lm_Context message, lines)
      | Some h \<Rightarrow>
          if lm_Level message \<le> lg_level l then
            let stamped = fmupd ''when'' (format_date now)
                  (fmupd ''level'' (levelToString (lm_Level message)) (lm_Context message));
                text1 = parseKeys stamped;
                details = (if DEBUG \<le> lg_level l then
                    case lm_DebugDetails message of
                      None \<Rightarrow> stamped
                    | Some d \<Rightarrow> fmupd ''debug'' d stamped
                  else stamped)
            in (details, logger_output h text1 lines)
          else (lm_Context message, lines))"

definition logger_Sprintf :: "logger \<Rightarrow> LogLevel \<Rightarrow> string \<Rightarrow> string" where
  "logger_Sprintf l level formatted =
     (if level \<le> lg_level l then formatted else ''[message suppressed by log system]'')"

text \<open>A value receiver: the copy is changed, and the logger the method is called on is what it was.\<close>

definition SetLevel :: "logger \<Rightarrow> LogLevel \<Rightarrow> logger" where
  "SetLevel l level = (let copy = l\<lparr>lg_level := level\<rparr> in l)"

definition getLoggerHandle :: "(string \<Rightarrow> go_error option) \<Rightarrow> string \<Rightarrow> go_error + log_handle" where
  "getLoggerHandle os_open location =
     (if location = '''' then
        (case os_open ''/dev/null'' of Some e \<Rightarrow> Inl (LogOpenFailed location e) | None \<Rightarrow> Inr DevNull)
      else if location = ''/dev/stderr'' then Inr Stderr
      else if location = ''/dev/stdout'' then Inr Stdout
      else case os_open location of
             Some e \<Rightarrow> Inl (LogOpenFailed location e)
           | None \<Rightarrow> Inr (LogFile location))"

record loggers =
  ls_Logger :: logger
  ls_QueryLogger :: logger

definition context_of :: "(string \<times> string) list \<Rightarrow> LogContext" where
  "context_of kvs = fmap_of_list (rev kvs)"

text \<open>\<open>show_logger\<close> prints a logger with \<open>%v\<close>, which shows an address.\<close>

definition InitLoggers ::
  "Configuration \<Rightarrow> (string \<Rightarrow> go_error option) \<Rightarrow> (logger \<Rightarrow> string) \<Rightarrow> date \<Rightarrow> loggers \<Rightarrow> log_lines
     \<Rightarrow> go_error option \<times> loggers \<times> log_lines" where
  "InitLoggers cfg os_open show_logger now ls lines =
     (case getLoggerHandle os_open (lc_Location (cfg_ServerLog cfg)) of
        Inl err \<Rightarrow> (Some (LogOpenFailed (lc_Location (cfg_ServerLog cfg)) err), ls, lines)
      | Inr handle \<Rightarrow>
          let l = \<lparr>lg_level = lc_Level (cfg_ServerLog cfg), lg_handle = Some handle\<rparr>;
              lines1 = snd (Log l (NewLogMessage INFO
                (context_of [(''what'', ''initialized new server logger at level ['' @
                   levelToString (lg_level l) @ '']'')]) (Some (show_logger l))) now lines);
              ls1 = ls\<lparr>ls_Logger := l\<rparr>
          in case getLoggerHandle os_open (lc_Location (cfg_QueryLog cfg)) of
               Inl err \<Rightarrow> (Some (LogOpenFailed (lc_Location (cfg_QueryLog cfg)) err), ls1, lines1)
             | Inr handle2 \<Rightarrow>
                 let ls2 = ls1\<lparr>ls_QueryLogger := \<lparr>lg_level = DEBUG, lg_handle = Some handle2\<rparr>\<rparr>
                 in (None, ls2,
                     snd (Log l \<lparr>lm_Level = INFO,
                       lm_Context = context_of [(''what'', ''initialized new query logger''),
                         (''logger'', logger_Sprintf (ls_Logger ls2) DEBUG (show_logger (ls_QueryLogger ls2)))],
                       lm_DebugDetails = None\<rparr> now lines1)))"

section \<open>Lines\<close>

lemma string_members_printable: "printable (render_members (\<lambda>_. []) [] d (string_members kvs))"
  by (induction kvs) (auto simp: quote_def string_members_def)

lemma parseKeys_printable [simp]: "printable (parseKeys c)"
  by (simp add: parseKeys_def json_text_def string_members_printable)

text \<open>
  C38. Whatever the strings of a message contain, \<open>Log\<close> writes at most one line, which has no control
  character before its end, so that no name or error text can forge a second one; and what it writes
  does not depend on the debugging details, which are only added once the line has been built.
\<close>

theorem Log_writes_one_line:
  "\<exists>ls. snd (Log l m now lines) = lines @ ls \<and> length ls \<le> 1 \<and>
     (\<forall>(h, t)\<in>set ls. lg_handle l = Some h \<and> lm_Level m \<le> lg_level l \<and> last t = newline \<and> printable (butlast t)) \<and>
     snd (Log l (m\<lparr>lm_DebugDetails := d\<rparr>) now lines) = lines @ ls"
  by (cases "lg_handle l") (auto simp: Log_def logger_output_def Let_def)

theorem Log_writes_one_line_witness:
  "\<exists>t. snd (Log \<lparr>lg_level = DEBUG, lg_handle = Some Stderr\<rparr>
       (NewLogMessage INFO (context_of [(''what'', [newline])]) (Some ''details''))
       \<lparr>year = 2020, month = 5, day = 4, hour = 3, minute = 2, second = 1\<rparr> []) = [(Stderr, t)] \<and>
     printable (butlast t)"
  using Log_writes_one_line [of "\<lparr>lg_level = DEBUG, lg_handle = Some Stderr\<rparr>"
      "NewLogMessage INFO (context_of [(''what'', [newline])]) (Some ''details'')"
      "\<lparr>year = 2020, month = 5, day = 4, hour = 3, minute = 2, second = 1\<rparr>" "[]" None]
  by (auto simp: Log_def NewLogMessage_def logger_output_def Let_def INFO_def DEBUG_def)

lemma decimal_ascii: "list_all (\<lambda>c. byte c < 128) (decimal n)"
  using decimal_digits [of _ n] by (fastforce simp: list_all_iff)

lemma format_date_utf8 [simp]: "utf8 (format_date d)"
  by (rule utf8_plain) (simp add: format_date_def pad2_def decimal_ascii)

lemma level_utf8 [simp]: "utf8 (levelToString level)"
  by (rule utf8_plain) (simp add: levelToString_def)

definition utf8_context :: "LogContext \<Rightarrow> bool" where
  "utf8_context c \<longleftrightarrow> fmpred (\<lambda>k v. utf8 k \<and> utf8 v) c"

lemma string_depth [simp]: "foldr (\<lambda>(k, v). max (json_depth v)) (string_members kvs) 0 = 0"
  by (induction kvs) (auto simp: string_members_def)

lemma parseKeys_parsed:
  assumes "utf8_context c"
  shows "parse_json (parseKeys c @ [newline]) = Some (JObj (string_members (sorted_list_of_fmap c)), [newline])"
proof -
  have "list_all (\<lambda>(k, v). utf8 k \<and> utf8 v) (sorted_list_of_fmap c)"
    using assms by (simp add: utf8_context_def curry_def)
  then have ok: "decodable (JObj (string_members (sorted_list_of_fmap c)))"
    by (auto simp: string_members_def list_all_iff decodable_def) (simp flip: string_members_def)
  have "separated [newline]" by (simp add: newline_def is_ws_def)
  from compact.reads_back [OF ok this] show ?thesis by (simp add: parseKeys_def)
qed

text \<open>
  C25. A line of the log can be read back: when the strings of a message are valid UTF-8, decoding the line
  that was written for it gives, in the order of the keys, exactly the message's own entries with its
  level and the date; nothing is lost, and no entry of the message can pass for another.
\<close>

theorem logged_line_parses_back:
  assumes "lg_handle l = Some h" and "h \<noteq> DevNull" and "lm_Level m \<le> lg_level l" and "utf8_context (lm_Context m)"
  shows "\<exists>t ms. snd (Log l m now lines) = lines @ [(h, t)] \<and> parse_json t = Some (JObj (string_members ms), [newline]) \<and>
    map_of ms = fmlookup (fmupd ''when'' (format_date now) (fmupd ''level'' (levelToString (lm_Level m)) (lm_Context m))) \<and>
    sorted (map fst ms) \<and> distinct (map fst ms)"
proof -
  define c where "c = fmupd ''when'' (format_date now) (fmupd ''level'' (levelToString (lm_Level m)) (lm_Context m))"
  have "utf8_context c"
    using assms(4) utf8_plain [of "''when''"] utf8_plain [of "''level''"]
    by (simp add: c_def utf8_context_def fmpred_upd)
  moreover have "snd (Log l m now lines) = lines @ [(h, parseKeys c @ [newline])]"
    using assms(1-3) by (simp add: Log_def logger_output_def Let_def c_def)
  moreover have "sorted (map fst (sorted_list_of_fmap c))" "distinct (map fst (sorted_list_of_fmap c))"
    by (simp_all add: sorted_list_of_fmap_def comp_def sorted_list_of_fset.rep_eq)
  ultimately show ?thesis
    unfolding c_def [symmetric] using parseKeys_parsed map_of_sorted_list by blast
qed

theorem logged_line_parses_back_witness:
  "\<exists>t ms. snd (Log \<lparr>lg_level = DEBUG, lg_handle = Some Stderr\<rparr> (NewLogMessage INFO (context_of [(''what'', [CHR 34])]) None)
       \<lparr>year = 2020, month = 5, day = 4, hour = 3, minute = 2, second = 1\<rparr> []) = [(Stderr, t)] \<and>
     parse_json t = Some (JObj (string_members ms), [newline]) \<and> map_of ms ''what'' = Some [CHR 34]"
proof -
  let ?l = "\<lparr>lg_level = DEBUG, lg_handle = Some Stderr\<rparr>"
  let ?m = "NewLogMessage INFO (context_of [(''what'', [CHR 34])]) None"
  have "lg_handle ?l = Some Stderr" "Stderr \<noteq> DevNull" "lm_Level ?m \<le> lg_level ?l" "utf8_context (lm_Context ?m)"
    by (simp_all add: NewLogMessage_def INFO_def DEBUG_def context_of_def utf8_context_def fmpred_upd utf8_plain)
  from logged_line_parses_back [OF this, of "\<lparr>year = 2020, month = 5, day = 4, hour = 3, minute = 2, second = 1\<rparr>" "[]"]
  obtain t ms where "snd (Log ?l ?m \<lparr>year = 2020, month = 5, day = 4, hour = 3, minute = 2, second = 1\<rparr> []) = [(Stderr, t)]"
      "parse_json t = Some (JObj (string_members ms), [newline])" "map_of ms ''what'' = fmlookup (lm_Context ?m) ''what''"
    by auto
  then show ?thesis by (auto simp: NewLogMessage_def context_of_def)
qed

text \<open>The configured level of the query log is not used.\<close>

lemma InitLoggers_query_level:
  assumes "InitLoggers cfg os_open show_logger now ls lines = (None, ls', lines')"
  shows "lg_level (ls_QueryLogger ls') = DEBUG \<and> lg_level (ls_Logger ls') = lc_Level (cfg_ServerLog cfg)"
  using assms by (auto simp: InitLoggers_def Let_def split: sum.splits)

lemma SetLevel_no_effect: "SetLevel l level = l"
  by (simp add: SetLevel_def)

end
