(* ===== verification/Service.thy ===== *)
theory Service
  imports Zones HttpApi Logging
begin

text \<open>
  The process around the servers: \<open>src/main.go\<close> with the files it reads and the listeners it starts, and
  the blackhole server of \<open>src/blackhole_server.go\<close>. What the operating system and the listeners of the
  DNS library do is an argument. The messages these functions log are left out.
\<close>

section \<open>The blackhole server\<close>

definition TypeTXT :: "16 word" where
  "TypeTXT = 16"

definition BlackholeServer_ServeDNS :: "dns_lib \<Rightarrow> Msg \<Rightarrow> Msg outcome" where
  "BlackholeServer_ServeDNS lib req =
     (let m = lib_SetReply lib zero_Msg req
      in case m_Question m of
           [] \<Rightarrow> Panic IndexOutOfRange
         | q # _ \<Rightarrow>
             Ok (m\<lparr>m_Extra := [\<lparr>rr_Name = q_Name q, rr_Rrtype = TypeTXT, rr_Ttl = 0, rr_Data = ''Hello world''\<rparr>]\<rparr>))"

text \<open>
  The blackhole server answers every query with a question by an empty answer under the query's
  identifier and question, with one greeting, and a query without a question brings it down.
\<close>

lemma blackhole_reply:
  assumes "dns_contract lib"
  shows "case m_Question req of
      [] \<Rightarrow> BlackholeServer_ServeDNS lib req = Panic IndexOutOfRange
    | q # _ \<Rightarrow> \<exists>m txt. BlackholeServer_ServeDNS lib req = Ok m \<and> m_Id m = m_Id req \<and> m_Question m = [q] \<and>
        m_Answer m = [] \<and> m_Rcode m = 0 \<and> m_Extra m = [txt] \<and> rr_Name txt = q_Name q"
proof -
  let ?m = "lib_SetReply lib zero_Msg req"
  have "m_Id ?m = m_Id req" "m_Rcode ?m = 0" "m_Answer ?m = []"
      "m_Question ?m = (case m_Question req of [] \<Rightarrow> [] | q # _ \<Rightarrow> [q])"
    using assms by (auto simp: dns_contract_def zero_Msg_def split: list.split)
  then show ?thesis
    by (cases "m_Question req") (simp_all add: BlackholeServer_ServeDNS_def Let_def)
qed

section \<open>The program\<close>

datatype event =
    ShowVersion string
  | Printed string
  | BuildInfo string
  | ApiListen string
  | Listen dns_server

datatype status = Exited int | Returned

record environment =
  en_version :: Version
  en_Stat :: "string \<Rightarrow> go_error option"
  en_ReadConf :: "string \<Rightarrow> string option"
  en_Open :: "string \<Rightarrow> go_error option"
  en_show_logger :: "logger \<Rightarrow> string"
  en_date :: date
  en_gomaxprocs :: int
  en_parse :: zone_parser
  en_ReadFile :: "string \<Rightarrow> go_error + string"
  en_clks :: "string \<Rightarrow> clock"
  en_store :: rr_store
  en_LoadX509KeyPair :: "string \<Rightarrow> string \<Rightarrow> go_error option"
  en_ListenAndServe :: "dns_server \<Rightarrow> go_error option"

definition validateConfFile :: "(string \<Rightarrow> go_error option) \<Rightarrow> string \<Rightarrow> go_error option" where
  "validateConfFile stat file = (if file = '''' then Some NoConfFile else stat file)"

definition validateFlags :: "(string \<Rightarrow> go_error option) \<Rightarrow> string \<Rightarrow> go_error option" where
  "validateFlags stat file = (case validateConfFile stat file of Some err \<Rightarrow> Some err | None \<Rightarrow> None)"

text \<open>\<open>Inl\<close> is the exit code of \<open>log.Fatalf\<close>, \<open>Inr\<close> what is returned when the listener ends.\<close>

definition runBlackholeServer :: "environment \<Rightarrow> Configuration \<Rightarrow> event list \<times> (int + go_error option)" where
  "runBlackholeServer en cfg =
     (if cfg_ListenProtocol cfg = ''tcp-tls'' then
        let srv = (''tcp-tls'', '':'' @ format_d (cfg_DnsPort cfg));
            tls = cfg_TlsConfig cfg
        in if tls = \<lparr>tls_PrivateKeyFile = '''', tls_CertificateFile = ''''\<rparr> then ([], Inl 1)
           else if tls_CertificateFile tls = '''' then ([], Inl 1)
           else if tls_PrivateKeyFile tls = '''' then ([], Inl 1)
           else (case en_LoadX509KeyPair en (tls_CertificateFile tls) (tls_PrivateKeyFile tls) of
                   Some _ \<Rightarrow> ([], Inl 1)
                 | None \<Rightarrow> ([Listen srv], Inr (en_ListenAndServe en srv)))
      else ([], Inr (Some (UnsupportedProtocol (cfg_ListenProtocol cfg)))))"

text \<open>The servers that \<open>main\<close> registers before it serves, and its serving of them.\<close>

definition dns_servers :: "Configuration \<Rightarrow> dns_server list" where
  "dns_servers cfg =
     (let dnsPort = (if cfg_DnsPort cfg = 0 then 53 else cfg_DnsPort cfg);
          addr = '':'' @ format_d dnsPort
      in addServer (addServer [] (''udp'', addr)) (''tcp'', addr))"

definition serve_dns :: "environment \<Rightarrow> Configuration \<Rightarrow> event list \<times> status" where
  "serve_dns en cfg =
     (map Listen (dns_servers cfg),
      case en_ListenAndServe en (last (dns_servers cfg)) of Some _ \<Rightarrow> Exited 1 | None \<Rightarrow> Returned)"

definition main_serve :: "environment \<Rightarrow> Configuration \<Rightarrow> event list \<times> status" where
  "main_serve en cfg =
     (if cfg_Blackhole cfg then
        (case runBlackholeServer en cfg of
           (evs, Inl code) \<Rightarrow> (evs, Exited code)
         | (evs, Inr (Some _)) \<Rightarrow> (evs, Exited 1)
         | (evs, Inr None) \<Rightarrow> (case serve_dns en cfg of (evs2, st) \<Rightarrow> (evs @ evs2, st)))
      else serve_dns en cfg)"

text \<open>\<open>main\<close>: what it does in order, how it ends, and the server and loggers it sets up.\<close>

definition main :: "environment \<Rightarrow> bool \<Rightarrow> string
     \<Rightarrow> event list \<times> status \<times> (MutexServer \<times> loggers) option" where
  "main en versionFlag confFile =
     (let version = Version_String (en_version en)
      in if versionFlag then ([ShowVersion version], Exited 0, None)
         else case validateFlags (en_Stat en) confFile of
           Some _ \<Rightarrow> ([], Exited 1, None)
         | None \<Rightarrow>
             (case InitConfiguration (en_ReadConf en confFile) fresh of
                (Some _, _, _) \<Rightarrow> ([BuildInfo version], Exited 1, None)
              | (None, a, out) \<Rightarrow>
                  let cfg = GetConfiguration a;
                      ls = fst (snd (InitLoggers cfg (en_Open en) (en_show_logger en) (en_date en)
                        \<lparr>ls_Logger = zero_logger, ls_QueryLogger = zero_logger\<rparr> []));
                      evs = [BuildInfo version, Printed out, ApiListen ('':'' @ format_d (cfg_HttpPort cfg))]
                  in case NewMutexServer cfg (en_gomaxprocs en) (case BuildClient cfg of Inl e \<Rightarrow> Some e | Inr _ \<Rightarrow> None) of
                       Inl _ \<Rightarrow> (evs, Exited 1, None)
                     | Inr server \<Rightarrow>
                         (case loadLocalZones cfg (en_parse en) (en_ReadFile en) (en_clks en) (en_store en) server of
                            None \<Rightarrow> (evs, Exited 1, None)
                          | Some server1 \<Rightarrow>
                              (case main_serve en cfg of
                                 (evs2, st) \<Rightarrow> (evs @ evs2, st, Some (server1, ls))))))"

text \<open>
  C40. In blackhole mode no query is ever resolved: as long as the blackhole's listener does not end
  cleanly, which only a shutdown could make it do and it is not registered for one, the program never
  listens with the resolving server, and it ends with exit code 1.
\<close>

theorem blackhole_never_resolves:
  assumes "main en False conf = (events, st, server)" and "InitConfiguration (en_ReadConf en conf) fresh = (None, a, out)"
    and "cfg = GetConfiguration a" and "cfg_Blackhole cfg"
    and "en_ListenAndServe en (''tcp-tls'', '':'' @ format_d (cfg_DnsPort cfg)) \<noteq> None"
  shows "st = Exited 1 \<and>
    (\<forall>srv. Listen srv \<in> set events \<longrightarrow> fst srv = ''tcp-tls'' \<and> srv \<notin> set (dns_servers cfg))"
proof -
  have bh: "\<exists>evs r. runBlackholeServer en cfg = (evs, r) \<and> (\<forall>ev\<in>set evs. ev = Listen (''tcp-tls'', '':'' @ format_d (cfg_DnsPort cfg))) \<and>
      (r = Inl 1 \<or> (\<exists>e. r = Inr (Some e)))"
    using assms(5) by (auto simp: runBlackholeServer_def Let_def split: option.splits)
  then have "\<exists>evs. main_serve en cfg = (evs, Exited 1) \<and>
      (\<forall>ev\<in>set evs. ev = Listen (''tcp-tls'', '':'' @ format_d (cfg_DnsPort cfg)))"
    by (auto simp: main_serve_def assms(4))
  with assms(1,2,3) show ?thesis
    by (auto simp: main_def Let_def dns_servers_def addServer_def split: option.splits sum.splits)
qed

text \<open>The default port is filled in for the resolving servers only.\<close>

lemma blackhole_port_not_defaulted:
  assumes "cfg_DnsPort cfg = 0" and "runBlackholeServer en cfg = (evs, r)" and "Listen srv \<in> set evs"
  shows "srv = (''tcp-tls'', '':0'') \<and> dns_servers cfg = [(''udp'', '':53''), (''tcp'', '':53'')]"
proof -
  have digits: "char_of (48::nat) = CHR ''0''" "char_of (51::nat) = CHR ''3''" "char_of (53::nat) = CHR ''5''"
    by code_simp+
  have "decimal 53 = decimal (53 div 10) @ [char_of (48 + 53 mod 10 :: nat)]" by (subst decimal.simps) simp
  also have "decimal (53 div 10) = [char_of (53::nat)]" by (subst decimal.simps) simp
  finally have ports: "format_d 53 = ''53''" "format_d 0 = ''0''"
    by (simp_all add: format_d_def decimal.simps [of 0] digits)
  show ?thesis
    using assms
    by (auto simp: runBlackholeServer_def Let_def dns_servers_def addServer_def ports split: if_splits option.splits)
qed

end
