(* ===== verification/MutexQueries.thy ===== *)
theory MutexQueries
  imports MutexServer
begin

text \<open>
  Recursive queries of the mutex server: the attempts a query makes, what it does with the connections
  it takes and dials, and what a failed exchange does to its upstream.
\<close>

section \<open>The books of one attempt\<close>

definition total_ids :: "connPool \<Rightarrow> nat option multiset" where
  "total_ids c = inside_ids c + closed_ids c"

definition dial_results :: "client_call \<Rightarrow> nat option set" where
  "dial_results call = {Some n | n. \<exists>a. cc_Dial call a = Inr n}"

lemma NewConnection_failed:
  assumes "connPool_NewConnection cfg now c u dial d = ((ce, Some err), c')"
  shows "c' = c \<or> (\<exists>p. c' = coolAndPurgeUpstream cfg now c p)"
  using assms by (auto simp: connPool_NewConnection_def Let_def split: sum.splits)

lemma NewConnection_dialled:
  "dial (Upstream_GetAddress u) = Inl e0 \<Longrightarrow>
     \<exists>ce err c'. connPool_NewConnection cfg now c u dial d = ((ce, Some err), c')"
  by (cases rule: getUpstream_cases [of c "Upstream_GetAddress u"])
    (auto simp: connPool_NewConnection_def Let_def)

lemma newConnection_cases:
  assumes "newConnection cfg call s u = ((ce, err), s')"
  obtains (dialled) n where "err = None" "s' = s" "cc_Dial call (Upstream_GetAddress u) = Inr n"
      "ce_Conn ce = Some n" "ce_upstream ce = u"
  | (failed) e where "err = Some (ConnectFailed (Upstream_GetAddress u) e)" "ce = zero_connEntry"
      "dial_fails cfg (ms_connPool s) (ms_connPool s')"
proof (cases "cc_Dial call (Upstream_GetAddress u)")
  case (Inr n)
  with assms show ?thesis
    by (intro dialled) (auto simp: newConnection_def connPool_NewConnection_def Let_def)
next
  case (Inl e0)
  obtain ce0 e c where nc: "connPool_NewConnection cfg (cc_now call) (ms_connPool s) u (cc_Dial call)
      (cc_dialDuration call) = ((ce0, Some e), c)"
    using NewConnection_dialled [where dial = "cc_Dial call", OF Inl] by blast
  have "dial_fails cfg (ms_connPool s) c" unfolding dial_fails_def using nc by blast
  with assms nc show ?thesis
    by (intro failed [of e]) (auto simp: newConnection_def Let_def)
qed

lemma dial_fails_ids: "dial_fails cfg c c' \<Longrightarrow> total_ids c' = total_ids c"
  using pool.quiet_law [of cfg c c'] by (simp add: total_ids_def)

lemma dial_fails_named:
  assumes "dial_fails cfg c c'"
  shows "named_upstreams c' = named_upstreams c"
proof -
  obtain now where "c' = c \<or> (\<exists>p. c' = coolAndPurgeUpstream cfg now c p)"
    using assms NewConnection_failed by (fastforce simp: dial_fails_def)
  then show ?thesis by (auto intro!: named_cong simp: Cooldown_def)
qed

lemma GetConnection_cases:
  assumes "MutexServer_GetConnection cfg call s w = Ok ((ce, err), s', w')"
    and "named_upstreams (ms_connPool s)"
  obtains (pooled) "err = None" "take_by_Get (ms_connPool s) (ce_Conn ce) (ms_connPool s')"
      "connPool_Get (cc_clk call) (ms_connPool s) = Ok ((ce, zero_Upstream), ms_connPool s')"
  | (dialled) n u where "err = None" "s' = s" "ce_Conn ce = Some n" "ce_upstream ce = u"
      "cc_Dial call (Upstream_GetAddress u) = Inr n"
      "connPool_Get (cc_clk call) (ms_connPool s) = Ok ((zero_connEntry, u), ms_connPool s)"
  | (failed) e where "err = Some e" "ce = zero_connEntry" "dial_fails cfg (ms_connPool s) (ms_connPool s')"
proof -
  from assms(1) obtain ce0 u c where g: "connPool_Get (cc_clk call) (ms_connPool s) = Ok ((ce0, u), c)"
    by (auto simp: MutexServer_GetConnection_def)
  show thesis
  proof (cases "u = zero_Upstream")
    case True
    with assms(1) g have "err = None" "ce = ce0" "ms_connPool s' = c"
      by (auto simp: MutexServer_GetConnection_def Let_def)
    with True g assms(2) show thesis by (intro pooled) (auto simp: take_by_Get_def)
  next
    case False
    from g False have dial: "ce0 = zero_connEntry" "c = ms_connPool s"
      by (auto elim: Get_owned)
    obtain ce1 err1 s2 where n: "newConnection cfg call (s\<lparr>ms_connPool := c\<rparr>) u = ((ce1, err1), s2)"
      by (metis surj_pair)
    have s: "s\<lparr>ms_connPool := c\<rparr> = s" by (simp add: dial)
    from n show thesis
    proof (cases rule: newConnection_cases)
      case (dialled k)
      with assms(1) g n False dial s show thesis
        by (intro that(2) [of k u]) (auto simp: MutexServer_GetConnection_def Let_def)
    next
      case (failed e)
      with assms(1) g n False dial(2) show thesis
        by (intro that(3) [of "ConnectFailed (Upstream_GetAddress u) e"])
          (auto simp: MutexServer_GetConnection_def Let_def)
    qed
  qed
qed

lemma GetConnection_ledger:
  assumes "MutexServer_GetConnection cfg call s w = Ok ((ce, err), s', w')"
    and "named_upstreams (ms_connPool s)"
  shows "named_upstreams (ms_connPool s')"
    and "\<exists>D. set_mset D \<subseteq> dial_results call \<and> size D \<le> 1 \<and>
      total_ids (ms_connPool s') + (if err = None then {#ce_Conn ce#} else {#}) = total_ids (ms_connPool s) + D"
proof -
  have "named_upstreams (ms_connPool s') \<and> (\<exists>D. set_mset D \<subseteq> dial_results call \<and> size D \<le> 1 \<and>
      total_ids (ms_connPool s') + (if err = None then {#ce_Conn ce#} else {#})
        = total_ids (ms_connPool s) + D)"
    using assms
  proof (cases rule: GetConnection_cases)
    case pooled
    have "named_upstreams (ms_connPool s')"
      using pooled(3) assms(2) by (cases rule: Get_owned) (auto simp: named_upstreams_def)
    moreover have "total_ids (ms_connPool s') + {#ce_Conn ce#} = total_ids (ms_connPool s)"
      using pool.take_law [OF pooled(2)] by (simp add: total_ids_def)
    ultimately show ?thesis using pooled(1) by (intro conjI exI [of _ "{#}"]) simp_all
  next
    case (dialled n u)
    then show ?thesis
      using assms(2) by (intro conjI exI [of _ "{#Some n#}"]) (auto simp: dial_results_def)
  next
    case (failed e)
    then show ?thesis
      using assms(2) dial_fails_ids [OF failed(3)] dial_fails_named [OF failed(3)]
      by (intro conjI exI [of _ "{#}"]) simp_all
  qed
  then show "named_upstreams (ms_connPool s')"
    "\<exists>D. set_mset D \<subseteq> dial_results call \<and> size D \<le> 1 \<and>
      total_ids (ms_connPool s') + (if err = None then {#ce_Conn ce#} else {#}) = total_ids (ms_connPool s) + D"
    by blast+
qed

lemma attempt_cases:
  assumes "MutexServer_attemptExchange cfg srt call m s w = Ok ((ce, r, err), s', w')"
  obtains (no_conn) e where "MutexServer_GetConnection cfg call s w = Ok ((ce, Some e), s', w')"
      "err = Some (NoPoolConnection e)" "r = None"
  | (answered) ce0 w1 reply where "MutexServer_GetConnection cfg call s w = Ok ((ce0, None), s', w1)"
      "attemptExchange cfg (cc_Exchange call) m ce0 w1 = Ok ((ce, reply, None), w')"
      "err = None" "r = Some reply"
  | (broken) ce0 ce1 s1 w1 w2 reply e c q qs where
      "MutexServer_GetConnection cfg call s w = Ok ((ce0, None), s1, w1)"
      "attemptExchange cfg (cc_Exchange call) m ce0 w1 = Ok ((ce1, reply, Some e), w2)"
      "connPool_CloseConnection cfg srt (cc_now call) (ms_connPool s1) (AddError ce1) = Ok c"
      "m_Question m = q # qs" "err = Some (LookupFailed (q_Name q) (connEntry_GetAddress (AddError ce1)))"
      "ce = zero_connEntry" "r = Some zero_Msg" "s' = s1\<lparr>ms_connPool := c\<rparr>"
      "w' = w2\<lparr>w_mt := (w_mt w2)\<lparr>mt_UpstreamErrors :=
         bump (connEntry_GetAddress (AddError ce1)) (mt_UpstreamErrors (w_mt w2))\<rparr>\<rparr>"
proof -
  obtain ce0 err0 s1 w1 where g: "MutexServer_GetConnection cfg call s w = Ok ((ce0, err0), s1, w1)"
    using assms by (auto simp: MutexServer_attemptExchange_def)
  show thesis
  proof (cases err0)
    case (Some e)
    with assms g show thesis
      by (intro no_conn [of e]) (auto simp: MutexServer_attemptExchange_def)
  next
    case None
    obtain ce1 reply err1 w2 where x: "attemptExchange cfg (cc_Exchange call) m ce0 w1 = Ok ((ce1, reply, err1), w2)"
      using assms g None by (auto simp: MutexServer_attemptExchange_def)
    show thesis
    proof (cases err1)
      case None
      with assms g x \<open>err0 = None\<close> show thesis
        by (intro answered [of ce0 w1 reply]) (auto simp: MutexServer_attemptExchange_def)
    next
      case (Some e)
      with assms g x \<open>err0 = None\<close> obtain q qs where q: "m_Question m = q # qs"
        by (cases "m_Question m") (auto simp: MutexServer_attemptExchange_def Let_def)
      obtain c where c: "connPool_CloseConnection cfg srt (cc_now call) (ms_connPool s1) (AddError ce1) = Ok c"
        using assms g x \<open>err0 = None\<close> Some by (auto simp: MutexServer_attemptExchange_def Let_def)
      from assms g x \<open>err0 = None\<close> Some q c show thesis
        by (intro broken [OF g [unfolded \<open>err0 = None\<close>] x [unfolded Some] c])
          (auto simp: MutexServer_attemptExchange_def Let_def)
    qed
  qed
qed

lemma attempt_named:
  assumes "sort_contract srt" "named_upstreams (ms_connPool s)"
    and "MutexServer_attemptExchange cfg srt call m s w = Ok ((ce, r, err), s', w')"
  shows "named_upstreams (ms_connPool s')"
  using assms(3)
proof (cases rule: attempt_cases)
  case (broken ce0 ce1 s1 w1 w2 reply e c q qs)
  then show ?thesis
    using Close_named [OF assms(1) broken(3)] GetConnection_ledger(1) [OF broken(1) assms(2)] by simp
qed (use GetConnection_ledger(1) assms(2) in blast)+

lemma attempt_ledger:
  assumes "named_upstreams (ms_connPool s)"
    and "MutexServer_attemptExchange cfg srt call m s w = Ok ((ce, r, err), s', w')"
  shows "\<exists>D. set_mset D \<subseteq> dial_results call \<and> size D \<le> 1 \<and>
    total_ids (ms_connPool s') + (if err = None then {#ce_Conn ce#} else {#}) = total_ids (ms_connPool s) + D"
  using assms(2)
proof (cases rule: attempt_cases)
  case (no_conn e)
  then show ?thesis using GetConnection_ledger(2) [OF no_conn(1) assms(1)] by simp
next
  case (answered ce0 w1 reply)
  have "ce_Conn ce = ce_Conn ce0"
    using answered(2) by (auto simp: attemptExchange_Ok)
  then show ?thesis using GetConnection_ledger(2) [OF answered(1) assms(1)] answered(3) by simp
next
  case (broken ce0 ce1 s1 w1 w2 reply e c q qs)
  have ids: "ce_Conn (AddError ce1) = ce_Conn ce0"
    using broken(2) by (auto simp: attemptExchange_Ok AddError_def)
  have "shut_by_Close cfg srt (ms_connPool s1) (ce_Conn (AddError ce1)) c"
    using broken(3) by (auto simp: shut_by_Close_def)
  then have "total_ids c = total_ids (ms_connPool s1) + {#ce_Conn ce0#}"
    using pool.shut_law [of cfg srt "ms_connPool s1"] ids by (simp add: total_ids_def)
  then show ?thesis using GetConnection_ledger(2) [OF broken(1) assms(1)] broken(5,8) by simp
qed

section \<open>The attempts of a query\<close>

text \<open>The first \<open>k\<close> attempts of a query all fail; the last component is the latest error.\<close>

inductive failed_attempts ::
  "Configuration \<Rightarrow> sort_fun \<Rightarrow> (nat \<Rightarrow> client_call) \<Rightarrow> Msg \<Rightarrow> nat \<Rightarrow> MutexServer \<Rightarrow> world
     \<Rightarrow> MutexServer \<Rightarrow> world \<Rightarrow> go_error option \<Rightarrow> bool"
  for cfg srt calls m where
  fa_none: "failed_attempts cfg srt calls m 0 s w s w None"
| fa_more: "\<lbrakk>failed_attempts cfg srt calls m k s w s1 w1 e0;
     MutexServer_attemptExchange cfg srt (calls k) m s1 w1 = Ok ((ce, r, Some e), s2, w2)\<rbrakk> \<Longrightarrow>
     failed_attempts cfg srt calls m (Suc k) s w s2 w2 (Some e)"

lemma failed_attempts_ledger:
  assumes "failed_attempts cfg srt calls m k s w s' w' eo" and "sort_contract srt"
    and "named_upstreams (ms_connPool s)"
  shows "named_upstreams (ms_connPool s') \<and>
    (\<exists>D. set_mset D \<subseteq> (\<Union>j<k. dial_results (calls j)) \<and> size D \<le> k \<and>
       total_ids (ms_connPool s') = total_ids (ms_connPool s) + D)"
  using assms(1,3)
proof (induction rule: failed_attempts.induct)
  case (fa_none s w)
  then show ?case by (intro conjI exI [of _ "{#}"]) simp_all
next
  case (fa_more k s w s1 w1 e0 ce r e s2 w2)
  then obtain D where D: "set_mset D \<subseteq> (\<Union>j<k. dial_results (calls j))" "size D \<le> k"
      "total_ids (ms_connPool s1) = total_ids (ms_connPool s) + D" and n: "named_upstreams (ms_connPool s1)"
    by blast
  obtain D1 where "set_mset D1 \<subseteq> dial_results (calls k)" "size D1 \<le> 1"
      "total_ids (ms_connPool s2) = total_ids (ms_connPool s1) + D1"
    using attempt_ledger [OF n fa_more(2)] by auto
  with D have "set_mset (D + D1) \<subseteq> (\<Union>j<Suc k. dial_results (calls j))" "size (D + D1) \<le> Suc k"
    "total_ids (ms_connPool s2) = total_ids (ms_connPool s) + (D + D1)"
    by (auto simp: lessThan_Suc)
  then show ?case using attempt_named [OF assms(2) n fa_more(2)] by blast
qed

lemma loop_outcome:
  assumes "failed_attempts cfg srt calls m i s0 w0 s w (snd (snd var))"
    and "RecursiveQuery_loop cfg srt calls m k i var s w = Ok (res, s', w')"
  shows "(\<exists>j s1 w1 e1 ce reply. i \<le> j \<and> j < i + k \<and> failed_attempts cfg srt calls m j s0 w0 s1 w1 e1 \<and>
      MutexServer_attemptExchange cfg srt (calls j) m s1 w1 = Ok ((ce, Some reply, None), s', w') \<and>
      res = (Some ce, Some reply, None)) \<or>
    failed_attempts cfg srt calls m (i + k) s0 w0 s' w' (snd (snd res)) \<and>
      (if k = 0 then res = var else snd (snd res) \<noteq> None)"
  using assms
proof (induction k arbitrary: i s w var)
  case 0
  then show ?case by auto
next
  case (Suc k)
  obtain ce r err s1 w1 where a: "MutexServer_attemptExchange cfg srt (calls i) m s w = Ok ((ce, r, err), s1, w1)"
    using Suc.prems(2) by auto
  show ?case
  proof (cases err)
    case None
    then obtain reply where "r = Some reply" using a by (auto elim: attempt_cases)
    with None a Suc.prems show ?thesis
      by (intro disjI1 exI [of _ i] exI [of _ s] exI [of _ w] exI [of _ "snd (snd var)"]
          exI [of _ ce] exI [of _ reply]) auto
  next
    case (Some e)
    have f: "failed_attempts cfg srt calls m (i + 1) s0 w0 s1 w1 (snd (snd (Some ce, r, Some e)))"
      using fa_more [OF Suc.prems(1) a [unfolded Some]] by simp
    have l: "RecursiveQuery_loop cfg srt calls m k (i + 1) (Some ce, r, Some e) s1 w1 = Ok (res, s', w')"
      using Suc.prems(2) a Some by simp
    from Suc.IH [OF f l] show ?thesis
    proof (elim disjE exE conjE)
      fix j s2 w2 e2 ce2 reply
      assume "i + 1 \<le> j" "j < i + 1 + k" "failed_attempts cfg srt calls m j s0 w0 s2 w2 e2"
        "MutexServer_attemptExchange cfg srt (calls j) m s2 w2 = Ok ((ce2, Some reply, None), s', w')"
        "res = (Some ce2, Some reply, None)"
      then show ?thesis
        by (intro disjI1 exI [of _ j] exI [of _ s2] exI [of _ w2] exI [of _ e2]
            exI [of _ ce2] exI [of _ reply]) auto
    qed (auto split: if_splits)
  qed
qed

text \<open>The message \<open>RecursiveQuery\<close> sends, and its state at the first attempt.\<close>

definition query_msg :: "dns_lib \<Rightarrow> string \<Rightarrow> 16 word \<Rightarrow> Msg" where
  "query_msg lib domain rrtype = (lib_SetQuestion lib zero_Msg domain rrtype)\<lparr>m_RecursionDesired := True\<rparr>"

definition count_query :: "world \<Rightarrow> world" where
  "count_query w = w\<lparr>w_mt := (w_mt w)\<lparr>mt_RecursiveQueries := mt_RecursiveQueries (w_mt w) + 1\<rparr>\<rparr>"

lemma RecursiveQuery_cases:
  assumes "RecursiveQuery lib cfg srt calls fin born s w domain rrtype = Ok ((resp, address, err), s', w')"
    and "0 \<le> cfg_UpstreamRetries cfg"
  obtains (answered) k s1 w1 e1 ce reply s2 where "k \<le> nat (cfg_UpstreamRetries cfg)"
      "failed_attempts cfg srt calls (query_msg lib domain rrtype) k s (count_query w) s1 w1 e1"
      "MutexServer_attemptExchange cfg srt (calls k) (query_msg lib domain rrtype) s1 w1
         = Ok ((ce, Some reply, None), s2, w')"
      "s' = s2\<lparr>ms_connPool := snd (connPool_Add cfg srt fin (ms_connPool s2) ce)\<rparr>"
      "resp = fst (processResults born reply domain rrtype)" "address = connEntry_GetAddress ce" "err = None"
  | (gave_up) e where
      "failed_attempts cfg srt calls (query_msg lib domain rrtype) (nat (cfg_UpstreamRetries cfg) + 1)
         s (count_query w) s' w' (Some e)"
      "resp = zero_Response" "address = []" "err = Some (NoExchange e)"
proof -
  let ?m = "query_msg lib domain rrtype"
  let ?K = "nat (cfg_UpstreamRetries cfg) + 1"
  have K: "nat (cfg_UpstreamRetries cfg + 1) = ?K" using assms(2) by simp
  obtain ce r er s1 w1 where
    l: "RecursiveQuery_loop cfg srt calls ?m ?K 0 (None, None, None) s (count_query w) = Ok ((ce, r, er), s1, w1)"
    and rest: "(case er of
                Some e \<Rightarrow> Ok ((zero_Response, [], Some (NoExchange e)), s1, w1)
              | None \<Rightarrow>
                  (case ce of
                     None \<Rightarrow> Panic NilDereference
                   | Some ce1 \<Rightarrow>
                       let (err1, c) = connPool_Add cfg srt fin (ms_connPool s1) ce1;
                           s2 = s1\<lparr>ms_connPool := c\<rparr>
                       in case r of
                            None \<Rightarrow> Panic NilDereference
                          | Some msg \<Rightarrow>
                              (case processResults born msg domain rrtype of
                                 (reply, err2) \<Rightarrow>
                                   Ok ((reply, connEntry_GetAddress ce1, err2), s2, w1))))
        = Ok ((resp, address, err), s', w')"
    using assms(1) unfolding RecursiveQuery_def Let_def query_msg_def [symmetric] count_query_def [symmetric] K
    by auto
  have start: "failed_attempts cfg srt calls ?m 0 s (count_query w) s (count_query w)
      (snd (snd ((None, None, None) :: tried)))"
    by (simp add: fa_none)
  from loop_outcome [OF start l] show thesis
  proof (elim disjE exE conjE)
    fix j s0 w0 e1 ce0 reply
    assume "j < 0 + ?K" "failed_attempts cfg srt calls ?m j s (count_query w) s0 w0 e1"
      "MutexServer_attemptExchange cfg srt (calls j) ?m s0 w0 = Ok ((ce0, Some reply, None), s1, w1)"
      "(ce, r, er) = (Some ce0, Some reply, None)"
    with rest show thesis
      by (intro answered [of j s0 w0 e1 ce0 reply s1])
        (auto simp: Let_def processResults_def split: prod.splits)
  next
    assume "failed_attempts cfg srt calls ?m (0 + ?K) s (count_query w) s1 w1 (snd (snd (ce, r, er)))"
      "if ?K = 0 then (ce, r, er) = (None, None, None) else snd (snd (ce, r, er)) \<noteq> None"
    with rest show thesis by (auto intro: gave_up)
  qed
qed

text \<open>
  C12. A recursive query tries until an attempt succeeds, but at most \<open>UpstreamRetries\<close> + 1 times.
  The response is the reply of the first attempt that succeeds, under the name and type that were
  asked for, and its connection goes back to the pool. If all attempts fail, the error is the latest
  one and there is no response.
\<close>

theorem RecursiveQuery_first_success:
  assumes "0 \<le> cfg_UpstreamRetries cfg"
    and "RecursiveQuery lib cfg srt calls fin born s w domain rrtype = Ok ((resp, address, err), s', w')"
  shows "case err of
      None \<Rightarrow> \<exists>k s1 w1 e1 ce reply s2. k \<le> nat (cfg_UpstreamRetries cfg) \<and>
        failed_attempts cfg srt calls (query_msg lib domain rrtype) k s (count_query w) s1 w1 e1 \<and>
        MutexServer_attemptExchange cfg srt (calls k) (query_msg lib domain rrtype) s1 w1
          = Ok ((ce, Some reply, None), s2, w') \<and>
        ms_connPool s' = snd (connPool_Add cfg srt fin (ms_connPool s2) ce) \<and>
        resp_Entry resp = reply \<and> resp_Name resp = domain \<and> resp_Qtype resp = rrtype \<and>
        resp_CreationTime resp = born \<and> address = connEntry_GetAddress ce
    | Some er \<Rightarrow> \<exists>e. er = NoExchange e \<and> resp = zero_Response \<and>
        failed_attempts cfg srt calls (query_msg lib domain rrtype) (nat (cfg_UpstreamRetries cfg) + 1)
          s (count_query w) s' w' (Some e)"
  using assms(2,1)
proof (cases rule: RecursiveQuery_cases)
  case (answered k s1 w1 e1 ce reply s2)
  then show ?thesis by (simp only: option.case) (intro exI conjI, assumption+, simp_all)
next
  case (gave_up e)
  then show ?thesis by simp
qed

text \<open>
  C13. A recursive query leaks no connection: whatever the upstreams do, every connection it took from
  the pool or dialled is, when it returns, in the pool, waiting to be closed, or closed; and it dials
  at most once per attempt.
\<close>

theorem RecursiveQuery_leaks_nothing:
  assumes "sort_contract srt" and "named_upstreams (ms_connPool s)" and "0 \<le> cfg_UpstreamRetries cfg"
    and "RecursiveQuery lib cfg srt calls fin born s w domain rrtype = Ok (res, s', w')"
  shows "\<exists>D. set_mset D \<subseteq> (\<Union>k\<le>nat (cfg_UpstreamRetries cfg). dial_results (calls k)) \<and>
    size D \<le> nat (cfg_UpstreamRetries cfg) + 1 \<and>
    inside_ids (ms_connPool s') + closed_ids (ms_connPool s')
      = inside_ids (ms_connPool s) + closed_ids (ms_connPool s) + D"
proof -
  obtain resp address err where "res = (resp, address, err)" by (rule prod_cases3)
  note q = assms(4) [unfolded this]
  let ?K = "nat (cfg_UpstreamRetries cfg)"
  from q assms(3) show ?thesis
  proof (cases rule: RecursiveQuery_cases)
    case (answered k s1 w1 e1 ce reply s2)
    obtain D where D: "set_mset D \<subseteq> (\<Union>j<k. dial_results (calls j))" "size D \<le> k"
        "total_ids (ms_connPool s1) = total_ids (ms_connPool s) + D" and n: "named_upstreams (ms_connPool s1)"
      using failed_attempts_ledger [OF answered(2) assms(1,2)] by blast
    obtain D1 where D1: "set_mset D1 \<subseteq> dial_results (calls k)" "size D1 \<le> 1"
        "total_ids (ms_connPool s2) + {#ce_Conn ce#} = total_ids (ms_connPool s1) + D1"
      using attempt_ledger [OF n answered(3)] by auto
    have "give_by_Add cfg srt (ms_connPool s2) (ce_Conn ce) (ms_connPool s')"
      unfolding give_by_Add_def
      by (intro exI [of _ fin] exI [of _ ce] exI [of _ "fst (connPool_Add cfg srt fin (ms_connPool s2) ce)"])
        (simp add: answered(4))
    then have "total_ids (ms_connPool s') = total_ids (ms_connPool s2) + {#ce_Conn ce#}"
      using pool.give_law [of cfg srt "ms_connPool s2"] by (simp add: total_ids_def)
    then have "total_ids (ms_connPool s') = total_ids (ms_connPool s) + (D + D1)"
      using D(3) D1(3) by simp
    moreover have "set_mset (D + D1) \<subseteq> (\<Union>k\<le>?K. dial_results (calls k))"
    proof -
      have "{..<k} \<subseteq> {..?K}" "k \<in> {..?K}" using answered(1) by auto
      then show ?thesis using D(1) D1(1) by fastforce
    qed
    moreover have "size (D + D1) \<le> ?K + 1" using D(2) D1(2) answered(1) by simp
    ultimately show ?thesis unfolding total_ids_def by (intro exI [of _ "D + D1"] conjI)
  next
    case (gave_up e)
    have "{..<?K + 1} = {..?K}" by auto
    then show ?thesis
      using failed_attempts_ledger [OF gave_up(1) assms(1,2)] by (simp add: total_ids_def)
  qed
qed

section \<open>A failed exchange\<close>

lemma GetConnection_world:
  assumes "MutexServer_GetConnection cfg call s w = Ok (res, s', w')"
  shows "w_store w' = w_store w" "w_log w' = w_log w"
    "mt_UpstreamErrors (w_mt w') = mt_UpstreamErrors (w_mt w)"
proof -
  obtain ce u c where g: "connPool_Get (cc_clk call) (ms_connPool s) = Ok ((ce, u), c)"
    using assms by (auto simp: MutexServer_GetConnection_def)
  let ?s1 = "s\<lparr>ms_connPool := c\<rparr>"
  obtain ce1 err s2 where d: "(if u \<noteq> zero_Upstream then newConnection cfg call ?s1 u
      else ((ce, None), ?s1)) = ((ce1, err), s2)"
    by (metis surj_pair)
  show "w_store w' = w_store w" "w_log w' = w_log w"
    "mt_UpstreamErrors (w_mt w') = mt_UpstreamErrors (w_mt w)"
    using assms by (cases err; force simp: MutexServer_GetConnection_def g Let_def d)+
qed

lemma GetConnection_upstreams:
  assumes "MutexServer_GetConnection cfg call s w = Ok ((ce, None), s', w')"
    and "named_upstreams (ms_connPool s)"
  shows "cp_upstreams (ms_connPool s') = cp_upstreams (ms_connPool s)"
    and "cp_store (ms_connPool s') = cp_store (ms_connPool s)"
    and "cp_closed (ms_connPool s') = cp_closed (ms_connPool s)"
    and "mt_UpstreamErrors (w_mt w') = mt_UpstreamErrors (w_mt w)"
proof -
  show "mt_UpstreamErrors (w_mt w') = mt_UpstreamErrors (w_mt w)"
    by (rule GetConnection_world(3) [OF assms(1)])
  show "cp_upstreams (ms_connPool s') = cp_upstreams (ms_connPool s)"
    "cp_store (ms_connPool s') = cp_store (ms_connPool s)"
    "cp_closed (ms_connPool s') = cp_closed (ms_connPool s)"
    using assms by (cases rule: GetConnection_cases; auto elim: Get_owned)+
qed

lemma Get_takes_first:
  assumes "connPool_Get clk c = Ok ((ce, u), c')"
  obtains taken rest where "pool_conns c a = taken @ rest" "pool_conns c' a = rest"
    "cp_closing c' = cp_closing c" "taken = [] \<or> taken = [ce]"
proof -
  from assms obtain b where best: "getBestUpstream clk c = Ok b"
    by (auto simp: connPool_Get_def)
  show thesis
  proof (cases "pool_conns c (Upstream_GetAddress b)")
    case Nil
    with assms have "c' = c" by (simp add: Get_eq [OF best])
    then show thesis using that [of "[]"] by simp
  next
    case (Cons t ts)
    with assms have "t = ce"
        "c' = set_gauge (Upstream_GetAddress b) (c\<lparr>cp_cache := fmupd (Upstream_GetAddress b) ts (cp_cache c)\<rparr>)"
      by (simp_all add: Get_eq [OF best])
    then have "cp_closing c' = cp_closing c"
        "pool_conns c' a = (if a = Upstream_GetAddress b then ts else pool_conns c a)"
      by (simp_all add: pool_conns_def)
    then show thesis
      using that [of "[ce]"] that [of "[]"] Cons \<open>t = ce\<close> by (cases "a = Upstream_GetAddress b") simp_all
  qed
qed

lemma GetConnection_pool:
  assumes "MutexServer_GetConnection cfg call s w = Ok ((ce, None), s', w')"
    and "named_upstreams (ms_connPool s)"
  obtains taken rest where "pool_conns (ms_connPool s) a = taken @ rest"
    "pool_conns (ms_connPool s') a = rest" "cp_closing (ms_connPool s') = cp_closing (ms_connPool s)"
    "taken = [] \<or> taken = [ce]"
  using assms
proof (cases rule: GetConnection_cases)
  case pooled
  then show thesis using Get_takes_first [OF pooled(3), of a] that by metis
next
  case (dialled n u)
  then show thesis using that [of "[]"] by simp
qed simp

text \<open>
  C14. An exchange that fails costs its upstream all connections: the one that was used is closed
  with its error flag set, all others that the pool has for the upstream are handed to closing
  goroutines, in order and before any goroutine ran, and the upstream cools from then on. The error
  counter of the upstream goes up by two for the one failure, once in each of the two functions
  called \<open>attemptExchange\<close>.
\<close>

theorem failed_exchange_severs_upstream:
  assumes "named_upstreams (ms_connPool s)" and "p \<in> set (cp_upstreams (ms_connPool s))"
    and "Upstream_GetAddress (cp_store (ms_connPool s) p) = address"
    and "MutexServer_attemptExchange cfg srt call m s w = Ok ((ce, r, Some (LookupFailed n address)), s', w')"
  shows "pool_conns (ms_connPool s') address = [] \<and>
    (\<exists>ce' taken rest. cp_closed (ms_connPool s') = cp_closed (ms_connPool s) @ [ce'] \<and> ce_error ce' \<and>
       connEntry_GetAddress ce' = address \<and>
       pool_conns (ms_connPool s) address = taken @ rest \<and>
       (taken = [] \<or> (\<exists>t. taken = [t] \<and> ce_Conn t = ce_Conn ce')) \<and>
       cp_closing (ms_connPool s') = cp_closing (ms_connPool s) @ rest) \<and>
    (\<exists>q\<in>set (cp_upstreams (ms_connPool s)). Upstream_GetAddress (cp_store (ms_connPool s) q) = address \<and>
       up_wakeupTime (cp_store (ms_connPool s') q) = time_add (cc_now call) (cooldownPeriod cfg)) \<and>
    mt_UpstreamErrors (w_mt w') address = mt_UpstreamErrors (w_mt w) address + 2"
  using assms(4)
proof (cases rule: attempt_cases)
  case (broken ce0 ce1 s1 w1 w2 reply e c q qs)
  let ?ce = "AddError ce1"
  note g = GetConnection_upstreams [OF broken(1) assms(1)]
  have addr: "connEntry_GetAddress ?ce = address" using broken(5) by simp
  have same: "connEntry_GetAddress ce0 = address" "ce_Conn ?ce = ce_Conn ce0"
    using broken(2) addr by (auto simp: attemptExchange_Ok AddError_def connEntry_GetAddress_def)
  have err: "ce_error ?ce" by (simp add: AddError_def)
  let ?u = "updateUpstream cfg srt (cc_now call) (ms_connPool s1) ?ce"
  have c: "c = (snd ?u)\<lparr>cp_closed := cp_closed (snd ?u) @ [?ce]\<rparr>"
    using broken(3) by (auto simp: connPool_CloseConnection_def connEntry_Close_def split: option.splits)
  obtain taken rest where t: "pool_conns (ms_connPool s) address = taken @ rest"
      "pool_conns (ms_connPool s1) address = rest" "cp_closing (ms_connPool s1) = cp_closing (ms_connPool s)"
      "taken = [] \<or> taken = [ce0]"
    by (rule GetConnection_pool [OF broken(1) assms(1)])
  obtain q' where q': "q' \<in> set (cp_upstreams (ms_connPool s1))"
      "Upstream_GetAddress (cp_store (ms_connPool s1) q') = address"
      "pool_conns (snd ?u) address = []"
      "cp_closing (snd ?u) = cp_closing (ms_connPool s1) @ pool_conns (ms_connPool s1) address"
      "up_wakeupTime (cp_store (snd ?u) q') = time_add (cc_now call) (cooldownPeriod cfg)"
    using update_faulty [where p = p and c = "ms_connPool s1" and ce = ?ce and cfg = cfg and srt = srt
        and now = "cc_now call"] assms(2,3) err
    unfolding g addr by metis
  have "pool_conns c address = []" using q'(3) by (simp add: c pool_conns_def)
  moreover have "mt_UpstreamErrors (w_mt w') address = mt_UpstreamErrors (w_mt w) address + 2"
    using broken(2) by (auto simp: attemptExchange_Ok broken(9) addr same(1) bump_def g(4))
  moreover have "cp_closed c = cp_closed (ms_connPool s) @ [?ce]"
    "cp_closing c = cp_closing (ms_connPool s) @ rest"
    using g(3) q'(4) t by (simp_all add: c)
  moreover have "taken = [] \<or> (\<exists>t. taken = [t] \<and> ce_Conn t = ce_Conn ?ce)"
    using t(4) same(2) by auto
  moreover have "up_wakeupTime (cp_store c q') = time_add (cc_now call) (cooldownPeriod cfg)"
    using q'(5) by (simp add: c)
  ultimately show ?thesis
    using q'(1,2) err addr t(1) unfolding g by (auto simp: broken(8) intro!: exI [of _ ?ce])
qed simp_all

end
