(* ===== verification/CrewRuns.thy ===== *)
theory CrewRuns
  imports CleaningCrew
begin

text \<open>
  Runs of the cleaning crew: no panic while there is a trashman and the interval is positive, the panics
  otherwise, the removal of expired entries, entries that no cleaning removes, the batches, and what a
  late removal does to an entry that was stored anew.
\<close>

section \<open>Panics\<close>

lemma receive_trashman [simp]:
  "rc_TrashMan (snd (trashMan_receive order t rc r)) = rc_TrashMan rc"
  "rc_TrashMan (snd (trashMan_pause order t rc p)) = rc_TrashMan rc"
  by (simp_all add: trashMan_receive_def trashMan_pause_def FlushResponses_def Let_def split: prod.splits)

text \<open>The interval at which the janitor is to clean.\<close>

definition cleaning_interval :: "Configuration \<Rightarrow> duration" where
  "cleaning_interval cfg = j_interval (janitor_Start cfg \<lparr>j_running = False, j_interval = 0\<rparr>)"

definition crew_safe :: "RecordCache \<Rightarrow> bool" where
  "crew_safe rc \<longleftrightarrow> rc_TrashMan rc \<noteq> None \<and> (\<forall>j. rc_Janitor rc = Some j \<longrightarrow> 0 < nanos (j_interval j))"

lemma receive_janitor [simp]:
  "rc_Janitor (snd (trashMan_receive order t rc r)) = rc_Janitor rc"
  "rc_Janitor (snd (trashMan_pause order t rc p)) = rc_Janitor rc"
  by (simp_all add: trashMan_receive_def trashMan_pause_def FlushResponses_def Let_def split: prod.splits)

lemma crew_step_safe:
  assumes "crew_step oob s s'" and "crew_safe (c_rc s)" and "c_panic s = None"
  shows "crew_safe (c_rc s') \<and> c_panic s' = None"
  using assms(1)
proof cases
  case (crew_client k)
  then show ?thesis using assms(2,3) by cases (auto simp: crew_safe_def RecordCache_Remove_def)
next
  case crew_works
  then show ?thesis
  proof cases
    case (crew_get clk oth n q res rc' st')
    then show ?thesis
      using assms(2,3) shared_fields(2,3) [of oob clk oth "c_rc s" n q "c_store s"] by (simp add: crew_safe_def)
  next
    case (crew_clean j d order clk n rc')
    then show ?thesis
      using assms(2,3) Clean_fields [of order clk "c_store s" "c_rc s" n rc'] by (simp add: crew_safe_def)
  next
    case (crew_evict xs r ys t order t' rc')
    then show ?thesis
      using assms(2,3) receive_janitor(1) [of order t "c_rc s" r] by (simp add: crew_safe_def)
  next
    case (crew_pause t order p t' rc')
    then show ?thesis
      using assms(2,3) receive_janitor(2) [of order t "c_rc s" p] by (simp add: crew_safe_def)
  qed (use assms(2,3) in \<open>auto simp: crew_safe_def NewTicker_def split: if_splits\<close>)
qed

lemma crew_start_safe: "0 < nanos (cleaning_interval cfg) \<Longrightarrow> crew_safe (StartCleaningCrew cfg NewCache)"
  by (simp add: crew_safe_def StartCleaningCrew_def NewCache_def cleaning_interval_def janitor_Start_def Let_def)

text \<open>With the crew started and a positive interval, no step of clients, janitor or trashman panics.\<close>

lemma crew_never_panics:
  assumes "(crew_step oob)\<^sup>*\<^sup>* (crew_start cfg st) s" and "0 < nanos (cleaning_interval cfg)"
  shows "c_panic s = None"
proof -
  have "crew_safe (c_rc s) \<and> c_panic s = None"
    using assms(1)
  proof (induction rule: rtranclp_induct)
    case base
    show ?case using crew_start_safe [OF assms(2)] by (simp add: crew_start_def)
  next
    case (step s1 s2)
    then show ?case by (simp add: crew_step_safe)
  qed
  then show ?thesis ..
qed

text \<open>A configured interval that is negative, or so large that the product wraps around, ends the process.\<close>

lemma bad_interval_panics:
  assumes "nanos (cleaning_interval cfg) \<le> 0"
  shows "crew_work oob (crew_start cfg st) ((crew_start cfg st)\<lparr>c_panic := Some NonPositiveInterval\<rparr>)"
  by (rule crew_work.crew_ticker [where j = "janitor_Start cfg \<lparr>j_running = False, j_interval = 0\<rparr>"])
    (use assms in \<open>simp_all add: crew_start_def StartCleaningCrew_def NewCache_def cleaning_interval_def
      janitor_Start_def NewTicker_def Let_def\<close>)

text \<open>
  A cache whose crew was never started, which is how the hosted cache and the cache of the
  pipeline server are built, brings the process down: a lookup of an entry past half of its lifetime
  starts an eviction goroutine, and that goroutine calls a method of the nil trashman.
\<close>

lemma crewless_eviction_panics:
  assumes "c_panic s = None" and "rc_TrashMan (c_rc s) = None" and "rc_evicting (c_rc s) \<noteq> []"
  shows "crew_work oob s (s\<lparr>c_panic := Some NilDereference\<rparr>)"
proof -
  obtain r rs where "rc_evicting (c_rc s) = [] @ r # rs" using assms(3) by (auto simp: neq_Nil_conv)
  from crew_work.crew_no_trashman [OF assms(1) this assms(2)] show ?thesis .
qed

section \<open>Removal\<close>

text \<open>What one receive does when the buffer may hold at most one response.\<close>

lemma receive_small_batch:
  assumes "tm_evictionBatchSize t \<le> 1" and "\<not> tm_paused t"
    and "enumerates order (tm_responses (AddResponse t r))" and "tm_keyed t"
    and "trashMan_receive order t rc r = (t', rc')"
  shows "fmlookup (rc_cache rc') (FormatKey r) = None"
proof -
  have "FormatKey r |\<in>| fmdom (tm_responses (AddResponse t r))"
    by (simp add: dom_AddResponse)
  then have "fm_size (tm_responses (AddResponse t r)) \<noteq> 0"
    unfolding fm_size_0_iff by auto
  then have "1 \<le> ResponsesQueued (AddResponse t r)"
    by (simp only: ResponsesQueued_def One_nat_def Suc_le_eq neq0_conv)
  then have "tm_evictionBatchSize t \<le> int (ResponsesQueued (AddResponse t r))"
    using assms(1) by linarith
  then have "FlushResponses order (AddResponse t r) rc = (t', rc')"
    using assms(2,5) by (simp add: trashMan_receive_def Let_def)
  from Flush_lookup [OF assms(3) tm_keyed_AddResponse [OF assms(4)] this]
  show ?thesis by (simp add: dom_AddResponse)
qed


text \<open>
  A removal that arrives late takes away what was stored in the meantime: the trashman removes
  by key, so a response that replaced the evicted one before the receive is lost with it.
\<close>

lemma late_removal_drops_new_entry:
  assumes "tm_evictionBatchSize t \<le> 1" and "\<not> tm_paused t" and "tm_keyed t"
    and "FormatKey r' = FormatKey r" and "enumerates order (tm_responses (AddResponse t r))"
    and "trashMan_receive order t (RecordCache_Add rc r') r = (t', rc')"
  shows "fmlookup (rc_cache (RecordCache_Add rc r')) (FormatKey r') = Some r' \<and>
    fmlookup (rc_cache rc') (FormatKey r') = None"
  using receive_small_batch [OF assms(1,2,5,3,6)] assms(4) by simp

section \<open>Entries that no cleaning removes\<close>

text \<open>Everything that goes on in the cache, except that no client touches the entry under one key.\<close>

inductive quiet_step :: "(rat \<Rightarrow> 32 word) \<Rightarrow> string \<Rightarrow> crew \<Rightarrow> crew \<Rightarrow> bool" for oob key where
  quiet_work: "crew_work oob s s' \<Longrightarrow> quiet_step oob key s s'"
| quiet_client: "\<lbrakk>client_step key' s s'; key' \<noteq> key\<rbrakk> \<Longrightarrow> quiet_step oob key s s'"

text \<open>An entry without answer records, and no response with its key on its way to be removed.\<close>

definition unremovable :: "string \<Rightarrow> Response \<Rightarrow> RecordCache \<Rightarrow> bool" where
  "unremovable key r rc \<longleftrightarrow> fmlookup (rc_cache rc) key = Some r \<and> m_Answer (resp_Entry r) = [] \<and>
     (\<forall>x\<in>set (rc_evicting rc). FormatKey x \<noteq> key) \<and>
     (\<forall>t. rc_TrashMan rc = Some t \<longrightarrow> key |\<notin>| fmdom (tm_responses t))"

lemma Clean_loop_evicts:
  "Clean_loop clk st order n rc = (n', rc') \<Longrightarrow>
     \<exists>ev. rc_evicting rc' = rc_evicting rc @ ev \<and>
       (\<forall>x\<in>set ev. (\<exists>k. fmlookup (rc_cache rc) k = Some x) \<and> m_Answer (resp_Entry x) \<noteq> [])"
proof (induction clk st order n rc rule: Clean_loop.induct)
  case (2 clk st key order n rc)
  show ?case
  proof (cases "fmlookup (rc_cache rc) key")
    case None
    with 2 show ?thesis by simp
  next
    case (Some r)
    show ?thesis
    proof (cases "Clean_entry clk st r (m_Answer (resp_Entry r))")
      case True
      then have "m_Answer (resp_Entry r) \<noteq> []" by auto
      moreover obtain ev where "rc_evicting rc' = (rc_evicting rc @ [r]) @ ev"
        "\<forall>x\<in>set ev. (\<exists>k. fmlookup (rc_cache rc) k = Some x) \<and> m_Answer (resp_Entry x) \<noteq> []"
        using 2(2) [OF Some refl refl True] 2(4) Some True by (auto simp: Let_def)
      ultimately show ?thesis using Some by (intro exI [of _ "r # ev"]) auto
    next
      case False
      with 2(3) [OF Some refl refl False] 2(4) Some show ?thesis by (simp add: Let_def)
    qed
  qed
qed simp

text \<open>An arm of the trashman's loop spares every key that is neither buffered nor received.\<close>

lemma flush_spares:
  assumes "enumerates order (tm_responses t)" and "tm_keyed t" and "key |\<notin>| fmdom (tm_responses t)"
    and "(if c then FlushResponses order t rc else (t, rc)) = (t', rc')"
  shows "fmlookup (rc_cache rc') key = fmlookup (rc_cache rc) key \<and> key |\<notin>| fmdom (tm_responses t') \<and>
    rc_evicting rc' = rc_evicting rc"
proof (cases c)
  case True
  with assms(4) have f: "FlushResponses order t rc = (t', rc')" by simp
  then obtain rs where "rc' = RecordCache_RemoveSlice rc rs"
    using Flush_spec(2) [OF assms(1), of rc] by auto
  moreover have "t' = t\<lparr>tm_responses := fmempty\<rparr>" using Flush_spec(1) [OF assms(1), of rc] f by simp
  ultimately show ?thesis using Flush_lookup [OF assms(1,2) f, of key] assms(3) by simp
next
  case False
  with assms show ?thesis by auto
qed

lemma receive_spares:
  assumes "enumerates order (tm_responses (AddResponse t r))" "tm_keyed t" "key |\<notin>| fmdom (tm_responses t)"
    and "trashMan_receive order t rc r = (t', rc')" and "FormatKey r \<noteq> key"
  shows "fmlookup (rc_cache rc') key = fmlookup (rc_cache rc) key \<and> key |\<notin>| fmdom (tm_responses t')"
  using flush_spares [OF assms(1) tm_keyed_AddResponse [OF assms(2)] _ assms(4) [unfolded trashMan_receive_def Let_def]]
    assms(3,5) by (simp add: dom_AddResponse)

lemma pause_spares:
  assumes "enumerates order (tm_responses t)" "tm_keyed t" "key |\<notin>| fmdom (tm_responses t)"
    and "trashMan_pause order t rc p = (t', rc')"
  shows "fmlookup (rc_cache rc') key = fmlookup (rc_cache rc) key \<and> key |\<notin>| fmdom (tm_responses t') \<and>
    rc_evicting rc' = rc_evicting rc"
  by (rule flush_spares [where t = "t\<lparr>tm_paused := p\<rparr>", OF _ _ _ assms(4) [unfolded trashMan_pause_def Let_def]])
    (use assms(1-3) in \<open>auto simp: tm_keyed_def\<close>)

lemma client_spares:
  assumes "client_step key' s s'" and "unremovable key r (c_rc s)" and "key' \<noteq> key"
  shows "unremovable key r (c_rc s')"
  using assms by cases (auto simp: unremovable_def RecordCache_Remove_def)

lemma work_spares:
  assumes "crew_work oob s s'" and "unremovable key r (c_rc s)" and "crew_inv s"
  shows "unremovable key r (c_rc s')"
  using assms(1)
proof cases
  case (crew_get clk oth n q res rc' st')
  have rc': "rc' = fst (snd (RecordCache_Get_shared oob clk oth (c_rc s) n q (c_store s)))"
    using crew_get(3) by simp
  show ?thesis
  proof (cases rule: shared_cases [of oob clk oth "c_rc s" n q "c_store s"])
    case same
    with crew_get(1) rc' assms(2) show ?thesis by simp
  next
    case (evict r0)
    have "FormatKey r0 = cache_key n q" using evict(1) assms(3) by (auto simp: crew_inv_def dest: cache_keyedD)
    then have "FormatKey r0 \<noteq> key" using evict(1,3) assms(2) by (auto simp: unremovable_def)
    with evict(2) crew_get(1) rc' assms(2) show ?thesis by (auto simp: unremovable_def)
  qed
next
  case (crew_clean j d order clk n rc')
  obtain ev where ev: "rc_evicting rc' = rc_evicting (c_rc s) @ ev"
      "\<forall>x\<in>set ev. (\<exists>k. fmlookup (rc_cache (c_rc s)) k = Some x) \<and> m_Answer (resp_Entry x) \<noteq> []"
    using Clean_loop_evicts crew_clean(7) unfolding RecordCache_Clean_def by blast
  have "FormatKey x \<noteq> key" if "x \<in> set ev" for x
    using ev(2) that assms(2,3) by (fastforce simp: unremovable_def crew_inv_def dest: cache_keyedD)
  with ev(1) Clean_fields [OF crew_clean(7)] assms(2) show ?thesis
    by (auto simp: crew_clean(1) unremovable_def)
next
  case (crew_evict xs r0 ys t order t' rc')
  have t: "tm_keyed t" "key |\<notin>| fmdom (tm_responses t)" "FormatKey r0 \<noteq> key"
    using assms(2,3) crew_evict(3,4) by (simp_all add: unremovable_def crew_inv_def)
  from receive_spares [OF crew_evict(6) t(1,2) crew_evict(7) t(3)] assms(2) crew_evict(3) show ?thesis
    by (auto simp: crew_evict(1) unremovable_def)
next
  case (crew_pause t order p t' rc')
  have t: "tm_keyed t" "key |\<notin>| fmdom (tm_responses t)"
    using assms(2,3) crew_pause(3) by (simp_all add: unremovable_def crew_inv_def)
  from pause_spares [OF crew_pause(5) t crew_pause(6)] assms(2) show ?thesis
    by (auto simp: crew_pause(1) unremovable_def)
qed (use assms(2) in \<open>auto simp: unremovable_def trashMan_cancel_def\<close>)

lemma quiet_run_spares:
  assumes "(quiet_step oob key)\<^sup>*\<^sup>* s s'" and "unremovable key r (c_rc s)" and "crew_inv s"
  shows "unremovable key r (c_rc s') \<and> crew_inv s'"
  using assms(1)
proof (induction rule: rtranclp_induct)
  case (step s1 s2)
  from step(2) step(3) show ?case
    by cases (auto intro: work_spares crew_work_inv client_spares client_step_inv)
qed (use assms(2,3) in simp)

section \<open>Batches\<close>

definition receive_all ::
  "((string, Response) fmap \<Rightarrow> string list) \<Rightarrow> trashMan \<Rightarrow> RecordCache \<Rightarrow> Response list
     \<Rightarrow> trashMan \<times> RecordCache" where
  "receive_all ord t rc =
     foldl (\<lambda>(t, rc) r. trashMan_receive (ord (tm_responses (AddResponse t r))) t rc r) (t, rc)"

lemma mod_Suc_block: "0 < B \<Longrightarrow> Suc n mod B \<noteq> 0 \<Longrightarrow> Suc n mod B = Suc (n mod B)"
  by (simp add: mod_Suc split: if_splits)

lemma receive_all_state:
  assumes B: "tm_evictionBatchSize t = int B" "0 < B" and t: "\<not> tm_paused t" "tm_responses t = fmempty"
    and ord: "\<And>m. enumerates (ord m) m" and "distinct (map FormatKey rs)"
    and "receive_all ord t rc rs = (t', rc')"
  defines "done \<equiv> length rs - length rs mod B"
  shows "tm_evictionBatchSize t' = int B \<and> \<not> tm_paused t' \<and> tm_keyed t' \<and>
    fset (fmdom (tm_responses t')) = FormatKey ` set (drop done rs) \<and>
    ResponsesQueued t' = length rs mod B \<and>
    (\<forall>k. fmlookup (rc_cache rc') k =
       (if k \<in> FormatKey ` set (take done rs) then None else fmlookup (rc_cache rc) k))"
  using assms(6,7) unfolding done_def
proof (induction rs arbitrary: t' rc' rule: rev_induct)
  case Nil
  then show ?case
    using B t by (auto simp: receive_all_def tm_keyed_def ResponsesQueued_def)
next
  case (snoc r rs)
  let ?n = "length rs" and ?m = "length rs - length rs mod B"
  obtain t1 rc1 where r1: "receive_all ord t rc rs = (t1, rc1)" by force
  let ?t2 = "AddResponse t1 r"
  have step: "trashMan_receive (ord (tm_responses ?t2)) t1 rc1 r = (t', rc')"
    using snoc.prems(2) r1 by (simp add: receive_all_def)
  have d: "distinct (map FormatKey rs)" "FormatKey r \<notin> FormatKey ` set rs"
    using snoc.prems(1) by auto
  note IH = snoc.IH [OF d(1) r1]
  have dom2: "fset (fmdom (tm_responses ?t2)) = insert (FormatKey r) (FormatKey ` set (drop ?m rs))"
    using IH by (simp add: dom_AddResponse)
  have "FormatKey r \<notin> FormatKey ` set (drop ?m rs)"
    using d(2) set_drop_subset by fast
  then have "FormatKey r |\<notin>| fmdom (tm_responses t1)" using IH by simp
  then have q2: "ResponsesQueued ?t2 = Suc (?n mod B)"
    using IH by (simp add: ResponsesQueued_def dom_AddResponse fcard_finsert_disjoint)
  have keyed2: "tm_keyed ?t2" using IH by (intro tm_keyed_AddResponse) simp
  have le: "?m \<le> ?n" by simp
  show ?case
  proof (cases "Suc ?n mod B = 0")
    case True
    then have full: "Suc (?n mod B) = B" by (simp add: mod_Suc split: if_splits)
    then have fl: "FlushResponses (ord (tm_responses ?t2)) ?t2 rc1 = (t', rc')"
      using step q2 IH by (simp add: trashMan_receive_def Let_def)
    have t': "t' = ?t2\<lparr>tm_responses := fmempty\<rparr>"
      using Flush_spec(1) [OF ord, of ?t2 rc1] fl by simp
    have all: "set rs = set (take ?m rs) \<union> set (drop ?m rs)"
      by (metis append_take_drop_id set_append)
    have "fmlookup (rc_cache rc') k =
        (if k \<in> FormatKey ` set (rs @ [r]) then None else fmlookup (rc_cache rc) k)" for k
      using Flush_lookup [OF ord keyed2 fl, of k] IH dom2 by (auto simp: all)
    with True show ?thesis
      using IH by (simp add: t' tm_keyed_def ResponsesQueued_def)
  next
    case False
    have n: "Suc ?n mod B = Suc (?n mod B)" by (rule mod_Suc_block [OF B(2) False])
    have "Suc (?n mod B) < B" using n B(2) by (metis mod_less_divisor)
    then have "(t', rc') = (?t2, rc1)"
      using step q2 IH by (simp add: trashMan_receive_def Let_def)
    with IH n dom2 q2 keyed2 le show ?thesis by simp
  qed
qed

text \<open>
  C35. Of responses with different keys received one after the other by an unpaused trashman with
  an empty buffer and batch size B, all full batches of B are removed from the cache, in order, and
  the rest waits in the buffer.
\<close>

theorem trashman_batches:
  assumes "tm_evictionBatchSize t = int B" and "0 < B" and "\<not> tm_paused t"
    and "tm_responses t = fmempty" and "\<And>m. enumerates (ord m) m"
    and "distinct (map FormatKey rs)" and "receive_all ord t rc rs = (t', rc')"
  shows "ResponsesQueued t' = length rs mod B \<and>
    (\<forall>k. fmlookup (rc_cache rc') k =
       (if k \<in> FormatKey ` set (take (length rs - length rs mod B) rs) then None
        else fmlookup (rc_cache rc) k))"
  using receive_all_state [OF assms] by blast

section \<open>A round of cleaning\<close>

lemma receive_one:
  assumes "tm_evictionBatchSize t \<le> 1" and "\<not> tm_paused t" and "tm_responses t = fmempty"
    and "enumerates order (tm_responses (AddResponse t r))" and "trashMan_receive order t rc r = (t', rc')"
  shows "t' = t \<and> (\<forall>k. fmlookup (rc_cache rc') k = (if k = FormatKey r then None else fmlookup (rc_cache rc) k))"
proof -
  have keyed: "tm_keyed (AddResponse t r)" using assms(3) by (auto simp: tm_keyed_def)
  have dom: "fmdom (tm_responses (AddResponse t r)) = {|FormatKey r|}" by (simp add: dom_AddResponse assms(3))
  then have "tm_evictionBatchSize t \<le> int (ResponsesQueued (AddResponse t r))"
    using assms(1) by (simp add: ResponsesQueued_def)
  then have flush: "FlushResponses order (AddResponse t r) rc = (t', rc')"
    using assms(2,5) by (simp add: trashMan_receive_def Let_def)
  have "t' = AddResponse t r\<lparr>tm_responses := fmempty\<rparr>" using Flush_spec(1) [OF assms(4), of rc] flush by simp
  then have "t' = t" using assms(3) by (simp add: AddResponse_def)
  with Flush_lookup [OF assms(4) keyed flush] show ?thesis by (simp add: dom)
qed

lemma receive_all_one:
  assumes "tm_evictionBatchSize t \<le> 1" and "\<not> tm_paused t" and "tm_responses t = fmempty"
    and "\<And>m. enumerates (ord m) m" and "receive_all ord t rc rs = (t', rc')"
  shows "t' = t \<and> (\<forall>k. fmlookup (rc_cache rc') k =
    (if k \<in> FormatKey ` set rs then None else fmlookup (rc_cache rc) k))"
  using assms(5)
proof (induction rs arbitrary: rc)
  case Nil
  then show ?case by (simp add: receive_all_def)
next
  case (Cons r rs)
  obtain t1 rc1 where r1: "trashMan_receive (ord (tm_responses (AddResponse t r))) t rc r = (t1, rc1)" by force
  note one = receive_one [OF assms(1-3) assms(4) r1]
  then have "receive_all ord t rc1 rs = (t', rc')" using Cons.prems r1 by (simp add: receive_all_def)
  from Cons.IH [OF this] one show ?case by auto
qed

text \<open>The keys of what \<open>Clean\<close> hands over, in the order of the map.\<close>

lemma expired_keys:
  assumes "cache_keyed rc" and "set order \<subseteq> fset (fmdom (rc_cache rc))"
  shows "map FormatKey (expired_entries now st (rc_cache rc) order) =
    filter (\<lambda>k. has_expired now st (the (fmlookup (rc_cache rc) k))) order"
  using assms(2)
proof (induction order)
  case Nil
  then show ?case by (simp add: expired_entries_def map_filter_simps)
next
  case (Cons k order)
  then obtain r where r: "fmlookup (rc_cache rc) k = Some r" by auto
  with Cons cache_keyedD [OF assms(1) r] show ?case by (simp add: expired_entries_def map_filter_simps)
qed

text \<open>
  C36. A round of cleaning throws out exactly the expired entries: when the janitor's tick is over and the
  trashman, whose batches are of at most one, has received all that the tick handed to it, every
  entry with an expired record is gone and every other one is as it was; the number the tick returns
  is the number of entries that are gone.
\<close>

theorem cleaning_removes_expired:
  assumes "cache_keyed rc" and "rc_evicting rc = []" and "enumerates order (rc_cache rc)"
    and "RecordCache_Clean order (\<lambda>_. now) st rc = (n, rc1)"
    and "tm_evictionBatchSize t \<le> 1" and "\<not> tm_paused t" and "tm_responses t = fmempty"
    and "\<And>m. enumerates (ord m) m" and "receive_all ord t rc1 (rc_evicting rc1) = (t', rc2)"
  shows "(\<forall>k. fmlookup (rc_cache rc2) k =
      (case fmlookup (rc_cache rc) k of
         None \<Rightarrow> None
       | Some r \<Rightarrow> if has_expired now st r then None else Some r)) \<and>
    n + RecordCache_Size rc2 = RecordCache_Size rc \<and> ResponsesQueued t' = 0"
proof -
  let ?m = "rc_cache rc" and ?ev = "expired_entries now st (rc_cache rc) order"
  let ?old = "\<lambda>k. has_expired now st (the (fmlookup ?m k))"
  have rc1: "rc_cache rc1 = ?m" "rc_evicting rc1 = ?ev" "n = length ?ev"
    using assms(2,4) by (auto simp: RecordCache_Clean_def Clean_loop_const)
  have o: "distinct order" "set order = fset (fmdom ?m)" using assms(3) by (simp_all add: enumerates_def)
  have keys: "map FormatKey ?ev = filter ?old order" using expired_keys [OF assms(1)] o(2) by simp
  then have gone: "FormatKey ` set ?ev = {k \<in> fset (fmdom ?m). ?old k}"
    by (metis list.set_map o(2) set_filter)
  have all: "t' = t" "fmlookup (rc_cache rc2) k = (if k \<in> FormatKey ` set ?ev then None else fmlookup ?m k)" for k
    using receive_all_one [OF assms(5-9)] rc1 by auto
  have dom: "fset (fmdom (rc_cache rc2)) = {k \<in> fset (fmdom ?m). \<not> ?old k}"
    using all(2) gone by (auto simp: fmlookup_dom_iff split: if_splits)
  have "n = length (filter ?old order)" using keys rc1(3) by (metis length_map)
  then have "n = card {k \<in> fset (fmdom ?m). ?old k}"
    using o by (metis distinct_card distinct_filter set_filter)
  moreover have "card {k \<in> fset (fmdom ?m). ?old k} + card {k \<in> fset (fmdom ?m). \<not> ?old k} = card (fset (fmdom ?m))"
    by (subst card_Un_disjoint [symmetric]) (auto intro!: arg_cong [where f = card])
  ultimately have "n + RecordCache_Size rc2 = RecordCache_Size rc"
    by (simp add: RecordCache_Size_def fcard.rep_eq dom)
  moreover have "fmlookup (rc_cache rc2) k = (case fmlookup ?m k of
      None \<Rightarrow> None | Some r \<Rightarrow> if has_expired now st r then None else Some r)" for k
    unfolding all(2) gone by (auto simp: fmlookup_dom_iff split: option.splits)
  ultimately show ?thesis using all(1) assms(7) by (simp add: ResponsesQueued_def)
qed

end
