(* ===== verification/MutexReplies.thy ===== *)
theory MutexReplies
  imports MutexQueries CrewRuns
begin

text \<open>
  What clients of the mutex server see: one reply per query, the answers from the two caches, and the
  answers that a successful query leaves in the lookup cache.
\<close>

section \<open>What a recursive query leaves alone\<close>

definition bystanders :: "MutexServer \<Rightarrow> world \<Rightarrow> (int \<times> RecordCache \<times> RecordCache) \<times> query_line list
    \<times> int \<times> nat \<times> nat \<times> nat \<times> nat \<times> nat" where
  "bystanders s w = ((ms_sem s, ms_Cache s, ms_HostedCache s), w_log w,
     mt_QueuedQueries (w_mt w), mt_TotalDnsQueries (w_mt w), mt_CacheHits (w_mt w),
     mt_HostedCacheHits (w_mt w), mt_LocalServfails (w_mt w), mt_QueryTimer (w_mt w))"

lemma GetConnection_bystanders:
  assumes "MutexServer_GetConnection cfg call s w = Ok (res, s', w')"
  shows "bystanders s' w' = bystanders s w"
proof -
  obtain ce u c where g: "connPool_Get (cc_clk call) (ms_connPool s) = Ok ((ce, u), c)"
    using assms by (auto simp: MutexServer_GetConnection_def)
  let ?s1 = "s\<lparr>ms_connPool := c\<rparr>"
  obtain ce1 err s2 where d: "(if u \<noteq> zero_Upstream then newConnection cfg call ?s1 u
      else ((ce, None), ?s1)) = ((ce1, err), s2)"
    by (metis surj_pair)
  have "bystanders s2 w = bystanders s w"
    using d by (auto simp: bystanders_def newConnection_def Let_def split: if_splits prod.splits option.splits)
  moreover have "bystanders s' w' = bystanders s2 w"
    using assms by (cases err; force simp: MutexServer_GetConnection_def g Let_def d bystanders_def)
  ultimately show ?thesis by simp
qed

lemma attempt_bystanders:
  assumes "MutexServer_attemptExchange cfg srt call m s w = Ok ((ce, r, err), s', w')"
  shows "bystanders s' w' = bystanders s w"
  using assms
proof (cases rule: attempt_cases)
  case (no_conn e)
  then show ?thesis using GetConnection_bystanders by blast
next
  case (answered ce0 w1 reply)
  then show ?thesis
    using GetConnection_bystanders [OF answered(1)] by (auto simp: attemptExchange_Ok bystanders_def)
next
  case (broken ce0 ce1 s1 w1 w2 reply e c q qs)
  then show ?thesis
    using GetConnection_bystanders [OF broken(1)] by (auto simp: attemptExchange_Ok bystanders_def)
qed

lemma failed_attempts_bystanders:
  "failed_attempts cfg srt calls m k s w s' w' eo \<Longrightarrow> bystanders s' w' = bystanders s w"
  by (induction rule: failed_attempts.induct) (auto dest: attempt_bystanders)

lemma count_query_bystanders [simp]: "bystanders s (count_query w) = bystanders s w"
  by (simp add: bystanders_def count_query_def)

lemma RecursiveQuery_bystanders:
  assumes "RecursiveQuery lib cfg srt calls fin born s w domain rrtype = Ok ((resp, address, err), s', w')"
    and "0 \<le> cfg_UpstreamRetries cfg"
  shows "bystanders s' w' = bystanders s w"
  using assms
proof (cases rule: RecursiveQuery_cases)
  case (answered k s1 w1 e1 ce reply s2)
  have "bystanders s' w' = bystanders s2 w'" by (simp add: answered(4) bystanders_def)
  then show ?thesis
    using attempt_bystanders [OF answered(3)] failed_attempts_bystanders [OF answered(2)] by simp
next
  case (gave_up e)
  then show ?thesis using failed_attempts_bystanders [OF gave_up(1)] by simp
qed

text \<open>The three ways \<open>RetrieveRecords\<close> goes.\<close>

lemma RetrieveRecords_cases:
  assumes "RetrieveRecords lib cfg srt e s w domain rrtype = Ok ((resp, source, err), s', w')"
  obtains (cached) rc st where
      "RecordCache_Get (e_oob e) (e_clk_cache e) (ms_Cache s) domain rrtype (w_store w) = ((resp, True), rc, st)"
      "source = ''cache''" "err = None" "s' = s\<lparr>ms_Cache := rc\<rparr>"
      "w' = w\<lparr>w_store := st, w_mt := (w_mt w)\<lparr>mt_CacheHits := mt_CacheHits (w_mt w) + 1\<rparr>\<rparr>"
  | (hosted) r1 rc1 st1 rc2 st2 where
      "RecordCache_Get (e_oob e) (e_clk_cache e) (ms_Cache s) domain rrtype (w_store w) = ((r1, False), rc1, st1)"
      "RecordCache_Get (e_oob e) (e_clk_hosted e) (ms_HostedCache s) domain rrtype st1 = ((resp, True), rc2, st2)"
      "source = ''cache''" "err = None" "s' = s\<lparr>ms_Cache := rc1, ms_HostedCache := rc2\<rparr>"
      "w' = w\<lparr>w_store := st2, w_mt := (w_mt w)\<lparr>mt_HostedCacheHits := mt_HostedCacheHits (w_mt w) + 1\<rparr>\<rparr>"
  | (asked) r1 rc1 st1 r2 rc2 st2 err1 address s3 where
      "RecordCache_Get (e_oob e) (e_clk_cache e) (ms_Cache s) domain rrtype (w_store w) = ((r1, False), rc1, st1)"
      "RecordCache_Get (e_oob e) (e_clk_hosted e) (ms_HostedCache s) domain rrtype st1 = ((r2, False), rc2, st2)"
      "RecursiveQuery lib cfg srt (e_calls e) (e_fin e) (e_born e)
         (s\<lparr>ms_Cache := rc1, ms_HostedCache := rc2\<rparr>) (w\<lparr>w_store := st2\<rparr>) domain rrtype
         = Ok ((resp, address, err1), s3, w')"
      "err = map_option (RecursiveQueryFailed domain) err1"
      "source = (case err1 of None \<Rightarrow> address | Some _ \<Rightarrow> [])"
      "s' = (case err1 of None \<Rightarrow> s3\<lparr>ms_Cache := RecordCache_Add (ms_Cache s3) resp\<rparr> | Some _ \<Rightarrow> s3)"
proof -
  obtain r1 ok1 rc1 st1 where g1: "RecordCache_Get (e_oob e) (e_clk_cache e) (ms_Cache s) domain rrtype
      (w_store w) = ((r1, ok1), rc1, st1)"
    by (metis surj_pair)
  obtain r2 ok2 rc2 st2 where g2: "RecordCache_Get (e_oob e) (e_clk_hosted e) (ms_HostedCache s) domain
      rrtype st1 = ((r2, ok2), rc2, st2)"
    by (metis surj_pair)
  show thesis
  proof (cases ok1)
    case True
    with assms g1 show thesis by (intro cached) (auto simp: RetrieveRecords_def Let_def)
  next
    case n1: False
    show thesis
    proof (cases ok2)
      case True
      with assms g1 g2 n1 show thesis by (intro hosted) (auto simp: RetrieveRecords_def Let_def)
    next
      case False
      obtain resp0 address err1 s3 w3 where q: "RecursiveQuery lib cfg srt (e_calls e) (e_fin e) (e_born e)
         (s\<lparr>ms_Cache := rc1, ms_HostedCache := rc2\<rparr>) (w\<lparr>w_store := st2\<rparr>) domain rrtype
         = Ok ((resp0, address, err1), s3, w3)"
        using assms g1 g2 n1 False by (auto simp: RetrieveRecords_def Let_def)
      have "w3 = w'" "resp0 = resp" "err = map_option (RecursiveQueryFailed domain) err1"
        "source = (case err1 of None \<Rightarrow> address | Some _ \<Rightarrow> [])"
        "s' = (case err1 of None \<Rightarrow> s3\<lparr>ms_Cache := RecordCache_Add (ms_Cache s3) resp\<rparr> | Some _ \<Rightarrow> s3)"
        using assms g1 g2 n1 False q by (auto simp: RetrieveRecords_def Let_def split: option.splits)
      with g1 g2 n1 False q show thesis by (intro asked) auto
    qed
  qed
qed

section \<open>One reply per query\<close>

lemma RetrieveRecords_bystanders:
  assumes "RetrieveRecords lib cfg srt e s w domain rrtype = Ok ((resp, source, err), s', w')"
    and "0 \<le> cfg_UpstreamRetries cfg"
  shows "ms_sem s' = ms_sem s \<and> w_log w' = w_log w \<and>
    mt_QueuedQueries (w_mt w') = mt_QueuedQueries (w_mt w) \<and>
    mt_LocalServfails (w_mt w') = mt_LocalServfails (w_mt w) \<and>
    mt_QueryTimer (w_mt w') = mt_QueryTimer (w_mt w)"
  using assms(1)
proof (cases rule: RetrieveRecords_cases)
  case (asked r1 rc1 st1 r2 rc2 st2 err1 address s3)
  then show ?thesis
    using RecursiveQuery_bystanders [OF asked(3) assms(2)]
    by (auto simp: bystanders_def split: option.splits)
qed simp_all

definition dequeued :: "world \<Rightarrow> world" where
  "dequeued w = w\<lparr>w_mt := (w_mt w)\<lparr>mt_QueuedQueries := mt_QueuedQueries (w_mt w) - 1\<rparr>\<rparr>"

lemma on_wire_SetRcode:
  assumes "dns_contract lib" and "m_Question r = q # qs"
  obtains hdr where "on_wire st (lib_SetRcode lib m r c) = (hdr, map st (m_Answer m))" "m_Id hdr = m_Id r"
    "m_Opcode hdr = m_Opcode r" "m_Question hdr = [q]" "m_Rcode hdr = c"
  using assms by (auto simp: dns_contract_def on_wire_def)

lemma on_wire_Copy:
  assumes "dns_contract lib" and "lib_Copy lib m st = (copy, st')"
  shows "map st' (m_Answer copy) = map st (m_Answer m)"
proof -
  have "map (snd (lib_Copy lib m st)) (m_Answer (fst (lib_Copy lib m st))) = map st (m_Answer m)"
    using assms(1) by (simp add: dns_contract_def on_wire_def)
  with assms(2) show ?thesis by simp
qed

text \<open>
  C3. A query that got its permit is answered by exactly one message, which carries the identifier,
  the operation code and the question of the request: the reply code and the answer records of what
  \<open>RetrieveRecords\<close> found or, if that failed, SERVFAIL without records. The permit is returned, the
  query leaves the queue, and it is timed once.
\<close>

theorem HandleDNS_one_reply:
  assumes "dns_contract lib" and "0 \<le> cfg_UpstreamRetries cfg"
    and "HandleDNS_serve lib cfg srt e s w domain r = Ok (out, s', w')"
  shows "\<exists>q qs hdr recs resp source err s1 w1. m_Question r = q # qs \<and> out = [(hdr, recs)] \<and>
    m_Id hdr = m_Id r \<and> m_Opcode hdr = m_Opcode r \<and> m_Question hdr = [q] \<and>
    RetrieveRecords lib cfg srt e s (dequeued w) domain (q_Qtype q) = Ok ((resp, source, err), s1, w1) \<and>
    (case err of
       None \<Rightarrow> m_Rcode hdr = m_Rcode (resp_Entry resp) \<and> recs = map (w_store w1) (m_Answer (resp_Entry resp)) \<and>
         mt_LocalServfails (w_mt w') = mt_LocalServfails (w_mt w)
     | Some _ \<Rightarrow> m_Rcode hdr = RcodeServerFailure \<and> recs = [] \<and>
         mt_LocalServfails (w_mt w') = mt_LocalServfails (w_mt w) + 1) \<and>
    ms_sem s' = ms_sem s + 1 \<and> mt_QueuedQueries (w_mt w') = mt_QueuedQueries (w_mt w) - 1 \<and>
    mt_QueryTimer (w_mt w') = mt_QueryTimer (w_mt w) + 1"
proof -
  obtain q qs where q: "m_Question r = q # qs"
    using assms(3) by (cases "m_Question r") (auto simp: HandleDNS_serve_def)
  obtain resp source err s1 w1 where
    rr: "RetrieveRecords lib cfg srt e s (dequeued w) domain (q_Qtype q) = Ok ((resp, source, err), s1, w1)"
    using assms(3) by (auto simp: HandleDNS_serve_def q Let_def dequeued_def)
  note b = RetrieveRecords_bystanders [OF rr assms(2)]
  note serve = assms(3) [unfolded HandleDNS_serve_def Let_def q list.case dequeued_def [symmetric] rr
      outcome_bind.simps prod.case]
  show ?thesis
  proof (cases err)
    case (Some er)
    obtain hdr where h: "on_wire (w_store w1) (lib_SetRcode lib zero_Msg r RcodeServerFailure)
        = (hdr, map (w_store w1) (m_Answer zero_Msg))" "m_Id hdr = m_Id r"
      "m_Opcode hdr = m_Opcode r" "m_Question hdr = [q]" "m_Rcode hdr = RcodeServerFailure"
      by (rule on_wire_SetRcode [OF assms(1) q])
    have "out = [(hdr, [])] \<and> ms_sem s' = ms_sem s + 1 \<and>
        w_mt w' = (w_mt w1)\<lparr>mt_QueryTimer := mt_QueryTimer (w_mt w1) + 1,
          mt_LocalServfails := mt_LocalServfails (w_mt w1) + 1\<rparr>"
      using serve b h(1)
      by (auto simp: Some sendServfail_def Let_def sem_Release_def zero_Msg_def)
    with q rr h b Some show ?thesis by (simp add: dequeued_def)
  next
    case None
    obtain copy st where c: "lib_Copy lib (resp_Entry resp) (w_store w1) = (copy, st)" by force
    obtain hdr where h: "on_wire st (lib_SetRcode lib copy r (m_Rcode (resp_Entry resp)))
        = (hdr, map st (m_Answer copy))" "m_Id hdr = m_Id r"
      "m_Opcode hdr = m_Opcode r" "m_Question hdr = [q]" "m_Rcode hdr = m_Rcode (resp_Entry resp)"
      by (rule on_wire_SetRcode [OF assms(1) q])
    have "out = [(hdr, map (w_store w1) (m_Answer (resp_Entry resp)))] \<and> ms_sem s' = ms_sem s + 1 \<and>
        w_mt w' = (w_mt w1)\<lparr>mt_QueryTimer := mt_QueryTimer (w_mt w1) + 1\<rparr>"
      using serve b h(1)
      by (auto simp: None c sem_Release_def on_wire_Copy [OF assms(1) c])
    with q rr h b None show ?thesis by (simp add: dequeued_def)
  qed
qed

section \<open>Answers from the caches\<close>

lemma serve_found:
  assumes "dns_contract lib" and "m_Question r = q # qs"
    and "RetrieveRecords lib cfg srt e s (dequeued w) domain (q_Qtype q) = Ok ((resp, source, None), s1, w1)"
  shows "\<exists>hdr w2. HandleDNS_serve lib cfg srt e s w domain r
      = Ok ([(hdr, map (w_store w1) (m_Answer (resp_Entry resp)))], sem_Release s1, w2) \<and>
    m_Id hdr = m_Id r \<and> m_Rcode hdr = m_Rcode (resp_Entry resp) \<and> m_Question hdr = [q] \<and>
    w_mt w2 = (w_mt w1)\<lparr>mt_QueryTimer := mt_QueryTimer (w_mt w1) + 1\<rparr> \<and>
    w_store w2 = snd (lib_Copy lib (resp_Entry resp) (w_store w1))"
proof -
  obtain copy st where c: "lib_Copy lib (resp_Entry resp) (w_store w1) = (copy, st)" by force
  obtain hdr where h: "on_wire st (lib_SetRcode lib copy r (m_Rcode (resp_Entry resp)))
      = (hdr, map st (m_Answer copy))" "m_Id hdr = m_Id r"
    "m_Opcode hdr = m_Opcode r" "m_Question hdr = [q]" "m_Rcode hdr = m_Rcode (resp_Entry resp)"
    by (rule on_wire_SetRcode [OF assms(1,2)])
  show ?thesis
    unfolding HandleDNS_serve_def Let_def assms(2) list.case dequeued_def [symmetric] assms(3)
    using h by (simp add: c on_wire_Copy [OF assms(1) c])
qed

text \<open>
  What the lookup cache has is answered from it: no upstream is asked, the connection pool and
  the hosted cache are not touched, and the records on the wire are the cached ones with the TTLs the
  lookup has just brought up to date.
\<close>

lemma cached_answer:
  assumes "dns_contract lib" and "m_Question r = q # qs"
    and "RecordCache_Get (e_oob e) (e_clk_cache e) (ms_Cache s) domain (q_Qtype q) (w_store w)
      = ((resp, True), rc, st)"
  shows "\<exists>hdr s' w'. HandleDNS_serve lib cfg srt e s w domain r
      = Ok ([(hdr, map st (m_Answer (resp_Entry resp)))], s', w') \<and>
    m_Id hdr = m_Id r \<and> m_Rcode hdr = m_Rcode (resp_Entry resp) \<and> m_Question hdr = [q] \<and>
    ms_connPool s' = ms_connPool s \<and> ms_HostedCache s' = ms_HostedCache s \<and> ms_Cache s' = rc \<and>
    mt_RecursiveQueries (w_mt w') = mt_RecursiveQueries (w_mt w) \<and>
    mt_CacheHits (w_mt w') = mt_CacheHits (w_mt w) + 1"
proof -
  have "RetrieveRecords lib cfg srt e s (dequeued w) domain (q_Qtype q)
      = Ok ((resp, ''cache'', None), s\<lparr>ms_Cache := rc\<rparr>,
          (dequeued w)\<lparr>w_store := st, w_mt := (w_mt (dequeued w))\<lparr>mt_CacheHits := mt_CacheHits (w_mt w) + 1\<rparr>\<rparr>)"
    using assms(3) by (simp add: RetrieveRecords_def dequeued_def)
  from serve_found [OF assms(1,2) this] show ?thesis by (auto simp: sem_Release_def dequeued_def)
qed

lemma asked_is_stored:
  assumes "0 \<le> cfg_UpstreamRetries cfg"
    and "RetrieveRecords lib cfg srt e s w domain rrtype = Ok ((resp, source, None), s', w')"
    and "mt_RecursiveQueries (w_mt w') \<noteq> mt_RecursiveQueries (w_mt w)"
  shows "fmlookup (rc_cache (ms_Cache s')) (cache_key domain rrtype) = Some resp \<and> resp_Qtype resp = rrtype"
  using assms(2)
proof (cases rule: RetrieveRecords_cases)
  case (asked r1 rc1 st1 r2 rc2 st2 err1 address s3)
  then have "err1 = None" by simp
  with asked(3) have "resp_Name resp = domain \<and> resp_Qtype resp = rrtype"
    using assms(1) by (auto elim: RecursiveQuery_cases)
  with asked(6) \<open>err1 = None\<close> show ?thesis by (auto simp: FormatKey_def)
qed (use assms(3) in simp_all)

text \<open>The same question asked several times, with nothing else in between.\<close>

fun retrieve_each ::
  "dns_lib \<Rightarrow> Configuration \<Rightarrow> sort_fun \<Rightarrow> surroundings list \<Rightarrow> MutexServer \<Rightarrow> world \<Rightarrow> string \<Rightarrow> 16 word
     \<Rightarrow> ((Response \<times> string \<times> go_error option) list \<times> MutexServer \<times> world) outcome" where
  "retrieve_each lib cfg srt [] s w domain rrtype = Ok ([], s, w)"
| "retrieve_each lib cfg srt (e # es) s w domain rrtype =
     outcome_bind (RetrieveRecords lib cfg srt e s w domain rrtype) (\<lambda>(res, s1, w1).
       outcome_bind (retrieve_each lib cfg srt es s1 w1 domain rrtype) (\<lambda>(ress, s2, w2).
         Ok (res # ress, s2, w2)))"

lemma retrieve_each_served:
  assumes "fmlookup (rc_cache (ms_Cache s)) (cache_key domain rrtype) = Some resp" and "resp_Qtype resp = rrtype"
    and "distinct (m_Answer (resp_Entry resp))" and "served_for resp (w_store w) nows"
    and "map e_clk_cache es = map (\<lambda>now _. now) nows"
  shows "\<exists>w'. retrieve_each lib cfg srt es s w domain rrtype = Ok (replicate (length es) (resp, ''cache'', None), s, w') \<and>
    mt_RecursiveQueries (w_mt w') = mt_RecursiveQueries (w_mt w) \<and> worn resp (w_store w) nows (w_store w')"
  using assms(4,5)
proof (induction nows arbitrary: es w)
  case (Cons now nows)
  then obtain e es' where es: "es = e # es'" "e_clk_cache e = (\<lambda>_. now)" "map e_clk_cache es' = map (\<lambda>now _. now) nows"
    by (cases es) auto
  obtain st where st: "RecordCache_Get (e_oob e) (\<lambda>_. now) (ms_Cache s) domain rrtype (w_store w) = ((resp, True), ms_Cache s, st)"
      "worn resp (w_store w) [now] st" "served_for resp st nows"
    by (rule Get_served [OF assms(1-3) Cons.prems(1)])
  let ?w1 = "w\<lparr>w_store := st, w_mt := (w_mt w)\<lparr>mt_CacheHits := mt_CacheHits (w_mt w) + 1\<rparr>\<rparr>"
  have one: "RetrieveRecords lib cfg srt e s w domain rrtype = Ok ((resp, ''cache'', None), s, ?w1)"
    using st(1) es(2) by (simp add: RetrieveRecords_def)
  obtain w2 where "retrieve_each lib cfg srt es' s ?w1 domain rrtype = Ok (replicate (length es') (resp, ''cache'', None), s, w2)"
      "mt_RecursiveQueries (w_mt w2) = mt_RecursiveQueries (w_mt ?w1)" "worn resp (w_store ?w1) nows (w_store w2)"
    using Cons.IH [of ?w1 es'] st(3) es(3) by auto
  with one worn_Cons [OF st(2)] show ?case by (auto simp: es(1))
qed simp


text \<open>The lookup cache of the server as the cleaning crew sees it.\<close>

definition as_crew :: "MutexServer \<Rightarrow> world \<Rightarrow> crew" where
  "as_crew s w = \<lparr>c_rc = ms_Cache s, c_store = w_store w, c_panic = None\<rparr>"

text \<open>
  C28. No cleaning ever gets rid of a reply without answer records, such as NXDOMAIN or an upstream's own
  SERVFAIL: unless a response under its key is already on its way to be removed when it is stored,
  whatever other lookups, the janitor and the trashman do from then on in any interleaving, and
  whatever is stored or removed under other keys, the same question is answered with it from the lookup
  cache at any later time and no upstream is asked.
\<close>

theorem empty_reply_survives_cleaning:
  assumes "0 \<le> cfg_UpstreamRetries cfg"
    and "RetrieveRecords lib cfg srt e s w domain rrtype = Ok ((resp, source, None), s', w')"
    and "mt_RecursiveQueries (w_mt w') \<noteq> mt_RecursiveQueries (w_mt w)"
    and "m_Answer (resp_Entry resp) = []" and "crew_inv (as_crew s' w')"
    and "\<forall>x\<in>set (rc_evicting (ms_Cache s')). FormatKey x \<noteq> cache_key domain rrtype"
    and "\<forall>t. rc_TrashMan (ms_Cache s') = Some t \<longrightarrow> cache_key domain rrtype |\<notin>| fmdom (tm_responses t)"
    and "(quiet_step oob (cache_key domain rrtype))\<^sup>*\<^sup>* (as_crew s' w') c" and "ms_Cache s'' = c_rc c"
  shows "\<exists>w2. RetrieveRecords lib cfg srt e' s'' w1 domain rrtype = Ok ((resp, ''cache'', None), s'', w2) \<and>
    mt_RecursiveQueries (w_mt w2) = mt_RecursiveQueries (w_mt w1)"
proof -
  note stored = asked_is_stored [OF assms(1-3)]
  have "unremovable (cache_key domain rrtype) resp (c_rc (as_crew s' w'))"
    using stored assms(4,6,7) by (simp add: unremovable_def as_crew_def)
  then have "fmlookup (rc_cache (ms_Cache s'')) (cache_key domain rrtype) = Some resp"
    using quiet_run_spares [OF assms(8) _ assms(5)] by (simp add: assms(9) unremovable_def)
  then have hit: "RecordCache_Get (e_oob e') (e_clk_cache e') (ms_Cache s'') domain rrtype (w_store w1)
      = ((resp, True), ms_Cache s'', w_store w1)"
    by (rule Get_serves_empty_answer) (use stored assms(4) in simp_all)
  then show ?thesis
    by (intro exI [of _ "w1\<lparr>w_mt := (w_mt w1)\<lparr>mt_CacheHits := mt_CacheHits (w_mt w1) + 1\<rparr>\<rparr>"])
      (simp add: RetrieveRecords_def)
qed

text \<open>With a negative retry count no attempt is made and the nil connection entry is used.\<close>

lemma negative_retries_panic:
  assumes "cfg_UpstreamRetries cfg < 0"
  shows "RecursiveQuery lib cfg srt calls fin born s w domain rrtype = Panic NilDereference"
  using assms by (simp add: RecursiveQuery_def Let_def)

end
