(* ===== verification/MutexRuns.thy ===== *)
theory MutexRuns
  imports MutexReplies
begin

text \<open>
  Queries of the mutex server in parallel. A goroutine moves from one program point to the next; every
  step is one access to a shared object (a cache, the pool, the semaphore) or one call that leaves the
  process, so that the steps of different goroutines, the cleaning crew and the closing goroutines of
  the pool may interleave as they like. Lookups overlap: in the step of a lookup others may write TTLs
  between its accesses, and what a lookup under way has written is seen by \<open>crew_under_way\<close>. The sequential
  definitions of \<open>MutexServer\<close> are runs of one goroutine.
\<close>

section \<open>Program points\<close>

datatype point =
    Waiting | Started | AtCache | AtHosted
  | AtGet nat
  | AtDial nat Upstream
  | AtExchange nat connEntry
  | AtClose nat connEntry
  | AtAdd connEntry Msg
  | AtStore Response string
  | AtReply Response string
  | AtServfail
  | Gone

type_synonym gostate = "point \<times> MutexServer \<times> world"

definition reused :: "connEntry \<Rightarrow> world \<Rightarrow> world" where
  "reused ce w = w\<lparr>w_mt := (w_mt w)\<lparr>mt_ReusedConnections :=
     bump (connEntry_GetAddress ce) (mt_ReusedConnections (w_mt w))\<rparr>\<rparr>"

definition upstream_error :: "connEntry \<Rightarrow> world \<Rightarrow> world" where
  "upstream_error ce w = w\<lparr>w_mt := (w_mt w)\<lparr>mt_UpstreamErrors :=
     bump (connEntry_GetAddress ce) (mt_UpstreamErrors (w_mt w))\<rparr>\<rparr>"

definition timed :: "world \<Rightarrow> world" where
  "timed w = w\<lparr>w_mt := (w_mt w)\<lparr>mt_QueryTimer := mt_QueryTimer (w_mt w) + 1\<rparr>\<rparr>"

text \<open>
  One step of the goroutine of request \<open>r\<close> for \<open>domain\<close>: what it writes and the connections it dials
  stand between the states. A point from which the code would panic has no step.
\<close>

inductive go_step ::
  "dns_lib \<Rightarrow> Configuration \<Rightarrow> sort_fun \<Rightarrow> string \<Rightarrow> Msg \<Rightarrow> gostate \<Rightarrow> wire list \<Rightarrow> nat list \<Rightarrow> gostate \<Rightarrow> bool"
  for lib cfg srt domain r where
  g_acquire: "sem_Acquire s = Some s1 \<Longrightarrow>
     go_step lib cfg srt domain r (Waiting, s, w) [] [] (Started, s1, w)"
| g_dequeue: "go_step lib cfg srt domain r (Started, s, w) [] [] (AtCache, s, dequeued w)"
| g_cache_hit: "\<lbrakk>m_Question r = q # qs;
     RecordCache_Get_shared oob clk oth (ms_Cache s) domain (q_Qtype q) (w_store w) = ((resp, True), rc, st)\<rbrakk> \<Longrightarrow>
     go_step lib cfg srt domain r (AtCache, s, w) [] [] (AtReply resp ''cache'', s\<lparr>ms_Cache := rc\<rparr>,
       w\<lparr>w_store := st, w_mt := (w_mt w)\<lparr>mt_CacheHits := mt_CacheHits (w_mt w) + 1\<rparr>\<rparr>)"
| g_cache_miss: "\<lbrakk>m_Question r = q # qs;
     RecordCache_Get_shared oob clk oth (ms_Cache s) domain (q_Qtype q) (w_store w) = ((resp, False), rc, st)\<rbrakk> \<Longrightarrow>
     go_step lib cfg srt domain r (AtCache, s, w) [] []
       (AtHosted, s\<lparr>ms_Cache := rc\<rparr>, w\<lparr>w_store := st\<rparr>)"
| g_hosted_hit: "\<lbrakk>m_Question r = q # qs;
     RecordCache_Get_shared oob clk oth (ms_HostedCache s) domain (q_Qtype q) (w_store w) = ((resp, True), rc, st)\<rbrakk> \<Longrightarrow>
     go_step lib cfg srt domain r (AtHosted, s, w) [] [] (AtReply resp ''cache'', s\<lparr>ms_HostedCache := rc\<rparr>,
       w\<lparr>w_store := st, w_mt := (w_mt w)\<lparr>mt_HostedCacheHits := mt_HostedCacheHits (w_mt w) + 1\<rparr>\<rparr>)"
| g_hosted_miss: "\<lbrakk>m_Question r = q # qs;
     RecordCache_Get_shared oob clk oth (ms_HostedCache s) domain (q_Qtype q) (w_store w) = ((resp, False), rc, st)\<rbrakk> \<Longrightarrow>
     go_step lib cfg srt domain r (AtHosted, s, w) [] []
       (AtGet 0, s\<lparr>ms_HostedCache := rc\<rparr>, count_query (w\<lparr>w_store := st\<rparr>))"
| g_pooled: "\<lbrakk>int i \<le> cfg_UpstreamRetries cfg;
     connPool_Get clk (ms_connPool s) = Ok ((ce, zero_Upstream), c)\<rbrakk> \<Longrightarrow>
     go_step lib cfg srt domain r (AtGet i, s, w) [] [] (AtExchange i ce, s\<lparr>ms_connPool := c\<rparr>, reused ce w)"
| g_must_dial: "\<lbrakk>int i \<le> cfg_UpstreamRetries cfg;
     connPool_Get clk (ms_connPool s) = Ok ((ce, u), c); u \<noteq> zero_Upstream\<rbrakk> \<Longrightarrow>
     go_step lib cfg srt domain r (AtGet i, s, w) [] [] (AtDial i u, s\<lparr>ms_connPool := c\<rparr>, w)"
| g_give_up: "\<lbrakk>cfg_UpstreamRetries cfg < int i; 0 < i\<rbrakk> \<Longrightarrow>
     go_step lib cfg srt domain r (AtGet i, s, w) [] [] (AtServfail, s, w)"
| g_dialled: "\<lbrakk>newConnection cfg call s u = ((ce, None), s1); ce_Conn ce = Some n\<rbrakk> \<Longrightarrow>
     go_step lib cfg srt domain r (AtDial i u, s, w) [] [n] (AtExchange i ce, s1, reused ce w)"
| g_dial_failed: "newConnection cfg call s u = ((ce, Some e), s1) \<Longrightarrow>
     go_step lib cfg srt domain r (AtDial i u, s, w) [] [] (AtGet (i + 1), s1, w)"
| g_exchanged: "\<lbrakk>m_Question r = q # qs;
     attemptExchange cfg xchg (query_msg lib domain (q_Qtype q)) ce w = Ok ((ce1, reply, None), w1)\<rbrakk> \<Longrightarrow>
     go_step lib cfg srt domain r (AtExchange i ce, s, w) [] [] (AtAdd ce1 reply, s, w1)"
| g_exchange_failed: "\<lbrakk>m_Question r = q # qs;
     attemptExchange cfg xchg (query_msg lib domain (q_Qtype q)) ce w = Ok ((ce1, reply, Some e), w1)\<rbrakk> \<Longrightarrow>
     go_step lib cfg srt domain r (AtExchange i ce, s, w) [] [] (AtClose i (AddError ce1), s, w1)"
| g_close: "connPool_CloseConnection cfg srt now (ms_connPool s) ce = Ok c \<Longrightarrow>
     go_step lib cfg srt domain r (AtClose i ce, s, w) [] []
       (AtGet (i + 1), s\<lparr>ms_connPool := c\<rparr>, upstream_error ce w)"
| g_add: "\<lbrakk>m_Question r = q # qs; connPool_Add cfg srt now (ms_connPool s) ce = (err, c)\<rbrakk> \<Longrightarrow>
     go_step lib cfg srt domain r (AtAdd ce reply, s, w) [] []
       (AtStore (fst (processResults born reply domain (q_Qtype q))) (connEntry_GetAddress ce),
        s\<lparr>ms_connPool := c\<rparr>, w)"
| g_store: "go_step lib cfg srt domain r (AtStore resp source, s, w) [] []
     (AtReply resp source, s\<lparr>ms_Cache := RecordCache_Add (ms_Cache s) resp\<rparr>, w)"
| g_reply: "\<lbrakk>lib_Copy lib (resp_Entry resp) (w_store w) = (copy, st);
     reply = lib_SetRcode lib copy r (m_Rcode (resp_Entry resp))\<rbrakk> \<Longrightarrow>
     go_step lib cfg srt domain r (AtReply resp source, s, w) [on_wire st reply] []
       (Gone, sem_Release s, logQuery lib source d reply (timed (w\<lparr>w_store := st\<rparr>)))"
| g_servfail: "sendServfail lib d r (timed w) = (out, w1) \<Longrightarrow>
     go_step lib cfg srt domain r (AtServfail, s, w) [out] [] (Gone, sem_Release s, w1)"

inductive go_run ::
  "dns_lib \<Rightarrow> Configuration \<Rightarrow> sort_fun \<Rightarrow> string \<Rightarrow> Msg \<Rightarrow> gostate \<Rightarrow> wire list \<Rightarrow> nat list \<Rightarrow> gostate \<Rightarrow> bool"
  for lib cfg srt domain r where
  gr_refl: "go_run lib cfg srt domain r c [] [] c"
| gr_step: "\<lbrakk>go_run lib cfg srt domain r c out1 new1 c1; go_step lib cfg srt domain r c1 out2 new2 c2\<rbrakk> \<Longrightarrow>
     go_run lib cfg srt domain r c (out1 @ out2) (new1 @ new2) c2"

lemma go_run_trans:
  assumes "go_run lib cfg srt domain r c1 out2 new2 c2" and "go_run lib cfg srt domain r c out1 new1 c1"
  shows "go_run lib cfg srt domain r c (out1 @ out2) (new1 @ new2) c2"
  using assms by (induction rule: go_run.induct) (auto intro: gr_step simp flip: append_assoc)

lemma go_one: "go_step lib cfg srt domain r c out new c' \<Longrightarrow> go_run lib cfg srt domain r c out new c'"
  using gr_step [OF gr_refl] by fastforce

section \<open>The sequential code is a run\<close>

lemma attempt_run:
  assumes "MutexServer_attemptExchange cfg srt call (query_msg lib domain (q_Qtype q)) s w
      = Ok ((ce, reply, err), s', w')"
    and "m_Question r = q # qs" and "int i \<le> cfg_UpstreamRetries cfg" and "named_upstreams (ms_connPool s)"
  shows "\<exists>new. go_run lib cfg srt domain r (AtGet i, s, w) [] new
    ((case err of None \<Rightarrow> AtAdd ce (the reply) | Some _ \<Rightarrow> AtGet (i + 1)), s', w')"
proof -
  have conn: "\<exists>new. go_run lib cfg srt domain r (AtGet i, s, w) [] new
      ((case err0 of None \<Rightarrow> AtExchange i ce0 | Some _ \<Rightarrow> AtGet (i + 1)), s1, w1)"
    if g: "MutexServer_GetConnection cfg call s w = Ok ((ce0, err0), s1, w1)" for ce0 err0 s1 w1
  proof -
    obtain ce1 u c where get: "connPool_Get (cc_clk call) (ms_connPool s) = Ok ((ce1, u), c)"
      using g by (auto simp: MutexServer_GetConnection_def)
    show ?thesis
    proof (cases "u = zero_Upstream")
      case True
      then have "err0 = None" "ce0 = ce1" "s1 = s\<lparr>ms_connPool := c\<rparr>" "w1 = reused ce1 w"
        using g get by (auto simp: MutexServer_GetConnection_def reused_def)
      with True get assms(3) show ?thesis by (auto intro: go_one g_pooled)
    next
      case False
      let ?s1 = "s\<lparr>ms_connPool := c\<rparr>"
      have 1: "go_run lib cfg srt domain r (AtGet i, s, w) [] [] (AtDial i u, ?s1, w)"
        by (rule go_one, rule g_must_dial [OF assms(3) get False])
      obtain ce2 err2 s2 where n: "newConnection cfg call ?s1 u = ((ce2, err2), s2)" by (metis surj_pair)
      show ?thesis
      proof (cases err2)
        case None
        then obtain k where k: "ce_Conn ce2 = Some k" using n by (auto elim: newConnection_cases)
        have "err0 = None" "ce0 = ce2" "s1 = s2" "w1 = reused ce2 w"
          using g get n None False by (auto simp: MutexServer_GetConnection_def reused_def Let_def)
        with gr_step [OF 1 g_dialled [OF n [unfolded None] k]] show ?thesis by auto
      next
        case (Some e)
        have "err0 \<noteq> None" "s1 = s2" "w1 = w"
          using g get n Some False by (auto simp: MutexServer_GetConnection_def Let_def)
        with gr_step [OF 1 g_dial_failed [OF n [unfolded Some]]] show ?thesis by auto
      qed
    qed
  qed
  from assms(1) show ?thesis
  proof (cases rule: attempt_cases)
    case (no_conn e)
    then show ?thesis using conn [OF no_conn(1)] by simp
  next
    case (answered ce0 w1 rep)
    then obtain new where "go_run lib cfg srt domain r (AtGet i, s, w) [] new (AtExchange i ce0, s', w1)"
      using conn [OF answered(1)] by auto
    from gr_step [OF this g_exchanged [OF assms(2) answered(2)]] answered(3,4) show ?thesis by auto
  next
    case (broken ce0 ce1 s1 w1 w2 rep e c q' qs')
    then obtain new where "go_run lib cfg srt domain r (AtGet i, s, w) [] new (AtExchange i ce0, s1, w1)"
      using conn [OF broken(1)] by auto
    from gr_step [OF gr_step [OF this g_exchange_failed [OF assms(2) broken(2)]] g_close [OF broken(3)]]
    show ?thesis using broken(5,8,9) by (auto simp: upstream_error_def)
  qed
qed

lemma failed_attempts_run:
  assumes "failed_attempts cfg srt calls (query_msg lib domain (q_Qtype q)) k s w s' w' eo"
    and "m_Question r = q # qs" and "int k \<le> cfg_UpstreamRetries cfg + 1"
    and "sort_contract srt" and "named_upstreams (ms_connPool s)"
  shows "\<exists>new. go_run lib cfg srt domain r (AtGet 0, s, w) [] new (AtGet k, s', w')"
  using assms(1,3,5)
proof (induction rule: failed_attempts.induct)
  case (fa_none s w)
  then show ?case using gr_refl by blast
next
  case (fa_more k s w s1 w1 e0 ce rep e s2 w2)
  then obtain new where new: "go_run lib cfg srt domain r (AtGet 0, s, w) [] new (AtGet k, s1, w1)" by auto
  have "named_upstreams (ms_connPool s1)"
    using failed_attempts_ledger [OF fa_more(1) assms(4) fa_more.prems(2)] by simp
  then obtain new2 where "go_run lib cfg srt domain r (AtGet k, s1, w1) [] new2 (AtGet (k + 1), s2, w2)"
    using attempt_run [OF fa_more(2) assms(2), of k] fa_more.prems(1) by auto
  from go_run_trans [OF this new] show ?case by auto
qed

lemma RecursiveQuery_run:
  assumes "RecursiveQuery lib cfg srt calls fin born s w domain (q_Qtype q) = Ok ((resp, address, err), s', w')"
    and "m_Question r = q # qs" and "0 \<le> cfg_UpstreamRetries cfg"
    and "sort_contract srt" and "named_upstreams (ms_connPool s)"
  shows "\<exists>new. go_run lib cfg srt domain r (AtGet 0, s, count_query w) [] new
    ((case err of None \<Rightarrow> AtStore resp address | Some _ \<Rightarrow> AtServfail), s', w')"
  using assms(1,3)
proof (cases rule: RecursiveQuery_cases)
  case (answered k s1 w1 e1 ce reply s2)
  have k: "int k \<le> cfg_UpstreamRetries cfg" using answered(1) assms(3) by linarith
  obtain new1 where 1: "go_run lib cfg srt domain r (AtGet 0, s, count_query w) [] new1 (AtGet k, s1, w1)"
    using failed_attempts_run [OF answered(2) assms(2) _ assms(4,5)] k by auto
  have "named_upstreams (ms_connPool s1)"
    using failed_attempts_ledger [OF answered(2) assms(4,5)] by simp
  then obtain new2 where 2: "go_run lib cfg srt domain r (AtGet k, s1, w1) [] new2 (AtAdd ce reply, s2, w')"
    using attempt_run [OF answered(3) assms(2) k] by auto
  obtain er c where "connPool_Add cfg srt fin (ms_connPool s2) ce = (er, c)" by force
  from gr_step [OF go_run_trans [OF 2 1] g_add [OF assms(2) this, where born = born]] this answered(4-7)
  show ?thesis by auto
next
  case (gave_up e)
  obtain new where 1: "go_run lib cfg srt domain r (AtGet 0, s, count_query w) [] new
      (AtGet (nat (cfg_UpstreamRetries cfg) + 1), s', w')"
    using failed_attempts_run [OF gave_up(1) assms(2) _ assms(4,5)] assms(3) by auto
  from gr_step [OF 1 g_give_up] assms(3) gave_up(4) show ?thesis by auto
qed

lemma RetrieveRecords_run:
  assumes "RetrieveRecords lib cfg srt e s w domain (q_Qtype q) = Ok ((resp, source, err), s', w')"
    and "m_Question r = q # qs" and "0 \<le> cfg_UpstreamRetries cfg"
    and "sort_contract srt" and "named_upstreams (ms_connPool s)"
  shows "\<exists>new. go_run lib cfg srt domain r (AtCache, s, w) [] new
    ((case err of None \<Rightarrow> AtReply resp source | Some _ \<Rightarrow> AtServfail), s', w')"
  using assms(1)
proof (cases rule: RetrieveRecords_cases)
  case (cached rc st)
  then show ?thesis using go_one [OF g_cache_hit [OF assms(2) cached(1) [folded Get_alone]]] by auto
next
  case (hosted r1 rc1 st1 rc2 st2)
  have "go_run lib cfg srt domain r (AtCache, s, w) [] [] (AtHosted, s\<lparr>ms_Cache := rc1\<rparr>, w\<lparr>w_store := st1\<rparr>)"
    by (rule go_one, rule g_cache_miss [OF assms(2) hosted(1) [folded Get_alone]])
  from gr_step [OF this g_hosted_hit [OF assms(2)]] hosted(2) [folded Get_alone] hosted(3-6) show ?thesis
    by (intro exI [of _ "[]"]) simp
next
  case (asked r1 rc1 st1 r2 rc2 st2 err1 address s3)
  let ?s2 = "s\<lparr>ms_Cache := rc1, ms_HostedCache := rc2\<rparr>" and ?w2 = "w\<lparr>w_store := st2\<rparr>"
  have "go_run lib cfg srt domain r (AtCache, s, w) [] [] (AtHosted, s\<lparr>ms_Cache := rc1\<rparr>, w\<lparr>w_store := st1\<rparr>)"
    by (rule go_one, rule g_cache_miss [OF assms(2) asked(1) [folded Get_alone]])
  from gr_step [OF this g_hosted_miss [OF assms(2)]] asked(2) [folded Get_alone]
  have 1: "go_run lib cfg srt domain r (AtCache, s, w) [] [] (AtGet 0, ?s2, count_query ?w2)" by simp
  have "named_upstreams (ms_connPool ?s2)" using assms(5) by simp
  then obtain new where 2: "go_run lib cfg srt domain r (AtGet 0, ?s2, count_query ?w2) [] new
      ((case err1 of None \<Rightarrow> AtStore resp address | Some _ \<Rightarrow> AtServfail), s3, w')"
    using RecursiveQuery_run [OF asked(3) assms(2-4)] by blast
  note 3 = go_run_trans [OF 2 1]
  show ?thesis
  proof (cases err1)
    case None
    with 3 have "go_run lib cfg srt domain r (AtCache, s, w) [] new (AtStore resp address, s3, w')" by simp
    from gr_step [OF this g_store] None asked(4-6) show ?thesis by auto
  next
    case (Some er)
    with 3 asked(4-6) show ?thesis by auto
  qed
qed

text \<open>
  C2. The sequential code of \<open>HandleDNS\<close> refines the goroutine of the parallel system: whatever it
  returns is also the outcome of a run of one goroutine from its start to its end, with the same
  messages, server and world. So what holds of all runs holds of the code.
\<close>

theorem HandleDNS_refines_goroutine:
  assumes "HandleDNS_serve lib cfg srt e s w domain r = Ok (out, s', w')"
    and "0 \<le> cfg_UpstreamRetries cfg" and "sort_contract srt" and "named_upstreams (ms_connPool s)"
  shows "\<exists>new. go_run lib cfg srt domain r (Started, s, w) out new (Gone, s', w')"
proof -
  obtain q qs where q: "m_Question r = q # qs"
    using assms(1) by (cases "m_Question r") (auto simp: HandleDNS_serve_def)
  obtain resp source err s1 w1 where
    rr: "RetrieveRecords lib cfg srt e s (dequeued w) domain (q_Qtype q) = Ok ((resp, source, err), s1, w1)"
    using assms(1) by (auto simp: HandleDNS_serve_def q Let_def dequeued_def)
  note serve = assms(1) [unfolded HandleDNS_serve_def Let_def q list.case dequeued_def [symmetric] rr
      outcome_bind.simps prod.case timed_def [symmetric]]
  have start: "go_run lib cfg srt domain r (Started, s, w) [] [] (AtCache, s, dequeued w)"
    by (rule go_one, rule g_dequeue)
  obtain new where "go_run lib cfg srt domain r (AtCache, s, dequeued w) [] new
      ((case err of None \<Rightarrow> AtReply resp source | Some _ \<Rightarrow> AtServfail), s1, w1)"
    using RetrieveRecords_run [OF rr q assms(2-4)] by blast
  note run = go_run_trans [OF this start]
  show ?thesis
  proof (cases err)
    case None
    obtain copy st where c: "lib_Copy lib (resp_Entry resp) (w_store w1) = (copy, st)" by force
    from run None have "go_run lib cfg srt domain r (Started, s, w) [] new (AtReply resp source, s1, w1)" by simp
    from gr_step [OF this g_reply [OF c refl, where d = "e_duration e"]] serve None c show ?thesis
      by (intro exI [of _ new]) auto
  next
    case (Some er)
    obtain wire w2 where sf: "sendServfail lib (e_duration e) r (timed w1) = (wire, w2)" by (rule prod.exhaust)
    from run Some have "go_run lib cfg srt domain r (Started, s, w) [] new (AtServfail, s1, w1)" by simp
    from gr_step [OF this g_servfail [OF sf]] serve Some sf show ?thesis by (intro exI [of _ new]) auto
  qed
qed

end
