(* ===== verification/MutexSystem.thy ===== *)
theory MutexSystem
  imports MutexRuns
begin

text \<open>
  The whole mutex server: any number of queries, each in its goroutine, the cleaning crew of the lookup
  cache and the closing goroutines of the pool, in any interleaving, from the server that
  \<open>NewMutexServer\<close> builds.
\<close>

section \<open>The books of one step\<close>

fun held_at :: "point \<Rightarrow> nat option multiset" where
  "held_at (AtExchange i ce) = {#ce_Conn ce#}"
| "held_at (AtClose i ce) = {#ce_Conn ce#}"
| "held_at (AtAdd ce reply) = {#ce_Conn ce#}"
| "held_at pt = {#}"

definition serving :: "point \<Rightarrow> bool" where
  "serving pt \<longleftrightarrow> pt \<noteq> Waiting \<and> pt \<noteq> Gone"

definition queued :: "point \<Rightarrow> bool" where
  "queued pt \<longleftrightarrow> pt = Waiting \<or> pt = Started"

lemma go_step_pool:
  assumes "go_step lib cfg srt domain r (pt, s, w) out new (pt', s', w')"
    and "sort_contract srt" and "named_upstreams (ms_connPool s)"
  shows "named_upstreams (ms_connPool s') \<and>
    total_ids (ms_connPool s') + held_at pt' = total_ids (ms_connPool s) + held_at pt + mset (map Some new)"
  using assms(1)
proof cases
  case (g_pooled i clk ce c)
  have "named_upstreams c"
    using g_pooled(8) assms(3) by (cases rule: Get_owned) (auto simp: named_upstreams_def)
  moreover have "take_by_Get (ms_connPool s) (ce_Conn ce) c"
    using g_pooled(8) assms(3) by (auto simp: take_by_Get_def)
  ultimately show ?thesis
    using g_pooled pool.take_law by (fastforce simp: total_ids_def)
next
  case (g_must_dial i clk ce u c)
  then have "c = ms_connPool s" by (auto elim: Get_owned)
  with g_must_dial assms(3) show ?thesis by simp
next
  case (g_dialled call u ce n i)
  from g_dialled(6) show ?thesis
    by (cases rule: newConnection_cases) (use g_dialled assms(3) in auto)
next
  case (g_dial_failed call u ce e i)
  from g_dial_failed(6) show ?thesis
    by (cases rule: newConnection_cases)
      (use g_dial_failed assms(3) dial_fails_ids dial_fails_named in auto)
next
  case (g_exchanged q qs xchg ce ce1 reply i)
  then show ?thesis using assms(3) by (auto simp: attemptExchange_Ok)
next
  case (g_exchange_failed q qs xchg ce ce1 reply e i)
  then show ?thesis using assms(3) by (auto simp: attemptExchange_Ok AddError_def)
next
  case (g_close now ce c i)
  have "shut_by_Close cfg srt (ms_connPool s) (ce_Conn ce) c"
    using g_close(7) by (auto simp: shut_by_Close_def)
  from pool.shut_law [OF this] show ?thesis
    using g_close Close_named [OF assms(2) g_close(7)] assms(3) by (simp add: total_ids_def)
next
  case (g_add q qs now ce err c reply born)
  have "give_by_Add cfg srt (ms_connPool s) (ce_Conn ce) c"
    using g_add by (auto simp: give_by_Add_def)
  from pool.give_law [OF this] Add_named [OF assms(2)] show ?thesis
    using g_add assms(3) by (auto simp: total_ids_def)
qed (use assms(3) in \<open>auto simp: sem_Acquire_def sem_Release_def split: if_splits\<close>)

lemma newConnection_frame:
  assumes "newConnection cfg call s u = (res, s')"
  shows "ms_sem s' = ms_sem s" "ms_Cache s' = ms_Cache s" "ms_HostedCache s' = ms_HostedCache s"
  using assms by (auto simp: newConnection_def Let_def split: prod.splits option.splits)

lemma go_step_counts:
  assumes "go_step lib cfg srt domain r (pt, s, w) out new (pt', s', w')"
  shows "ms_sem s' + of_bool (serving pt') = ms_sem s + of_bool (serving pt)"
    and "0 \<le> ms_sem s \<Longrightarrow> 0 \<le> ms_sem s'"
    and "mt_QueuedQueries (w_mt w') - of_bool (queued pt') = mt_QueuedQueries (w_mt w) - of_bool (queued pt)"
    and "mt_TotalDnsQueries (w_mt w') = mt_TotalDnsQueries (w_mt w)"
    and "length out = of_bool (pt' = Gone)" and "pt \<noteq> Gone"
  using assms
  by (cases; auto simp: serving_def queued_def sem_Acquire_def sem_Release_def dequeued_def count_query_def
      reused_def upstream_error_def timed_def attemptExchange_Ok sendServfail_def Let_def newConnection_frame
      split: if_splits)+

lemma go_step_Cache:
  assumes "go_step lib cfg srt domain r (pt, s, w) out new (pt', s', w')"
  obtains (same) "ms_Cache s' = ms_Cache s"
  | (got) oob clk oth n q res st where
      "RecordCache_Get_shared oob clk oth (ms_Cache s) n q (w_store w) = (res, ms_Cache s', st)"
  | (stored) resp where "ms_Cache s' = RecordCache_Add (ms_Cache s) resp"
  using assms
  by cases (auto simp: sem_Acquire_def sem_Release_def newConnection_frame split: if_splits)

lemma go_step_crew_inv:
  assumes "go_step lib cfg srt domain r (pt, s, w) out new (pt', s', w')" and "crew_inv (as_crew s w)"
  shows "crew_inv (as_crew s' w')"
  using assms(1)
proof (cases rule: go_step_Cache)
  case same
  with assms(2) show ?thesis by (simp add: crew_inv_def as_crew_def)
next
  case (got oob clk oth n q res st)
  have "crew_work oob (as_crew s w) ((as_crew s w)\<lparr>c_rc := ms_Cache s', c_store := st\<rparr>)"
    by (rule crew_work.crew_get [where res = res]) (use got in \<open>simp_all add: as_crew_def\<close>)
  from crew_work_inv [OF this assms(2)] show ?thesis by (simp add: crew_inv_def as_crew_def)
next
  case (stored resp)
  have "client_step (FormatKey resp) (as_crew s w)
      ((as_crew s w)\<lparr>c_rc := RecordCache_Add (c_rc (as_crew s w)) resp, c_store := c_store (as_crew s w)\<rparr>)"
    by (rule client_step.client_add) (simp_all add: as_crew_def)
  from client_step_inv [OF this assms(2)] stored show ?thesis by (simp add: crew_inv_def as_crew_def)
qed

lemma go_step_reply:
  assumes "go_step lib cfg srt domain r (pt, s, w) [wr] new (pt', s', w')" and "dns_contract lib"
  shows "m_Id (fst wr) = m_Id r"
  using assms
  by cases (auto simp: on_wire_def dns_contract_def sendServfail_def Let_def)

section \<open>The system\<close>

record msys =
  y_srv :: MutexServer
  y_world :: world
  y_go :: "(point \<times> string \<times> Msg) multiset"
  y_out :: "(Msg \<times> wire) list"
  y_dialled :: "nat list"

text \<open>\<open>crew_step\<close> allows other clients of the cache as well, so the system has more runs than the code.\<close>

inductive sys_step :: "dns_lib \<Rightarrow> Configuration \<Rightarrow> sort_fun \<Rightarrow> msys \<Rightarrow> msys \<Rightarrow> bool" for lib cfg srt where
  sy_arrive: "HandleDNS_accept lib (y_srv y) (y_world y) r = Ok (domain, w1) \<Longrightarrow>
     sys_step lib cfg srt y (y\<lparr>y_world := w1, y_go := add_mset (Waiting, domain, r) (y_go y)\<rparr>)"
| sy_go: "\<lbrakk>y_go y = add_mset (pt, domain, r) others;
     go_step lib cfg srt domain r (pt, y_srv y, y_world y) out new (pt', s', w');
     set new \<inter> set (y_dialled y) = {}\<rbrakk> \<Longrightarrow>
     sys_step lib cfg srt y \<lparr>y_srv = s', y_world = w', y_go = add_mset (pt', domain, r) others,
       y_out = y_out y @ map (Pair r) out, y_dialled = new @ y_dialled y\<rparr>"
| sy_reap: "reap_step cfg srt (ms_connPool (y_srv y)) i c \<Longrightarrow>
     sys_step lib cfg srt y (y\<lparr>y_srv := (y_srv y)\<lparr>ms_connPool := c\<rparr>\<rparr>)"
| sy_crew: "\<lbrakk>crew_step oob (as_crew (y_srv y) (y_world y)) cs; c_panic cs = None\<rbrakk> \<Longrightarrow>
     sys_step lib cfg srt y (y\<lparr>y_srv := (y_srv y)\<lparr>ms_Cache := c_rc cs\<rparr>,
       y_world := (y_world y)\<lparr>w_store := c_store cs\<rparr>\<rparr>)"

definition count_points :: "(point \<Rightarrow> bool) \<Rightarrow> msys \<Rightarrow> nat" where
  "count_points P y = size {#g \<in># y_go y. P (fst g)#}"

definition sys_inv :: "int \<Rightarrow> msys \<Rightarrow> bool" where
  "sys_inv permits y \<longleftrightarrow>
     named_upstreams (ms_connPool (y_srv y)) \<and> crew_inv (as_crew (y_srv y) (y_world y)) \<and>
     ms_sem (y_srv y) + int (count_points serving y) = permits \<and> (0 \<le> permits \<longrightarrow> 0 \<le> ms_sem (y_srv y)) \<and>
     mt_QueuedQueries (w_mt (y_world y)) = int (count_points queued y) \<and>
     mt_TotalDnsQueries (w_mt (y_world y)) = size (y_go y) \<and>
     total_ids (ms_connPool (y_srv y)) + (\<Sum>g\<in>#y_go y. held_at (fst g)) = mset (map Some (y_dialled y)) \<and>
     distinct (y_dialled y) \<and>
     mset (map fst (y_out y)) = image_mset (\<lambda>g. snd (snd g)) {#g \<in># y_go y. fst g = Gone#}"

lemma books_step:
  fixes a :: "'i multiset"
  assumes "a + h' = a0 + h + n" and "a0 + (h + x) = d"
  shows "a + (h' + x) = n + d"
proof -
  have "a + (h' + x) = (a + h') + x" by (simp only: add.assoc)
  also have "\<dots> = n + (a0 + (h + x))" by (simp only: assms(1) ac_simps)
  finally show ?thesis by (simp only: assms(2))
qed

lemma go_step_new: "go_step lib cfg srt domain r c out new c' \<Longrightarrow> distinct new"
  by (cases rule: go_step.cases) auto

lemma sys_step_inv:
  assumes "sort_contract srt" and "sys_step lib cfg srt y y'" and "sys_inv permits y"
  shows "sys_inv permits y'"
  using assms(2,3)
proof cases
  case (sy_arrive r domain w1)
  have "w1 = (y_world y)\<lparr>w_mt := (w_mt (y_world y))\<lparr>mt_TotalDnsQueries := mt_TotalDnsQueries (w_mt (y_world y)) + 1,
      mt_QueuedQueries := mt_QueuedQueries (w_mt (y_world y)) + 1\<rparr>\<rparr>"
    using sy_arrive(2) by (auto simp: HandleDNS_accept_def Let_def split: list.splits)
  with sy_arrive assms(3) show ?thesis
    by (simp add: sys_inv_def count_points_def serving_def queued_def as_crew_def crew_inv_def)
next
  case (sy_go pt domain r others out new pt' s' w')
  note inv = assms(3) [unfolded sys_inv_def count_points_def sy_go(2)]
  have named: "named_upstreams (ms_connPool (y_srv y))" using inv by blast
  note b = go_step_pool [OF sy_go(3) assms(1) named]
  note c = go_step_counts [OF sy_go(3)]
  have crew: "crew_inv (as_crew s' w')" using go_step_crew_inv [OF sy_go(3)] inv by blast
  have "total_ids (ms_connPool (y_srv y)) + (held_at pt + (\<Sum>g\<in>#others. held_at (fst g)))
      = mset (map Some (y_dialled y))"
    using inv by simp
  from books_step [OF conjunct2 [OF b] this]
  have "total_ids (ms_connPool s') + (\<Sum>g\<in>#add_mset (pt', domain, r) others. held_at (fst g))
      = mset (map Some (new @ y_dialled y))" by simp
  moreover have "distinct (new @ y_dialled y)"
    using inv sy_go(4) go_step_new [OF sy_go(3)] by simp
  moreover have "mset (map fst (y_out y @ map (Pair r) out))
      = image_mset (\<lambda>g. snd (snd g)) {#g \<in># add_mset (pt', domain, r) others. fst g = Gone#}"
    using inv c(5,6) by (cases out) (auto simp: of_bool_def split: if_splits)
  ultimately show ?thesis
    using inv b c crew unfolding sy_go(1) sys_inv_def count_points_def
    by (simp add: of_bool_def split: if_splits)
next
  case (sy_reap i c)
  have "named_upstreams c" using sy_reap(2)
  proof cases
    case (reap xs ce ys now)
    show ?thesis using Close_named [OF assms(1) reap(3)] assms(3) by (simp add: sys_inv_def named_upstreams_def)
  qed
  moreover have "total_ids c = total_ids (ms_connPool (y_srv y))"
    using pool.reap_law [OF sy_reap(2)] by (simp add: total_ids_def)
  ultimately show ?thesis
    using sy_reap assms(3) by (simp add: sys_inv_def count_points_def as_crew_def)
next
  case (sy_crew oob cs)
  have "crew_inv cs" using crew_step_inv [OF sy_crew(2)] assms(3) by (simp add: sys_inv_def)
  then have "crew_inv (as_crew ((y_srv y)\<lparr>ms_Cache := c_rc cs\<rparr>) ((y_world y)\<lparr>w_store := c_store cs\<rparr>))"
    by (simp add: crew_inv_def as_crew_def)
  with sy_crew assms(3) show ?thesis by (simp add: sys_inv_def count_points_def)
qed

section \<open>The server that is built\<close>

lemma add_upstreams_frame [simp]:
  "ms_sem (add_upstreams s p names) = ms_sem s"
  "ms_Cache (add_upstreams s p names) = ms_Cache s"
  "ms_HostedCache (add_upstreams s p names) = ms_HostedCache s"
  "cp_cache (ms_connPool (add_upstreams s p names)) = cp_cache (ms_connPool s)"
  "cp_closing (ms_connPool (add_upstreams s p names)) = cp_closing (ms_connPool s)"
  "cp_closed (ms_connPool (add_upstreams s p names)) = cp_closed (ms_connPool s)"
  by (induction names arbitrary: s p)
    (simp_all add: Let_def MutexServer_AddUpstream_def connPool_AddUpstream_def)

lemma add_upstreams_pool:
  "cp_upstreams (ms_connPool (add_upstreams s p names)) = cp_upstreams (ms_connPool s) @ [p..<p + length names]"
  "cp_store (ms_connPool (add_upstreams s p names)) q =
     (if p \<le> q \<and> q < p + length names then zero_Upstream\<lparr>up_Name := names ! (q - p)\<rparr>
      else cp_store (ms_connPool s) q)"
proof (induction names arbitrary: s p)
  case (Cons name names)
  {
    case 1
    have "[p..<p + length (name # names)] = p # [Suc p..<Suc p + length names]"
      using upt_conv_Cons [of p "p + length (name # names)"] by (simp del: upt_Suc)
    then show ?case
      by (simp add: Let_def Cons MutexServer_AddUpstream_def connPool_AddUpstream_def)
  next
    case 2
    show ?case
      by (auto simp add: Let_def Cons MutexServer_AddUpstream_def connPool_AddUpstream_def nth_Cons'
          Suc_diff_Suc not_less_eq_eq)
  }
qed auto

text \<open>
  The server that \<open>NewMutexServer\<close> builds has the upstreams of the configuration in their order,
  as many permits as configured (or processors, if that is zero), an empty lookup cache with a
  running janitor and trashman, and an empty hosted cache that has neither.
\<close>

lemma NewMutexServer_state:
  assumes "NewMutexServer cfg gomaxprocs None = Inr s"
  shows "map (cp_store (ms_connPool s)) (cp_upstreams (ms_connPool s))
      = map (\<lambda>name. zero_Upstream\<lparr>up_Name := name\<rparr>) (cfg_Upstreams cfg) \<and>
    cp_cache (ms_connPool s) = fmempty \<and>
    ms_sem s = (if cfg_ConcurrentQueries cfg = 0 then gomaxprocs else cfg_ConcurrentQueries cfg) \<and>
    RecordCache_Size (ms_Cache s) = 0 \<and> RecordCache_Size (ms_HostedCache s) = 0 \<and>
    (\<exists>j t. rc_Janitor (ms_Cache s) = Some j \<and> j_running j \<and> rc_TrashMan (ms_Cache s) = Some t \<and>
       tm_running t \<and> tm_evictionBatchSize t = cfg_EvictionBatchSize cfg) \<and>
    rc_Janitor (ms_HostedCache s) = None \<and> rc_TrashMan (ms_HostedCache s) = None"
proof -
  let ?s0 = "\<lparr>ms_Cache = StartCleaningCrew cfg NewCache, ms_HostedCache = NewCache,
      ms_sem = (if cfg_ConcurrentQueries cfg = 0 then gomaxprocs else cfg_ConcurrentQueries cfg),
      ms_connPool = NewConnPool (\<lambda>_. zero_Upstream)\<rparr>"
  have s: "s = add_upstreams ?s0 0 (cfg_Upstreams cfg)"
    using assms by (simp add: NewMutexServer_def Let_def)
  have "cp_upstreams (ms_connPool s) = [0..<length (cfg_Upstreams cfg)]"
    by (simp add: s add_upstreams_pool NewConnPool_def)
  moreover have "cp_store (ms_connPool s) q = zero_Upstream\<lparr>up_Name := cfg_Upstreams cfg ! q\<rparr>"
    if "q < length (cfg_Upstreams cfg)" for q
    using that by (simp add: s add_upstreams_pool)
  ultimately have "map (cp_store (ms_connPool s)) (cp_upstreams (ms_connPool s))
      = map (\<lambda>name. zero_Upstream\<lparr>up_Name := name\<rparr>) (cfg_Upstreams cfg)"
    by (intro nth_equalityI) simp_all
  moreover have "cp_cache (ms_connPool s) = fmempty" by (simp add: s NewConnPool_def)
  ultimately show ?thesis
    by (simp add: s) (simp add: StartCleaningCrew_def NewCache_def janitor_Start_def trashMan_Start_def
        RecordCache_Size_def Let_def)
qed

definition permits :: "Configuration \<Rightarrow> int \<Rightarrow> int" where
  "permits cfg gomaxprocs = (if cfg_ConcurrentQueries cfg = 0 then gomaxprocs else cfg_ConcurrentQueries cfg)"

inductive sys_start :: "Configuration \<Rightarrow> int \<Rightarrow> msys \<Rightarrow> bool" for cfg gomaxprocs where
  "NewMutexServer cfg gomaxprocs None = Inr s \<Longrightarrow> sys_start cfg gomaxprocs
     \<lparr>y_srv = s, y_world = \<lparr>w_store = st, w_mt = zero_metrics, w_log = []\<rparr>, y_go = {#}, y_out = [],
      y_dialled = []\<rparr>"

definition sys_reach :: "dns_lib \<Rightarrow> Configuration \<Rightarrow> sort_fun \<Rightarrow> int \<Rightarrow> msys \<Rightarrow> bool" where
  "sys_reach lib cfg srt gomaxprocs y \<longleftrightarrow> (\<exists>y0. sys_start cfg gomaxprocs y0 \<and> (sys_step lib cfg srt)\<^sup>*\<^sup>* y0 y)"

lemma sys_start_inv:
  assumes "sys_start cfg gomaxprocs y" and "[] \<notin> set (cfg_Upstreams cfg)"
  shows "sys_inv (permits cfg gomaxprocs) y"
  using assms(1)
proof cases
  case (1 s st)
  have s: "s = add_upstreams \<lparr>ms_Cache = StartCleaningCrew cfg NewCache, ms_HostedCache = NewCache,
      ms_sem = permits cfg gomaxprocs, ms_connPool = NewConnPool (\<lambda>_. zero_Upstream)\<rparr> 0 (cfg_Upstreams cfg)"
    using 1(2) by (simp add: NewMutexServer_def Let_def permits_def)
  have "cfg_Upstreams cfg ! p \<noteq> []" if "p < length (cfg_Upstreams cfg)" for p
    using nth_mem [OF that] assms(2) by metis
  then have "named_upstreams (ms_connPool s)"
    by (simp add: named_upstreams_def s add_upstreams_pool NewConnPool_def)
  moreover have "crew_inv (as_crew s w)" for w
    using crew_start_inv [of cfg "w_store w"] by (simp add: s as_crew_def crew_start_def)
  moreover have "total_ids (ms_connPool s) = {#}"
    by (simp add: total_ids_def inside_ids_def closed_ids_def owned_def pooled_def s NewConnPool_def)
  ultimately show ?thesis
    by (simp add: 1(1) sys_inv_def count_points_def zero_metrics_def) (simp add: s)
qed

lemma sys_reach_inv:
  assumes "sys_reach lib cfg srt gomaxprocs y" and "sort_contract srt" and "[] \<notin> set (cfg_Upstreams cfg)"
  shows "sys_inv (permits cfg gomaxprocs) y"
proof -
  from assms(1) obtain y0 where y0: "sys_start cfg gomaxprocs y0" and "(sys_step lib cfg srt)\<^sup>*\<^sup>* y0 y"
    by (auto simp: sys_reach_def)
  from this(2) show ?thesis
    by (induction rule: rtranclp_induct) (auto intro: sys_start_inv [OF y0 assms(3)] sys_step_inv [OF assms(2)])
qed

section \<open>Properties of all runs\<close>

text \<open>
  C5. In every interleaving at most as many queries are in progress as there are permits, each of
  them holding one; the queue gauge shows the queries that were accepted and have not begun, and the
  lookup cache stays in the order the cleaning crew needs.
\<close>

theorem in_flight_bounded:
  assumes "sys_reach lib cfg srt gomaxprocs y" and "sort_contract srt" and "[] \<notin> set (cfg_Upstreams cfg)"
  shows "ms_sem (y_srv y) + int (count_points serving y) = permits cfg gomaxprocs \<and>
    (0 \<le> permits cfg gomaxprocs \<longrightarrow> int (count_points serving y) \<le> permits cfg gomaxprocs) \<and>
    mt_QueuedQueries (w_mt (y_world y)) = int (count_points queued y) \<and>
    mt_TotalDnsQueries (w_mt (y_world y)) = size (y_go y) \<and> cache_keyed (ms_Cache (y_srv y))"
  using sys_reach_inv [OF assms] by (auto simp: sys_inv_def crew_inv_def as_crew_def)

text \<open>
  C1. No connection is shared or lost under concurrency: every connection that was ever dialled is,
  exactly once, in the pool, waiting to be closed, closed, or in the hands of one query.
\<close>

theorem connections_never_shared:
  assumes "sys_reach lib cfg srt gomaxprocs y" and "sort_contract srt" and "[] \<notin> set (cfg_Upstreams cfg)"
  shows "inside_ids (ms_connPool (y_srv y)) + closed_ids (ms_connPool (y_srv y)) +
      (\<Sum>g\<in>#y_go y. held_at (fst g)) = mset (map Some (y_dialled y)) \<and> distinct (y_dialled y)"
  using sys_reach_inv [OF assms] by (simp add: sys_inv_def total_ids_def)

lemma sys_reach_ids:
  assumes "sys_reach lib cfg srt gomaxprocs y" and "dns_contract lib"
  shows "\<forall>(r, wr)\<in>set (y_out y). m_Id (fst wr) = m_Id r"
proof -
  from assms(1) obtain y0 where y0: "sys_start cfg gomaxprocs y0" and "(sys_step lib cfg srt)\<^sup>*\<^sup>* y0 y"
    by (auto simp: sys_reach_def)
  from this(2) show ?thesis
  proof (induction rule: rtranclp_induct)
    case base
    from y0 show ?case by cases simp
  next
    case (step y1 y2)
    from step(2) show ?case
    proof cases
      case (sy_go pt domain r others out new pt' s' w')
      have "m_Id (fst wr) = m_Id r" if "wr \<in> set out" for wr
      proof -
        have "out = [wr]"
          using that go_step_counts(5) [OF sy_go(3)]
          by (cases out) (auto simp: of_bool_def split: if_splits)
        then show ?thesis using go_step_reply [of lib cfg srt domain r] sy_go(3) assms(2) by blast
      qed
      with sy_go step.IH show ?thesis by auto
    qed (use step.IH in simp_all)
  qed
qed

text \<open>
  C4. In every interleaving the messages that were written answer the requests that have been
  finished, one each and under the request's identifier; no other request gets a message.
\<close>

theorem one_reply_each:
  assumes "sys_reach lib cfg srt gomaxprocs y" and "sort_contract srt" and "[] \<notin> set (cfg_Upstreams cfg)"
    and "dns_contract lib"
  shows "mset (map fst (y_out y)) = image_mset (\<lambda>g. snd (snd g)) {#g \<in># y_go y. fst g = Gone#} \<and>
    (\<forall>(r, wr)\<in>set (y_out y). m_Id (fst wr) = m_Id r)"
  using sys_reach_inv [OF assms(1-3)] sys_reach_ids [OF assms(1,4)] by (simp add: sys_inv_def)

end
