(* ===== verification/HostedAnswers.thy ===== *)
theory HostedAnswers
  imports MutexSystem Zones
begin

text \<open>
  From a zone file to an answer: the record a server hosts for a name and a type, and the replies to
  queries for it, one after the other, until lookups have worn its TTL down.
\<close>

text \<open>Record \<open>p\<close> is the last one with name \<open>n\<close> and type \<open>q\<close> in the zone files, all of which can be read.\<close>

definition hosts ::
  "zone_parser \<Rightarrow> (string \<Rightarrow> go_error + string) \<Rightarrow> Configuration \<Rightarrow> rr_store \<Rightarrow> string \<Rightarrow> 16 word \<Rightarrow> rrptr \<Rightarrow> bool" where
  "hosts parse files cfg st n q p \<longleftrightarrow> delivers parse \<and> (\<forall>f\<in>set (cfg_ZoneFiles cfg). \<exists>text. files f = Inr text) \<and>
     List.find (\<lambda>p. rr_Name (st p) = n \<and> rr_Rrtype (st p) = q) (rev (zone_records parse files (cfg_ZoneFiles cfg)))
       = Some p"

lemma load_files_frame:
  assumes "load_files parse files clks st names s = Some s'"
  shows "ms_Cache s' = ms_Cache s \<and> ms_connPool s' = ms_connPool s \<and> ms_sem s' = ms_sem s \<and>
    rc_TrashMan (ms_HostedCache s') = rc_TrashMan (ms_HostedCache s)"
  using assms
  by (induction names arbitrary: s) (auto split: sum.splits)

lemma hosted_loaded:
  assumes "NewMutexServer cfg gomaxprocs None = Inr s0" and "hosts parse files cfg st n q p"
  obtains s where "loadLocalZones cfg parse files (\<lambda>_ _. born) st s0 = Some s"
    "fmlookup (rc_cache (ms_HostedCache s)) (cache_key n q) = Some (zone_response born st p)"
    "ms_Cache s = ms_Cache s0" "ms_sem s = ms_sem s0" "rc_TrashMan (ms_HostedCache s) = None"
    "rr_Rrtype (st p) = q"
proof -
  have empty: "rc_cache (ms_HostedCache s0) = fmempty" "rc_TrashMan (ms_HostedCache s0) = None"
    using assms(1) by (auto simp: NewMutexServer_def NewCache_def Let_def)
  have d: "delivers parse" "\<And>f. f \<in> set (cfg_ZoneFiles cfg) \<Longrightarrow> \<exists>text. files f = Inr text"
    and found: "List.find (\<lambda>p. rr_Name (st p) = n \<and> rr_Rrtype (st p) = q)
      (rev (zone_records parse files (cfg_ZoneFiles cfg))) = Some p"
    using assms(2) by (simp_all add: hosts_def)
  obtain s where s: "loadLocalZones cfg parse files (\<lambda>_ _. born) st s0 = Some s"
      "fmlookup (rc_cache (ms_HostedCache s)) (cache_key n q) = Some (zone_response born st p)"
    using zones_loaded [where cfg = cfg, OF d empty(1)] found by fastforce
  moreover have "rr_Rrtype (st p) = q" using found by (auto simp: find_Some_iff)
  ultimately show thesis
    using load_files_frame [of parse files "\<lambda>_ _. born" st "cfg_ZoneFiles cfg" s0 s] empty(2)
    by (intro that [of s]) (simp_all add: loadLocalZones_def)
qed

text \<open>Requests handled one after the other, each in its surroundings.\<close>

fun handle_each ::
  "dns_lib \<Rightarrow> Configuration \<Rightarrow> sort_fun \<Rightarrow> (surroundings \<times> Msg) list \<Rightarrow> MutexServer \<Rightarrow> world
     \<Rightarrow> (wire list list \<times> MutexServer \<times> world) outcome" where
  "handle_each lib cfg srt [] s w = Ok ([], s, w)"
| "handle_each lib cfg srt ((e, r) # ers) s w =
     outcome_bind (HandleDNS lib cfg srt e s w r) (\<lambda>(out, s1, w1).
       outcome_bind (handle_each lib cfg srt ers s1 w1) (\<lambda>(outs, s2, w2). Ok (out # outs, s2, w2)))"

text \<open>Requests for one name and type, at times that the clock shows to the hosted cache.\<close>

definition all_ask :: "string \<Rightarrow> 16 word \<Rightarrow> time list \<Rightarrow> (surroundings \<times> Msg) list \<Rightarrow> bool" where
  "all_ask n q nows ers \<longleftrightarrow> list_all2 (\<lambda>now (e, r). e_clk_hosted e = (\<lambda>_. now) \<and>
     (\<exists>qs. m_Question r = \<lparr>q_Name = n, q_Qtype = q\<rparr> # qs)) nows ers"

definition answers_with :: "Msg \<Rightarrow> string \<Rightarrow> 16 word \<Rightarrow> rr \<Rightarrow> wire list \<Rightarrow> bool" where
  "answers_with r n q rec out \<longleftrightarrow> (\<exists>hdr. out = [(hdr, [rec])] \<and> m_Id hdr = m_Id r \<and>
     m_Question hdr = [\<lparr>q_Name = n, q_Qtype = q\<rparr>] \<and> m_Rcode hdr = 0)"

lemma miss_empty: "rc_cache rc = fmempty \<Longrightarrow> RecordCache_Get oob clk rc n q st = ((zero_Response, False), rc, st)"
  by (simp add: RecordCache_Get_def)

lemma HandleDNS_begins:
  assumes "dns_contract lib" and "m_Question r = \<lparr>q_Name = n, q_Qtype = q\<rparr> # qs" and "1 \<le> ms_sem s"
  obtains w1 where "HandleDNS lib cfg srt e s w r = HandleDNS_serve lib cfg srt e (s\<lparr>ms_sem := ms_sem s - 1\<rparr>) w1 n r"
    "w_store w1 = w_store w" "mt_RecursiveQueries (w_mt w1) = mt_RecursiveQueries (w_mt w)"
proof -
  have "m_Question (lib_SetReply lib zero_Msg r) = [\<lparr>q_Name = n, q_Qtype = q\<rparr>]"
    using assms(1,2) by (simp add: dns_contract_def)
  with assms(3) show thesis
    by (intro that [of "w\<lparr>w_mt := (w_mt w)\<lparr>mt_TotalDnsQueries := mt_TotalDnsQueries (w_mt w) + 1,
        mt_QueuedQueries := mt_QueuedQueries (w_mt w) + 1\<rparr>\<rparr>"]) (simp_all add: HandleDNS_def HandleDNS_accept_def sem_Acquire_def Let_def)
qed

lemma hosted_answer:
  assumes "dns_contract lib" and "copies_apart lib" and "m_Question r = \<lparr>q_Name = n, q_Qtype = q\<rparr> # qs"
    and "rc_cache (ms_Cache s) = fmempty" and "1 \<le> ms_sem s"
    and "fmlookup (rc_cache (ms_HostedCache s)) (cache_key n q) = Some resp" and "resp_Qtype resp = q"
    and "m_Answer (resp_Entry resp) = [p]" and "m_Rcode (resp_Entry resp) = 0"
    and "e_clk_hosted e = (\<lambda>_. now)" and "served_for resp (w_store w) (now # nows)"
  shows "\<exists>out w'. HandleDNS lib cfg srt e s w r = Ok (out, s, w') \<and> answers_with r n q (w_store w' p) out \<and>
    worn resp (w_store w) [now] (w_store w') \<and> served_for resp (w_store w') nows \<and>
    rr_Data (w_store w' p) = rr_Data (w_store w p) \<and> mt_RecursiveQueries (w_mt w') = mt_RecursiveQueries (w_mt w)"
proof -
  obtain w1 where w1: "HandleDNS lib cfg srt e s w r = HandleDNS_serve lib cfg srt e (s\<lparr>ms_sem := ms_sem s - 1\<rparr>) w1 n r"
      "w_store w1 = w_store w" "mt_RecursiveQueries (w_mt w1) = mt_RecursiveQueries (w_mt w)"
    by (rule HandleDNS_begins [OF assms(1,3,5)])
  have d: "distinct (m_Answer (resp_Entry resp))" by (simp add: assms(8))
  obtain st where hit: "RecordCache_Get (e_oob e) (\<lambda>_. now) (ms_HostedCache s) n q (w_store w)
        = ((resp, True), ms_HostedCache s, st)" and st: "worn resp (w_store w) [now] st"
    by (rule Get_served [OF assms(6,7) d assms(11)])
  let ?s1 = "s\<lparr>ms_sem := ms_sem s - 1\<rparr>"
  let ?w2 = "(dequeued w1)\<lparr>w_store := st, w_mt := (w_mt (dequeued w1))\<lparr>mt_HostedCacheHits := mt_HostedCacheHits (w_mt w1) + 1\<rparr>\<rparr>"
  have "RetrieveRecords lib cfg srt e ?s1 (dequeued w1) n (q_Qtype \<lparr>q_Name = n, q_Qtype = q\<rparr>) = Ok ((resp, ''cache'', None),
      ?s1\<lparr>ms_Cache := ms_Cache s, ms_HostedCache := ms_HostedCache s\<rparr>, ?w2)"
    using hit assms(10) w1(2) by (simp add: RetrieveRecords_def dequeued_def miss_empty [OF assms(4)])
  from serve_found [OF assms(1,3) this] obtain hdr w3 where serve:
    "HandleDNS_serve lib cfg srt e ?s1 w1 n r = Ok ([(hdr, [st p])],
       sem_Release (?s1\<lparr>ms_Cache := ms_Cache s, ms_HostedCache := ms_HostedCache s\<rparr>), w3)"
    "m_Id hdr = m_Id r" "m_Rcode hdr = 0" "m_Question hdr = [\<lparr>q_Name = n, q_Qtype = q\<rparr>]"
    "mt_RecursiveQueries (w_mt w3) = mt_RecursiveQueries (w_mt w1)"
    "w_store w3 = snd (lib_Copy lib (resp_Entry resp) st)"
    by (auto simp: assms(8,9) dequeued_def)
  have same: "sem_Release (?s1\<lparr>ms_Cache := ms_Cache s, ms_HostedCache := ms_HostedCache s\<rparr>) = s"
    by (simp add: sem_Release_def)
  have p: "w_store w3 p = st p" using assms(2,8) by (simp add: serve(6) copies_apart_def)
  then have w3: "worn resp (w_store w) [now] (w_store w3)" using st by (simp add: worn_def assms(8))
  then have "served_for resp (w_store w3) nows" by (rule served_for_Cons(3) [OF assms(11)])
  with w3 p serve same w1 Get_keeps [OF hit, of p] show ?thesis
    by (intro exI [of _ "[(hdr, [st p])]"] exI [of _ w3]) (simp add: answers_with_def)
qed

text \<open>The record on the wire is the zone's, with the TTL that the lookups so far have left.\<close>

definition zone_answer :: "rr_store \<Rightarrow> rrptr \<Rightarrow> Response \<Rightarrow> string \<Rightarrow> 16 word \<Rightarrow> time list \<Rightarrow> Msg \<Rightarrow> wire list \<Rightarrow> bool" where
  "zone_answer st p resp n q nows r out \<longleftrightarrow> (\<exists>st'. worn resp st nows st' \<and> rr_Data (st' p) = rr_Data (st p) \<and>
     answers_with r n q (st' p) out)"

lemma hosted_answers:
  assumes "dns_contract lib" and "copies_apart lib"
    and "rc_cache (ms_Cache s) = fmempty" and "1 \<le> ms_sem s"
    and "fmlookup (rc_cache (ms_HostedCache s)) (cache_key n q) = Some resp" and "resp_Qtype resp = q"
    and "m_Answer (resp_Entry resp) = [p]" and "m_Rcode (resp_Entry resp) = 0"
    and "all_ask n q nows ers" and "served_for resp (w_store w) nows"
  shows "\<exists>outs w'. handle_each lib cfg srt ers s w = Ok (outs, s, w') \<and> length outs = length ers \<and>
    (\<forall>i<length ers. zone_answer (w_store w) p resp n q (take (Suc i) nows) (snd (ers ! i)) (outs ! i)) \<and>
    worn resp (w_store w) nows (w_store w') \<and> mt_RecursiveQueries (w_mt w') = mt_RecursiveQueries (w_mt w)"
  using assms(9,10)
proof (induction nows arbitrary: ers w)
  case Nil
  then show ?case by (simp add: all_ask_def)
next
  case (Cons now nows)
  then obtain e r qs ers' where ers: "ers = (e, r) # ers'" "e_clk_hosted e = (\<lambda>_. now)"
      "m_Question r = \<lparr>q_Name = n, q_Qtype = q\<rparr> # qs" "all_ask n q nows ers'"
    by (auto simp: all_ask_def list_all2_Cons1)
  obtain out w1 where 1: "HandleDNS lib cfg srt e s w r = Ok (out, s, w1)" "answers_with r n q (w_store w1 p) out"
      "worn resp (w_store w) [now] (w_store w1)" "served_for resp (w_store w1) nows"
      "rr_Data (w_store w1 p) = rr_Data (w_store w p)" "mt_RecursiveQueries (w_mt w1) = mt_RecursiveQueries (w_mt w)"
    using hosted_answer [OF assms(1,2) ers(3) assms(3-8) ers(2) Cons.prems(2)] by blast
  obtain outs w2 where 2: "handle_each lib cfg srt ers' s w1 = Ok (outs, s, w2)" "length outs = length ers'"
      "\<And>i. i < length ers' \<Longrightarrow> zone_answer (w_store w1) p resp n q (take (Suc i) nows) (snd (ers' ! i)) (outs ! i)"
      "worn resp (w_store w1) nows (w_store w2)" "mt_RecursiveQueries (w_mt w2) = mt_RecursiveQueries (w_mt w1)"
    using Cons.IH [OF ers(4) 1(4)] by blast
  have "zone_answer (w_store w) p resp n q (take (Suc i) (now # nows)) (snd (ers ! i)) ((out # outs) ! i)"
    if "i < length ers" for i
  proof (cases i)
    case 0
    with 1(2,3,5) show ?thesis by (auto simp: zone_answer_def ers(1))
  next
    case (Suc j)
    with 2(3) [of j] that obtain st' where "worn resp (w_store w1) (take (Suc j) nows) st'"
        "rr_Data (st' p) = rr_Data (w_store w1 p)" "answers_with (snd (ers' ! j)) n q (st' p) (outs ! j)"
      by (auto simp: zone_answer_def ers(1))
    with worn_Cons [OF 1(3)] Suc 1(5) show ?thesis
      unfolding zone_answer_def by (intro exI [of _ st']) (simp add: ers(1))
  qed
  with 1(1,6) 2 worn_Cons [OF 1(3) 2(4)] show ?case by (simp add: ers(1))
qed

text \<open>A server that has just loaded its zones, before its first request.\<close>

lemma loaded_answers:
  assumes "NewMutexServer cfg gomaxprocs None = Inr s0" and "hosts parse files cfg st n q p"
    and "dns_contract lib" and "copies_apart lib" and "1 \<le> permits cfg gomaxprocs"
    and "all_ask n q nows ers" and "served_for (zone_response born st p) st nows" and "w_store w = st"
  obtains s outs w' where "loadLocalZones cfg parse files (\<lambda>_ _. born) st s0 = Some s"
    "handle_each lib cfg srt ers s w = Ok (outs, s, w')" "length outs = length ers"
    "\<forall>i<length ers. zone_answer st p (zone_response born st p) n q (take (Suc i) nows) (snd (ers ! i)) (outs ! i)"
    "worn (zone_response born st p) st nows (w_store w')" "mt_RecursiveQueries (w_mt w') = mt_RecursiveQueries (w_mt w)"
    "fmlookup (rc_cache (ms_HostedCache s)) (cache_key n q) = Some (zone_response born st p)"
    "rc_cache (ms_Cache s) = fmempty" "1 \<le> ms_sem s" "rc_TrashMan (ms_HostedCache s) = None"
    "resp_Qtype (zone_response born st p) = q"
proof -
  let ?resp = "zone_response born st p"
  obtain s where s: "loadLocalZones cfg parse files (\<lambda>_ _. born) st s0 = Some s"
      "fmlookup (rc_cache (ms_HostedCache s)) (cache_key n q) = Some ?resp" "ms_Cache s = ms_Cache s0"
      "ms_sem s = ms_sem s0" "rc_TrashMan (ms_HostedCache s) = None" "rr_Rrtype (st p) = q"
    by (rule hosted_loaded [OF assms(1,2)])
  have s0: "rc_cache (ms_Cache s) = fmempty" "1 \<le> ms_sem s"
    using assms(1,5) s(3,4)
    by (auto simp: NewMutexServer_def permits_def StartCleaningCrew_def NewCache_def Let_def)
  have own: "resp_Qtype ?resp = q" "m_Answer (resp_Entry ?resp) = [p]" "m_Rcode (resp_Entry ?resp) = 0"
    using s(6) by (simp_all add: zone_response_def zero_Msg_def)
  have served: "served_for ?resp (w_store w) nows" using assms(7,8) by simp
  obtain outs w' where "handle_each lib cfg srt ers s w = Ok (outs, s, w')" "length outs = length ers"
      "\<forall>i<length ers. zone_answer st p ?resp n q (take (Suc i) nows) (snd (ers ! i)) (outs ! i)"
      "worn ?resp st nows (w_store w')" "mt_RecursiveQueries (w_mt w') = mt_RecursiveQueries (w_mt w)"
    using hosted_answers [where cfg = cfg and srt = srt, OF assms(3,4) s0 s(2) own assms(6) served]
    unfolding assms(8) by blast
  from that [OF s(1) this s(2) s0 s(5) own(1)] show thesis .
qed


end
