(* ===== verification/MutexCrashes.thy ===== *)
theory MutexCrashes
  imports MutexSystem CrewRuns HostedAnswers
begin

text \<open>
  What brings the process down. A panic in any goroutine ends it, so the system of \<open>MutexSystem\<close> is
  extended by a state in which it is down, and by one rule for each place where the code can panic.
  With upstreams, retries that are not negative, a positive cleaning interval and no zone files none of
  them is ever reached; with a zone file a client can reach one.
\<close>

section \<open>Panics\<close>

text \<open>The points at which the goroutine of a request panics, with what the code does there.\<close>

inductive go_panics ::
  "dns_lib \<Rightarrow> Configuration \<Rightarrow> sort_fun \<Rightarrow> string \<Rightarrow> Msg \<Rightarrow> gostate \<Rightarrow> panic_reason \<Rightarrow> bool"
  for lib cfg srt domain r where
  gp_question: "m_Question r = [] \<Longrightarrow> go_panics lib cfg srt domain r (AtCache, s, w) IndexOutOfRange"
| gp_get: "\<lbrakk>int i \<le> cfg_UpstreamRetries cfg; connPool_Get clk (ms_connPool s) = Panic reason\<rbrakk> \<Longrightarrow>
     go_panics lib cfg srt domain r (AtGet i, s, w) reason"
| gp_no_attempt: "cfg_UpstreamRetries cfg < 0 \<Longrightarrow> go_panics lib cfg srt domain r (AtGet 0, s, w) NilDereference"
| gp_exchange: "\<lbrakk>m_Question r = q # qs;
     attemptExchange cfg xchg (query_msg lib domain (q_Qtype q)) ce w = Panic reason\<rbrakk> \<Longrightarrow>
     go_panics lib cfg srt domain r (AtExchange i ce, s, w) reason"
| gp_close: "connPool_CloseConnection cfg srt now (ms_connPool s) ce = Panic reason \<Longrightarrow>
     go_panics lib cfg srt domain r (AtClose i ce, s, w) reason"

datatype life = Up msys | Down panic_reason

text \<open>
  \<open>listens\<close> says which requests the listener of the DNS library hands to the server. The cleaning crew of
  the lookup cache may panic, as its steps say; the eviction goroutines of the hosted cache have no
  trashman to talk to.
\<close>

inductive live_step ::
  "dns_lib \<Rightarrow> Configuration \<Rightarrow> sort_fun \<Rightarrow> (Msg \<Rightarrow> bool) \<Rightarrow> life \<Rightarrow> life \<Rightarrow> bool"
  for lib cfg srt listens where
  lv_step: "sys_step lib cfg srt y y' \<Longrightarrow> live_step lib cfg srt listens (Up y) (Up y')"
| lv_accept: "\<lbrakk>listens r; HandleDNS_accept lib (y_srv y) (y_world y) r = Panic reason\<rbrakk> \<Longrightarrow>
     live_step lib cfg srt listens (Up y) (Down reason)"
| lv_go: "\<lbrakk>(pt, domain, r) \<in># y_go y; go_panics lib cfg srt domain r (pt, y_srv y, y_world y) reason\<rbrakk> \<Longrightarrow>
     live_step lib cfg srt listens (Up y) (Down reason)"
| lv_crew: "\<lbrakk>crew_step oob (as_crew (y_srv y) (y_world y)) cs; c_panic cs = Some reason\<rbrakk> \<Longrightarrow>
     live_step lib cfg srt listens (Up y) (Down reason)"
| lv_hosted: "\<lbrakk>rc_evicting (ms_HostedCache (y_srv y)) = xs @ r # ys; rc_TrashMan (ms_HostedCache (y_srv y)) = None\<rbrakk> \<Longrightarrow>
     live_step lib cfg srt listens (Up y) (Down NilDereference)"
| lv_reap: "\<lbrakk>cp_closing (ms_connPool (y_srv y)) = xs @ ce # ys;
     connPool_CloseConnection cfg srt now ((ms_connPool (y_srv y))\<lparr>cp_closing := xs @ ys\<rparr>) ce = Panic reason\<rbrakk> \<Longrightarrow>
     live_step lib cfg srt listens (Up y) (Down reason)"

inductive_cases Down_stepE: "live_step lib cfg srt listens (Down reason) l"
inductive_simps live_step_Up: "live_step lib cfg srt listens (Up y) (Up y')"

section \<open>Safety\<close>

text \<open>What keeps every goroutine away from its panics.\<close>

definition crash_free :: "msys \<Rightarrow> bool" where
  "crash_free y \<longleftrightarrow> cp_upstreams (ms_connPool (y_srv y)) \<noteq> [] \<and>
     crew_safe (ms_Cache (y_srv y)) \<and>
     rc_cache (ms_HostedCache (y_srv y)) = fmempty \<and> rc_evicting (ms_HostedCache (y_srv y)) = [] \<and>
     (\<forall>(pt, domain, r)\<in>#y_go y. m_Question r \<noteq> [])"

lemma accept_question:
  assumes "dns_contract lib"
  shows "HandleDNS_accept lib s w r = Panic reason \<longleftrightarrow> m_Question r = [] \<and> reason = IndexOutOfRange"
    and "HandleDNS_accept lib s w r = Ok (domain, w1) \<Longrightarrow> m_Question r \<noteq> []"
proof -
  have "m_Question (lib_SetReply lib zero_Msg r) = (case m_Question r of [] \<Rightarrow> [] | q # _ \<Rightarrow> [q])"
    using assms by (auto simp: dns_contract_def zero_Msg_def split: list.split)
  then show "HandleDNS_accept lib s w r = Panic reason \<longleftrightarrow> m_Question r = [] \<and> reason = IndexOutOfRange"
    and "HandleDNS_accept lib s w r = Ok (domain, w1) \<Longrightarrow> m_Question r \<noteq> []"
    by (auto simp: HandleDNS_accept_def Let_def split: list.splits)
qed

lemma getBest_not_Panic: "cp_upstreams c \<noteq> [] \<Longrightarrow> \<exists>u. getBestUpstream clk c = Ok u"
  by (auto simp: getBestUpstream_def split: sum.splits list.splits)

lemma Get_not_Panic:
  assumes "cp_upstreams c \<noteq> []"
  shows "\<exists>res. connPool_Get clk c = Ok res"
proof -
  obtain u where "getBestUpstream clk c = Ok u" using getBest_not_Panic [OF assms] by blast
  then show ?thesis
    by (cases "fmlookup (cp_cache c) (Upstream_GetAddress u)") (auto simp: connPool_Get_def Let_def split: list.splits)
qed

lemma Close_Panic:
  "connPool_CloseConnection cfg srt now c ce = Panic reason \<longleftrightarrow> ce_Conn ce = None \<and> reason = NilDereference"
  by (auto simp: connPool_CloseConnection_def connEntry_Close_def split: option.splits)

lemma empty_Get:
  "rc_cache rc = fmempty \<Longrightarrow> RecordCache_Get_shared oob clk oth rc n q st = ((zero_Response, False), rc, st)"
  by (simp add: RecordCache_Get_shared_def)

text \<open>No step forgets the upstreams, hosts anything, or takes the crew from the lookup cache.\<close>

lemma newConnection_upstreams:
  assumes "newConnection cfg call s u = (res, s')"
  shows "cp_upstreams (ms_connPool s') = cp_upstreams (ms_connPool s)"
  using assms
  by (auto simp: newConnection_def connPool_NewConnection_def Let_def split: sum.splits option.splits prod.splits)

lemma go_step_crash_free:
  assumes "go_step lib cfg srt domain r (pt, s, w) out new (pt', s', w')" and "sort_contract srt"
    and "cp_upstreams (ms_connPool s) \<noteq> []" and "crew_safe (ms_Cache s)"
    and "rc_cache (ms_HostedCache s) = fmempty" and "rc_evicting (ms_HostedCache s) = []"
  shows "cp_upstreams (ms_connPool s') \<noteq> [] \<and> crew_safe (ms_Cache s') \<and>
    rc_cache (ms_HostedCache s') = fmempty \<and> rc_evicting (ms_HostedCache s') = []"
  using assms(1)
proof cases
  case (g_pooled i clk ce c)
  from g_pooled(8) have "cp_upstreams c = cp_upstreams (ms_connPool s)" by (cases rule: Get_owned) auto
  with g_pooled assms(3-) show ?thesis by simp
next
  case (g_must_dial i clk ce u c)
  from g_must_dial(8) have "cp_upstreams c = cp_upstreams (ms_connPool s)" by (cases rule: Get_owned) auto
  with g_must_dial assms(3-) show ?thesis by simp
next
  case (g_cache_hit q qs oob clk oth resp rc st)
  then show ?thesis
    using shared_fields(2,3) [of oob clk oth "ms_Cache s" domain "q_Qtype q" "w_store w"] assms(3-)
    by (simp add: crew_safe_def)
next
  case (g_cache_miss q qs oob clk oth resp rc st)
  then show ?thesis
    using shared_fields(2,3) [of oob clk oth "ms_Cache s" domain "q_Qtype q" "w_store w"] assms(3-)
    by (simp add: crew_safe_def)
next
  case (g_close now ce c i)
  then show ?thesis using Close_upstreams [OF assms(2) g_close(7)] assms(3-) by auto
next
  case (g_add q qs now ce err c reply born)
  then show ?thesis using Add_upstreams [OF assms(2) g_add(8)] assms(3-) by auto
qed (use assms(3-) in \<open>auto simp: crew_safe_def sem_Acquire_def sem_Release_def empty_Get newConnection_frame
    newConnection_upstreams split: if_splits\<close>)

lemma sys_step_crash_free:
  assumes "sys_step lib cfg srt y y'" and "sort_contract srt" and "dns_contract lib" and "crash_free y"
  shows "crash_free y'"
  using assms(1)
proof cases
  case (sy_arrive r domain w1)
  with accept_question(2) [OF assms(3) sy_arrive(2)] assms(4) show ?thesis by (simp add: crash_free_def)
next
  case (sy_go pt domain r others out new pt' s' w')
  with go_step_crash_free [OF sy_go(3) assms(2)] assms(4) show ?thesis by (simp add: crash_free_def)
next
  case (sy_reap i c)
  from sy_reap(2) have "set (cp_upstreams c) = set (cp_upstreams (ms_connPool (y_srv y)))"
    by cases (use Close_upstreams [OF assms(2)] in fastforce)
  with sy_reap(1) assms(4) show ?thesis by (auto simp: crash_free_def)
next
  case (sy_crew oob cs)
  with crew_step_safe [OF sy_crew(2)] assms(4) show ?thesis by (simp add: crash_free_def as_crew_def)
qed

lemma held_conn:
  assumes "sys_inv pm y" and "(pt, domain, r) \<in># y_go y" and "ce_Conn ce \<in># held_at pt"
  shows "ce_Conn ce \<noteq> None"
proof -
  have "ce_Conn ce \<in># (\<Sum>g\<in>#y_go y. held_at (fst g))"
    using assms(2,3) by (auto intro!: bexI [of _ "(pt, domain, r)"])
  then have "ce_Conn ce \<in># mset (map Some (y_dialled y))"
    using assms(1) unfolding sys_inv_def by (metis union_iff)
  then show ?thesis by auto
qed

lemma closing_conn:
  assumes "sys_inv pm y" and "ce \<in> set (cp_closing (ms_connPool (y_srv y)))"
  shows "ce_Conn ce \<noteq> None"
proof -
  have "ce_Conn ce \<in># total_ids (ms_connPool (y_srv y))"
    using assms(2) by (simp add: total_ids_def inside_ids_def owned_def)
  then have "ce_Conn ce \<in># mset (map Some (y_dialled y))"
    using assms(1) unfolding sys_inv_def by (metis union_iff)
  then show ?thesis by auto
qed

lemma no_go_panic:
  assumes "go_panics lib cfg srt domain r (pt, y_srv y, y_world y) reason" and "(pt, domain, r) \<in># y_go y"
    and "crash_free y" and "sys_inv pm y" and "0 \<le> cfg_UpstreamRetries cfg"
  shows False
  using assms(1)
proof cases
  case gp_question
  with assms(2,3) show False by (auto simp: crash_free_def)
next
  case (gp_get i clk)
  with Get_not_Panic [of "ms_connPool (y_srv y)" clk] assms(3) show False by (auto simp: crash_free_def)
next
  case gp_no_attempt
  with assms(5) show False by simp
next
  case (gp_exchange q qs xchg ce i)
  have "ce_Conn ce \<noteq> None" using held_conn [OF assms(4,2), of ce] gp_exchange(1) by simp
  then show False
    using gp_exchange(3) by (auto simp: attemptExchange_def GetConn_def Let_def split: option.splits prod.splits)
next
  case (gp_close now ce i)
  have "ce_Conn ce \<noteq> None" using held_conn [OF assms(4,2), of ce] gp_close(1) by simp
  with gp_close(2) show False by (simp add: Close_Panic)
qed

lemma start_crash_free:
  assumes "sys_start cfg gomaxprocs y0" and "cfg_Upstreams cfg \<noteq> []" and "0 < nanos (cleaning_interval cfg)"
  shows "crash_free y0"
  using assms(1)
proof cases
  case (1 s st)
  have "map (cp_store (ms_connPool s)) (cp_upstreams (ms_connPool s))
      = map (\<lambda>name. zero_Upstream\<lparr>up_Name := name\<rparr>) (cfg_Upstreams cfg)"
    using NewMutexServer_state [OF 1(2)] by simp
  then have "cp_upstreams (ms_connPool s) \<noteq> []" using assms(2) by auto
  with NewMutexServer_state [OF 1(2)] crew_start_safe [OF assms(3)] show ?thesis
    using 1(2) by (auto simp: 1(1) crash_free_def NewMutexServer_def Let_def) (simp_all add: NewCache_def)
qed

text \<open>
  A server without zone files never goes down: if it has upstreams with names, a number of retries that
  is not negative, a positive cleaning interval, and the listener only hands it requests with a
  question, then no goroutine of any request, of the cleaning crew, or of the pool ever panics, in no
  interleaving.
\<close>

lemma server_never_crashes:
  assumes "sys_start cfg gomaxprocs y0" and "(live_step lib cfg srt listens)\<^sup>*\<^sup>* (Up y0) l"
    and "cfg_Upstreams cfg \<noteq> []" and "[] \<notin> set (cfg_Upstreams cfg)" and "0 \<le> cfg_UpstreamRetries cfg"
    and "0 < nanos (cleaning_interval cfg)"
    and "sort_contract srt" and "dns_contract lib" and "\<And>r. listens r \<Longrightarrow> m_Question r \<noteq> []"
  shows "\<exists>y. l = Up y \<and> (sys_step lib cfg srt)\<^sup>*\<^sup>* y0 y"
proof -
  let ?P = "permits cfg gomaxprocs"
  have start: "crash_free y0" by (rule start_crash_free [OF assms(1,3,6)])
  have "\<exists>y. l = Up y \<and> (sys_step lib cfg srt)\<^sup>*\<^sup>* y0 y \<and> sys_inv ?P y \<and> crash_free y"
    using assms(2)
  proof (induction rule: rtranclp_induct)
    case base
    show ?case using start sys_start_inv [OF assms(1,4)] by blast
  next
    case (step l1 l2)
    then obtain y where y: "l1 = Up y" "(sys_step lib cfg srt)\<^sup>*\<^sup>* y0 y" "sys_inv ?P y" "crash_free y" by blast
    from step(2) show ?case
      unfolding y(1)
    proof cases
      case (lv_step y')
      then show ?thesis
        using y sys_step_inv [OF assms(7) lv_step(2)] sys_step_crash_free [OF lv_step(2) assms(7,8)]
        by (intro exI [of _ y']) (simp add: rtranclp.rtrancl_into_rtrancl)
    next
      case (lv_accept r reason)
      with accept_question(1) [OF assms(8)] assms(9) show ?thesis by blast
    next
      case (lv_go pt domain r reason)
      with no_go_panic [OF lv_go(3,2) y(4,3) assms(5)] show ?thesis by blast
    next
      case (lv_crew oob cs reason)
      with crew_step_safe [OF lv_crew(2)] y(4) show ?thesis by (simp add: crash_free_def as_crew_def)
    next
      case (lv_hosted xs r ys)
      with y(4) show ?thesis by (simp add: crash_free_def)
    next
      case (lv_reap xs ce ys now reason)
      with closing_conn [OF y(3), of ce] show ?thesis by (simp add: Close_Panic)
    qed
  qed
  then show ?thesis by blast
qed

section \<open>Zone files\<close>

text \<open>A request that misses both caches leaves the hosted cache as the lookup left it.\<close>

lemma serve_hosted_miss:
  assumes "HandleDNS_serve lib cfg srt e s w n r = Ok (out, s', w')" and "m_Question r = \<lparr>q_Name = n, q_Qtype = q\<rparr> # qs"
    and "rc_cache (ms_Cache s) = fmempty"
    and "RecordCache_Get (e_oob e) (e_clk_hosted e) (ms_HostedCache s) n q (w_store w) = ((zero_Response, False), rc, st)"
  shows "ms_HostedCache s' = rc"
proof -
  obtain resp source err s1 w1 where
    rr: "RetrieveRecords lib cfg srt e s (dequeued w) n q = Ok ((resp, source, err), s1, w1)"
    using assms(1,2) by (auto simp: HandleDNS_serve_def Let_def dequeued_def)
  have "ms_HostedCache s1 = rc"
    using rr
  proof (cases rule: RetrieveRecords_cases)
    case (cached rc1 st1)
    then show ?thesis by (simp add: miss_empty [OF assms(3)])
  next
    case (hosted r1 rc1 st1 rc2 st2)
    then show ?thesis using assms(4) by (simp add: miss_empty [OF assms(3)] dequeued_def)
  next
    case (asked r1 rc1 st1 r2 rc2 st2 err1 address s3)
    then have "rc2 = rc" using assms(4) by (simp add: miss_empty [OF assms(3)] dequeued_def)
    moreover have "0 \<le> cfg_UpstreamRetries cfg"
      using asked(3) negative_retries_panic [of cfg] by (metis linorder_not_less outcome.distinct(1))
    ultimately show ?thesis
      using RecursiveQuery_bystanders [OF asked(3)] asked(6) by (auto simp: bystanders_def split: option.splits)
  qed
  with assms(1,2) rr show ?thesis
    by (auto simp: HandleDNS_serve_def Let_def sem_Release_def sendServfail_def simp flip: dequeued_def
        split: option.splits prod.splits)
qed

text \<open>
  C9. A zone file is enough to bring the server down. After any number of queries for a hosted record that
  were answered, a query for it at a time when its age is more than half of what they have left of its
  TTL is not answered from the zone: if the code that handles it does not panic itself, it leaves an
  eviction goroutine of the hosted cache behind, and the next step of that goroutine, which calls a
  method of the trashman that the hosted cache does not have, ends the process.
\<close>

theorem hosted_record_crashes_server:
  assumes "NewMutexServer cfg gomaxprocs None = Inr s0" and "hosts parse files cfg st n q p"
    and "dns_contract lib" and "copies_apart lib" and "1 \<le> permits cfg gomaxprocs"
    and "all_ask n q nows ers" and "served_for (zone_response born st p) st nows" and "w_store w = st"
    and "all_ask n q [now] [(e, r)]" and "born \<le> now"
    and "(uint (rr_Ttl (st p)) - (\<Sum>now\<leftarrow>nows. seconds_old (zone_response born st p) now) + int (length nows) + 1)
      * 1000000000 < 2 * (now - born)"
  shows "\<exists>s outs w'. loadLocalZones cfg parse files (\<lambda>_ _. born) st s0 = Some s \<and>
    handle_each lib cfg srt ers s w = Ok (outs, s, w') \<and> length outs = length ers \<and>
    (case HandleDNS lib cfg srt e s w' r of
       Panic reason \<Rightarrow> True
     | Ok (out, s', w'') \<Rightarrow> zone_response born st p \<in> set (rc_evicting (ms_HostedCache s')) \<and>
         (\<forall>y listens. y_srv y = s' \<longrightarrow> live_step lib cfg srt listens (Up y) (Down NilDereference)))"
proof -
  let ?resp = "zone_response born st p"
  obtain s outs w' where s: "loadLocalZones cfg parse files (\<lambda>_ _. born) st s0 = Some s"
    "handle_each lib cfg srt ers s w = Ok (outs, s, w')" "length outs = length ers"
    "worn ?resp st nows (w_store w')"
    "fmlookup (rc_cache (ms_HostedCache s)) (cache_key n q) = Some ?resp"
    "rc_cache (ms_Cache s) = fmempty" "1 \<le> ms_sem s" "rc_TrashMan (ms_HostedCache s) = None" "resp_Qtype ?resp = q"
    by (rule loaded_answers [OF assms(1-8)])
  obtain qs where r: "e_clk_hosted e = (\<lambda>_. now)" "m_Question r = \<lparr>q_Name = n, q_Qtype = q\<rparr> # qs"
    using assms(9) by (auto simp: all_ask_def)
  obtain w1 where w1: "HandleDNS lib cfg srt e s w' r = HandleDNS_serve lib cfg srt e (s\<lparr>ms_sem := ms_sem s - 1\<rparr>) w1 n r"
    "w_store w1 = w_store w'"
    by (rule HandleDNS_begins [OF assms(3) r(2) s(7)])
  have own: "p \<in> set (m_Answer (resp_Entry ?resp))" "resp_CreationTime ?resp = born"
    by (simp_all add: zone_response_def)
  obtain st'' where get: "RecordCache_Get (e_oob e) (\<lambda>_. now) (ms_HostedCache s) n q (w_store w')
      = ((zero_Response, False), RecordCache_Evict (ms_HostedCache s) ?resp, st'')"
    by (rule Get_worn_out [OF s(5,9,4) own(1)]) (use assms(10,11) own(2) in auto)
  have "zone_response born st p \<in> set (rc_evicting (ms_HostedCache s')) \<and> rc_TrashMan (ms_HostedCache s') = None"
    if "HandleDNS lib cfg srt e s w' r = Ok (out, s', w'')" for out s' w''
    using serve_hosted_miss [OF that [unfolded w1(1)] r(2)] get s(6,8) by (simp add: r(1) w1(2))
  moreover have "live_step lib cfg srt listens (Up y) (Down NilDereference)"
    if "?resp \<in> set (rc_evicting (ms_HostedCache (y_srv y)))" "rc_TrashMan (ms_HostedCache (y_srv y)) = None" for y listens
    using that by (auto dest!: split_list intro: live_step.lv_hosted)
  ultimately show ?thesis using s(1-3) by (intro exI conjI) (auto split: outcome.split prod.split)
qed

end
