(* ===== verification/MutexProgress.thy ===== *)
theory MutexProgress
  imports MutexCrashes
begin

text \<open>
  Requests come to an end: each takes a bounded number of steps, and as long as one is unfinished some
  goroutine can take a step, whatever the others, the cleaning crew and the pool have done.
\<close>

section \<open>Steps left\<close>

definition attempts :: "Configuration \<Rightarrow> nat" where
  "attempts cfg = nat (cfg_UpstreamRetries cfg + 1)"

text \<open>The most steps a goroutine can still take from a point; an attempt is four of them.\<close>

fun steps_left :: "nat \<Rightarrow> point \<Rightarrow> nat" where
  "steps_left K Waiting = 4 * K + 6"
| "steps_left K Started = 4 * K + 5"
| "steps_left K AtCache = 4 * K + 4"
| "steps_left K AtHosted = 4 * K + 3"
| "steps_left K (AtGet i) = 4 * (K - i) + 2"
| "steps_left K (AtDial i u) = 4 * (K - i) + 1"
| "steps_left K (AtExchange i ce) = 4 * (K - i)"
| "steps_left K (AtClose i ce) = 4 * (K - i) - 1"
| "steps_left K (AtAdd ce reply) = 3"
| "steps_left K (AtStore resp source) = 2"
| "steps_left K (AtReply resp source) = 1"
| "steps_left K AtServfail = 1"
| "steps_left K Gone = 0"

text \<open>An attempt is only made within the retries.\<close>

fun inside_retries :: "nat \<Rightarrow> point \<Rightarrow> bool" where
  "inside_retries K (AtDial i u) = (i < K)"
| "inside_retries K (AtExchange i ce) = (i < K)"
| "inside_retries K (AtClose i ce) = (i < K)"
| "inside_retries K pt = True"

lemma attempts_iff: "int i \<le> cfg_UpstreamRetries cfg \<longleftrightarrow> i < attempts cfg"
  by (auto simp: attempts_def)

lemma go_step_inside:
  assumes "go_step lib cfg srt domain r (pt, s, w) out new (pt', s', w')" and "inside_retries (attempts cfg) pt"
  shows "inside_retries (attempts cfg) pt'" and "steps_left (attempts cfg) pt' < steps_left (attempts cfg) pt"
  using assms by (cases; auto simp: attempts_iff)+

definition work_left :: "Configuration \<Rightarrow> msys \<Rightarrow> nat" where
  "work_left cfg y = (\<Sum>g\<in>#y_go y. steps_left (attempts cfg) (fst g))"

definition all_inside :: "Configuration \<Rightarrow> msys \<Rightarrow> bool" where
  "all_inside cfg y \<longleftrightarrow> (\<forall>g\<in>#y_go y. inside_retries (attempts cfg) (fst g))"

section \<open>Runs that count the steps of requests\<close>

inductive request_step :: "dns_lib \<Rightarrow> Configuration \<Rightarrow> sort_fun \<Rightarrow> msys \<Rightarrow> msys \<Rightarrow> bool" for lib cfg srt where
  "\<lbrakk>y_go y = add_mset (pt, domain, r) others;
     go_step lib cfg srt domain r (pt, y_srv y, y_world y) out new (pt', s', w');
     set new \<inter> set (y_dialled y) = {}\<rbrakk> \<Longrightarrow>
   request_step lib cfg srt y \<lparr>y_srv = s', y_world = w', y_go = add_mset (pt', domain, r) others,
     y_out = y_out y @ map (Pair r) out, y_dialled = new @ y_dialled y\<rparr>"

lemma request_step_sys: "request_step lib cfg srt y y' \<Longrightarrow> sys_step lib cfg srt y y'"
  by (auto elim!: request_step.cases intro: sy_go)

text \<open>A run from a server without requests, with the number of steps that each goroutine of a request has taken.\<close>

inductive counted_run ::
  "dns_lib \<Rightarrow> Configuration \<Rightarrow> sort_fun \<Rightarrow> msys \<Rightarrow> msys \<Rightarrow> ((point \<times> string \<times> Msg) \<times> nat) multiset \<Rightarrow> bool"
  for lib cfg srt y0 where
  cr_start: "y_go y0 = {#} \<Longrightarrow> counted_run lib cfg srt y0 y0 {#}"
| cr_arrive: "\<lbrakk>counted_run lib cfg srt y0 y c; HandleDNS_accept lib (y_srv y) (y_world y) r = Ok (domain, w1)\<rbrakk> \<Longrightarrow>
     counted_run lib cfg srt y0 (y\<lparr>y_world := w1, y_go := add_mset (Waiting, domain, r) (y_go y)\<rparr>)
       (add_mset ((Waiting, domain, r), 0) c)"
| cr_go: "\<lbrakk>counted_run lib cfg srt y0 y (add_mset ((pt, domain, r), k) c);
     go_step lib cfg srt domain r (pt, y_srv y, y_world y) out new (pt', s', w');
     set new \<inter> set (y_dialled y) = {}\<rbrakk> \<Longrightarrow>
     counted_run lib cfg srt y0 \<lparr>y_srv = s', y_world = w', y_go = add_mset (pt', domain, r) (image_mset fst c),
       y_out = y_out y @ map (Pair r) out, y_dialled = new @ y_dialled y\<rparr> (add_mset ((pt', domain, r), Suc k) c)"
| cr_other: "\<lbrakk>counted_run lib cfg srt y0 y c; sys_step lib cfg srt y y'; y_go y' = y_go y\<rbrakk> \<Longrightarrow>
     counted_run lib cfg srt y0 y' c"

lemma request_step_work:
  assumes "request_step lib cfg srt y y'" and "all_inside cfg y"
  shows "all_inside cfg y' \<and> work_left cfg y' < work_left cfg y \<and> size (y_go y') = size (y_go y)"
  using assms(1)
proof cases
  case (1 pt domain r others out new pt' s' w')
  have "inside_retries (attempts cfg) pt" using assms(2) by (simp add: all_inside_def 1(2))
  from go_step_inside [OF 1(3) this] assms(2) 1 show ?thesis
    by (simp add: all_inside_def work_left_def)
qed

lemma sys_step_inside:
  assumes "sys_step lib cfg srt y y'" and "all_inside cfg y"
  shows "all_inside cfg y'"
  using assms(1)
proof cases
  case (sy_go pt domain r others out new pt' s' w')
  then have "request_step lib cfg srt y y'" by (auto intro: request_step.intros)
  from request_step_work [OF this assms(2)] show ?thesis by simp
qed (use assms(2) in \<open>auto simp: all_inside_def\<close>)

lemma counted_goroutines: "counted_run lib cfg srt y0 y c \<Longrightarrow> image_mset fst c = y_go y"
  by (induction rule: counted_run.induct) simp_all

text \<open>The steps of any run can be counted.\<close>

lemma runs_are_counted:
  assumes "(sys_step lib cfg srt)\<^sup>*\<^sup>* y0 y" and "y_go y0 = {#}"
  shows "\<exists>c. counted_run lib cfg srt y0 y c"
  using assms(1)
proof (induction rule: rtranclp_induct)
  case base
  show ?case using cr_start [OF assms(2)] by blast
next
  case (step y1 y2)
  then obtain c where c: "counted_run lib cfg srt y0 y1 c" by blast
  from step(2) show ?case
  proof cases
    case (sy_arrive r domain w1)
    then show ?thesis using cr_arrive [OF c] by blast
  next
    case (sy_go pt domain r others out new pt' s' w')
    have "image_mset fst c = add_mset (pt, domain, r) others" using counted_goroutines [OF c] sy_go(2) by simp
    then obtain x c' where x: "c = add_mset x c'" "fst x = (pt, domain, r)" "image_mset fst c' = others"
      by (auto dest: msed_map_invR)
    then have "c = add_mset ((pt, domain, r), snd x) c'" by (metis prod.collapse)
    with c have "counted_run lib cfg srt y0 y1 (add_mset ((pt, domain, r), snd x) c')" by simp
    from cr_go [OF this sy_go(3,4)] show ?thesis unfolding sy_go(1) x(3) by blast
  next
    case (sy_reap i c1)
    then show ?thesis using cr_other [OF c step(2)] by auto
  next
    case (sy_crew oob cs)
    then show ?thesis using cr_other [OF c step(2)] by auto
  qed
qed

lemma counted_steps:
  assumes "counted_run lib cfg srt y0 y c" and "((pt, domain, r), k) \<in># c"
  shows "inside_retries (attempts cfg) pt \<and> k + steps_left (attempts cfg) pt \<le> 4 * attempts cfg + 6"
  using assms
proof (induction arbitrary: pt domain r k rule: counted_run.induct)
  case (cr_go y pt0 domain0 r0 k0 c out new pt1 s' w')
  have old: "inside_retries (attempts cfg) pt0 \<and> k0 + steps_left (attempts cfg) pt0 \<le> 4 * attempts cfg + 6"
    by (rule cr_go.IH [of pt0 domain0 r0 k0]) simp
  show ?case
  proof (cases "((pt, domain, r), k) = ((pt1, domain0, r0), Suc k0)")
    case True
    with go_step_inside [OF cr_go(2)] old show ?thesis by fastforce
  next
    case False
    with cr_go.prems show ?thesis by (intro cr_go.IH) auto
  qed
qed auto

text \<open>
  C7. Every run can be counted, and in none does the goroutine of any request take more than six steps and
  four for each of its attempts, which are one more than the retries of the configuration.
\<close>

theorem requests_take_bounded_steps:
  assumes "sys_start cfg gomaxprocs y0"
  shows "((sys_step lib cfg srt)\<^sup>*\<^sup>* y0 y \<longrightarrow> (\<exists>c. counted_run lib cfg srt y0 y c)) \<and>
    (\<forall>c. counted_run lib cfg srt y0 y c \<longrightarrow> image_mset fst c = y_go y \<and>
       (\<forall>(g, k)\<in>#c. k \<le> 4 * nat (cfg_UpstreamRetries cfg + 1) + 6))"
proof -
  have "y_go y0 = {#}" using assms by cases simp
  from runs_are_counted [OF _ this] counted_goroutines [of lib cfg srt y0 y] show ?thesis
    by (fastforce dest: counted_steps simp: attempts_def)
qed

section \<open>No deadlock\<close>

text \<open>Whatever the library and the network answer, a goroutine that has its permit can take a step.\<close>

definition can_go :: "dns_lib \<Rightarrow> Configuration \<Rightarrow> sort_fun \<Rightarrow> string \<Rightarrow> Msg \<Rightarrow> gostate \<Rightarrow> bool" where
  "can_go lib cfg srt domain r c \<longleftrightarrow> (\<exists>out c'. go_step lib cfg srt domain r c out [] c')"

lemma can_goI: "go_step lib cfg srt domain r c out [] c' \<Longrightarrow> can_go lib cfg srt domain r c"
  unfolding can_go_def by blast

lemma go_step_exists:
  assumes "pt \<noteq> Waiting" and "pt \<noteq> Gone" and "m_Question r = q # qs" and "cp_upstreams (ms_connPool s) \<noteq> []"
    and "0 \<le> cfg_UpstreamRetries cfg" and "\<And>ce :: connEntry. ce_Conn ce \<in># held_at pt \<Longrightarrow> ce_Conn ce \<noteq> None"
  shows "can_go lib cfg srt domain r (pt, s, w)"
proof (cases pt)
  case Started
  then show ?thesis using can_goI [OF go_step.g_dequeue] by simp
next
  case AtCache
  obtain resp ok rc st where
    get: "RecordCache_Get_shared undefined undefined undefined (ms_Cache s) domain (q_Qtype q) (w_store w) = ((resp, ok), rc, st)"
    by (metis surj_pair)
  show ?thesis
    using can_goI [OF go_step.g_cache_hit [OF assms(3)]] can_goI [OF go_step.g_cache_miss [OF assms(3)]] get
    unfolding AtCache by (cases ok) auto
next
  case AtHosted
  obtain resp ok rc st where
    get: "RecordCache_Get_shared undefined undefined undefined (ms_HostedCache s) domain (q_Qtype q) (w_store w) = ((resp, ok), rc, st)"
    by (metis surj_pair)
  show ?thesis
    using can_goI [OF go_step.g_hosted_hit [OF assms(3)]] can_goI [OF go_step.g_hosted_miss [OF assms(3)]] get
    unfolding AtHosted by (cases ok) auto
next
  case (AtGet i)
  show ?thesis
  proof (cases "int i \<le> cfg_UpstreamRetries cfg")
    case True
    obtain ce u c where get: "connPool_Get undefined (ms_connPool s) = Ok ((ce, u), c)"
      using Get_not_Panic [OF assms(4)] by (metis surj_pair)
    show ?thesis
      using can_goI [OF go_step.g_pooled [OF True]] can_goI [OF go_step.g_must_dial [OF True get]] get
      unfolding AtGet by (cases "u = zero_Upstream") auto
  next
    case False
    then show ?thesis using can_goI [OF go_step.g_give_up] assms(5) unfolding AtGet by simp
  qed
next
  case (AtDial i u)
  let ?call = "\<lparr>cc_clk = undefined, cc_Dial = \<lambda>_. Inl (External []), cc_dialDuration = 0, cc_now = 0,
    cc_Exchange = undefined\<rparr>"
  obtain ce err s1 where n: "newConnection cfg ?call s u = ((ce, err), s1)" by (metis surj_pair)
  then obtain e where "err = Some e" by (cases rule: newConnection_cases) auto
  with n show ?thesis using can_goI [OF go_step.g_dial_failed] unfolding AtDial by blast
next
  case (AtExchange i ce)
  have "ce_Conn ce \<noteq> None" using assms(6) [of ce] AtExchange by simp
  then obtain ce1 reply err w1 where
    x: "attemptExchange cfg (\<lambda>m n st. ((m, 0, None), st)) (query_msg lib domain (q_Qtype q)) ce w = Ok ((ce1, reply, err), w1)"
    by (auto simp: attemptExchange_def GetConn_def Let_def)
  show ?thesis
    using can_goI [OF go_step.g_exchanged [OF assms(3)]] can_goI [OF go_step.g_exchange_failed [OF assms(3)]] x
    unfolding AtExchange by (cases err) auto
next
  case (AtClose i ce)
  have "ce_Conn ce \<noteq> None" using assms(6) [of ce] AtClose by simp
  then obtain c where "connPool_CloseConnection cfg srt 0 (ms_connPool s) ce = Ok c"
    by (meson Close_Panic outcome.exhaust)
  then show ?thesis using can_goI [OF go_step.g_close] unfolding AtClose by blast
next
  case (AtAdd ce reply)
  obtain err c where "connPool_Add cfg srt 0 (ms_connPool s) ce = (err, c)" by (metis surj_pair)
  then show ?thesis using can_goI [OF go_step.g_add [OF assms(3)]] unfolding AtAdd by blast
next
  case (AtStore resp source)
  then show ?thesis using can_goI [OF go_step.g_store] by simp
next
  case (AtReply resp source)
  obtain copy st where "lib_Copy lib (resp_Entry resp) (w_store w) = (copy, st)" by (metis surj_pair)
  then show ?thesis using can_goI [OF go_step.g_reply [OF _ refl]] unfolding AtReply by blast
next
  case AtServfail
  obtain out w1 where "sendServfail lib 0 r (timed w) = (out, w1)" by (metis surj_pair)
  then show ?thesis using can_goI [OF go_step.g_servfail] unfolding AtServfail by blast
qed (use assms in simp_all)

lemma new_empty_disjoint: "set [] \<inter> A = {}"
  by simp

lemma request_step_exists:
  assumes "sys_inv pm y" and "crash_free y" and "1 \<le> pm" and "0 \<le> cfg_UpstreamRetries cfg"
    and "g \<in># y_go y" and "fst g \<noteq> Gone"
  shows "\<exists>y'. request_step lib cfg srt y y'"
proof -
  have go: "\<exists>y'. request_step lib cfg srt y y'"
    if in_y: "(pt, domain, r) \<in># y_go y" and can: "can_go lib cfg srt domain r (pt, y_srv y, y_world y)" for pt domain r
  proof -
    obtain others where others: "y_go y = add_mset (pt, domain, r) others"
      using in_y by (metis insert_DiffM)
    obtain out c' where "go_step lib cfg srt domain r (pt, y_srv y, y_world y) out [] c'"
      using can unfolding can_go_def by blast
    moreover obtain pt' s' w' where "c' = (pt', s', w')" by (metis surj_pair)
    ultimately show ?thesis using request_step.intros [OF others _ new_empty_disjoint] by blast
  qed
  have question: "\<exists>q qs. m_Question r = q # qs" if "(pt, domain, r) \<in># y_go y" for pt domain r
    using assms(2) that by (cases "m_Question r") (auto simp: crash_free_def)
  show ?thesis
  proof (cases "\<exists>pt domain r. (pt, domain, r) \<in># y_go y \<and> pt \<noteq> Waiting \<and> pt \<noteq> Gone")
    case True
    then obtain pt domain r where g: "(pt, domain, r) \<in># y_go y" "pt \<noteq> Waiting" "pt \<noteq> Gone" by blast
    obtain q qs where q: "m_Question r = q # qs" using question [OF g(1)] by blast
    have "cp_upstreams (ms_connPool (y_srv y)) \<noteq> []" using assms(2) by (simp add: crash_free_def)
    from go_step_exists [OF g(2,3) q this assms(4)] held_conn [OF assms(1) g(1)] go [OF g(1)]
    show ?thesis by blast
  next
    case False
    then have none: "count_points serving y = 0"
      unfolding count_points_def serving_def by (fastforce simp: size_eq_0_iff_empty)
    then have "1 \<le> ms_sem (y_srv y)" using assms(1,3) by (simp add: sys_inv_def)
    then obtain s1 where "sem_Acquire (y_srv y) = Some s1" by (simp add: sem_Acquire_def)
    moreover obtain domain r where "(Waiting, domain, r) \<in># y_go y"
      using False assms(5,6) by (metis prod.collapse)
    ultimately show ?thesis using go can_goI [OF go_step.g_acquire] by blast
  qed
qed

definition requests :: "msys \<Rightarrow> Msg multiset" where
  "requests y = image_mset (\<lambda>g. snd (snd g)) (y_go y)"

lemma request_step_requests: "request_step lib cfg srt y y' \<Longrightarrow> requests y' = requests y"
  by (auto simp: requests_def elim!: request_step.cases)

lemma sys_steps_crash_free:
  assumes "(sys_step lib cfg srt)\<^sup>*\<^sup>* y y'" and "crash_free y" and "sort_contract srt" and "dns_contract lib"
  shows "crash_free y'"
  using assms by (induction rule: rtranclp_induct) (auto intro: sys_step_crash_free)

lemma request_steps_sys:
  "(request_step lib cfg srt)\<^sup>*\<^sup>* y y' \<Longrightarrow> (sys_step lib cfg srt)\<^sup>*\<^sup>* y y' \<and> requests y' = requests y"
  by (induction rule: rtranclp_induct)
    (auto simp: request_step_requests dest: request_step_sys intro: rtranclp.rtrancl_into_rtrancl)

lemma request_steps_bounded:
  "(request_step lib cfg srt ^^ n) y y' \<Longrightarrow> all_inside cfg y \<Longrightarrow> n + work_left cfg y' \<le> work_left cfg y"
proof (induction n arbitrary: y')
  case (Suc n)
  then obtain y1 where y1: "(request_step lib cfg srt ^^ n) y y1" "request_step lib cfg srt y1 y'" by auto
  have "all_inside cfg y1"
    using y1(1) Suc(3)
  proof (induction n arbitrary: y1)
    case (Suc m)
    then show ?case using request_step_work by fastforce
  qed simp
  from request_step_work [OF y1(2) this] Suc(1) [OF y1(1) Suc(3)] show ?case by linarith
qed simp


text \<open>
  C26. A configuration with a negative number of concurrent queries makes a server that never answers
  anybody: in no interleaving does the goroutine of any request get past the semaphore, nothing is ever
  written, and every request that arrived is counted as queued for ever.
\<close>

theorem no_permit_no_answer:
  assumes "sys_reach lib cfg srt gomaxprocs y" and "permits cfg gomaxprocs \<le> 0"
  shows "y_out y = [] \<and> (\<forall>g\<in>#y_go y. fst g = Waiting) \<and> (\<nexists>y'. request_step lib cfg srt y y') \<and>
    mt_QueuedQueries (w_mt (y_world y)) = int (size (y_go y))"
proof -
  obtain y0 where y0: "sys_start cfg gomaxprocs y0" "(sys_step lib cfg srt)\<^sup>*\<^sup>* y0 y"
    using assms(1) by (auto simp: sys_reach_def)
  have inv: "ms_sem (y_srv y) \<le> 0 \<and> y_out y = [] \<and> (\<forall>g\<in>#y_go y. fst g = Waiting) \<and>
      mt_QueuedQueries (w_mt (y_world y)) = int (size (y_go y))"
    using y0(2)
  proof (induction rule: rtranclp_induct)
    case base
    from y0(1) assms(2) show ?case
      by cases (auto simp: NewMutexServer_def permits_def Let_def zero_metrics_def)
  next
    case (step y1 y2)
    from step(2) show ?case
    proof cases
      case (sy_arrive r domain w1)
      then show ?thesis using step.IH by (auto simp: HandleDNS_accept_def Let_def split: list.splits)
    next
      case (sy_go pt domain r others out new pt' s' w')
      then have "pt = Waiting" using step.IH by simp
      with sy_go(3) step.IH show ?thesis by cases (auto simp: sem_Acquire_def split: if_splits)
    qed (use step.IH in auto)
  qed
  moreover have "\<not> request_step lib cfg srt y y'" for y'
  proof
    assume "request_step lib cfg srt y y'"
    then show False
    proof cases
      case (1 pt domain r others out new pt' s' w')
      then have "pt = Waiting" using inv by simp
      with 1(3) inv show False by cases (auto simp: sem_Acquire_def split: if_splits)
    qed
  qed
  ultimately show ?thesis by blast
qed

end
