(* ===== verification/Process.thy ===== *)
theory Process
  imports Service MutexProgress
begin

text \<open>
  The whole process: the server that \<open>main\<close> sets up from a configuration file, serving requests.
\<close>

lemma main_server:
  assumes "main en False conf = (events, st, Some (s, ls))" and "InitConfiguration (en_ReadConf en conf) fresh = (None, a, out)"
  obtains s0 where "NewMutexServer (GetConfiguration a) (en_gomaxprocs en) None = Inr s0"
    and "loadLocalZones (GetConfiguration a) (en_parse en) (en_ReadFile en) (en_clks en) (en_store en) s0 = Some s"
  using assms
  by (auto simp: main_def Let_def BuildClient_def split: option.splits sum.splits prod.splits)

text \<open>The process when \<open>main\<close> starts to serve.\<close>

definition serving_state :: "environment \<Rightarrow> MutexServer \<Rightarrow> msys" where
  "serving_state en s = \<lparr>y_srv = s, y_world = \<lparr>w_store = en_store en, w_mt = zero_metrics, w_log = []\<rparr>,
     y_go = {#}, y_out = [], y_dialled = []\<rparr>"


text \<open>With a cleaning interval that is not positive, and not zero, the process can go down at its first step.\<close>

lemma bad_interval_ends_process:
  assumes "main en False conf = (events, st, Some (s, ls))" and "InitConfiguration (en_ReadConf en conf) fresh = (None, a, out)"
    and "cfg = GetConfiguration a" and "cfg_ZoneFiles cfg = []" and "nanos (cleaning_interval cfg) \<le> 0"
  shows "live_step lib cfg srt listens (Up (serving_state en s)) (Down NonPositiveInterval)"
proof -
  obtain s0 where s0: "NewMutexServer cfg (en_gomaxprocs en) None = Inr s0"
      "loadLocalZones cfg (en_parse en) (en_ReadFile en) (en_clks en) (en_store en) s0 = Some s"
    using main_server [OF assms(1,2)] unfolding assms(3) by blast
  then have "ms_Cache s = StartCleaningCrew cfg NewCache"
    using assms(4) by (auto simp: loadLocalZones_def NewMutexServer_def Let_def)
  then have "as_crew s (y_world (serving_state en s)) = crew_start cfg (en_store en)"
    by (simp add: as_crew_def crew_start_def serving_state_def)
  with crew_step.crew_works [OF bad_interval_panics [OF assms(5)]] show ?thesis
    by (intro live_step.lv_crew [where cs = "(crew_start cfg (en_store en))\<lparr>c_panic := Some NonPositiveInterval\<rparr>"])
      (simp_all add: serving_state_def)
qed

end
