(* ===== verification/Pipeline.thy ===== *)
theory Pipeline
  imports MutexServer
begin

text \<open>
  \<open>src/pipeline_server.go\<close>: five kinds of workers joined by unbuffered channels. A query travels by
  value; its connection is shared by its copies, so what an exchange does to it shows in all of them.
  A response writer is a number, and what it is given is \<open>None\<close> where the code gives it a nil
  message. Cancelling a worker ends its loop.
\<close>

section \<open>Queries, channels and workers\<close>

record Query =
  pq_Msg :: "Msg option"
  pq_Upstream :: Upstream
  pq_Conn :: "connEntry option"
  pq_ConnectionRetries :: int
  pq_Reply :: "Msg option"
  pq_W :: "nat option"

definition zero_Query :: Query where
  "zero_Query = \<lparr>pq_Msg = None, pq_Upstream = zero_Upstream, pq_Conn = None, pq_ConnectionRetries = 0,
     pq_Reply = None, pq_W = None\<rparr>"

datatype worker = Handler | Cacher | Connector | Querier | Finisher

text \<open>The workers can be listed, so that sums over all of them can be formed and evaluated.\<close>

instantiation worker :: enum
begin

definition enum_worker :: "worker list" where
  "enum_worker = [Handler, Cacher, Connector, Querier, Finisher]"

definition enum_all_worker :: "(worker \<Rightarrow> bool) \<Rightarrow> bool" where
  "enum_all_worker P = list_all P enum_class.enum"

definition enum_ex_worker :: "(worker \<Rightarrow> bool) \<Rightarrow> bool" where
  "enum_ex_worker P = list_ex P enum_class.enum"

instance
proof
  show univ: "(UNIV :: worker set) = set enum_class.enum"
    by (auto simp: enum_worker_def intro: worker.exhaust)
  show "distinct (enum_class.enum :: worker list)" by (simp add: enum_worker_def)
  show "enum_class.enum_all P = Ball UNIV P" "enum_class.enum_ex P = Bex UNIV P" for P :: "worker \<Rightarrow> bool"
    by (simp_all add: enum_all_worker_def enum_ex_worker_def list_all_iff list_ex_iff univ)
qed

end

text \<open>A channel is known by the place that made it; a field that nothing was assigned to is nil.\<close>

datatype chan = NilChan | Inbound worker | Outbound worker | Failed worker | Servfails worker
  | Cancel worker | Caching | Adding | Closing

record pipelineServerWorker =
  inboundQueryChannel :: chan
  failedQueryChannel :: chan
  outboundQueryChannel :: chan
  servfailsChannel :: chan
  cancelChannel :: chan

type_synonym sends = "(chan \<times> Query) list"

definition Dispatch :: "pipelineServerWorker \<Rightarrow> Query \<Rightarrow> sends" where
  "Dispatch p q = [(outboundQueryChannel p, q)]"

definition Fail :: "pipelineServerWorker \<Rightarrow> Query \<Rightarrow> sends" where
  "Fail p q = [(failedQueryChannel p, q)]"

record PipelineConnector =
  pc_worker :: pipelineServerWorker
  pc_connPool :: connPool
  pc_addingChannel :: chan
  pc_closingChannel :: chan

record PipelineCacher =
  ph_worker :: pipelineServerWorker
  ph_cache :: RecordCache
  ph_cachingChannel :: chan

text \<open>The finisher has a field of its own that hides the worker's channel of the same name.\<close>

record PipelineFinisher =
  pf_worker :: pipelineServerWorker
  pf_servfailsChannel :: chan

record pipeline =
  pl_handler :: pipelineServerWorker
  pl_cacher :: PipelineCacher
  pl_connector :: PipelineConnector
  pl_querier :: pipelineServerWorker
  pl_finisher :: PipelineFinisher

section \<open>The connector\<close>

text \<open>
  The loop of \<open>AssignConnection\<close>: \<open>k\<close> rounds are left, \<open>j\<close> counts them. Its variables are the
  connection, the error, the retries of the query and the error text built up so far.
\<close>

fun AssignConnection_loop ::
  "Configuration \<Rightarrow> Upstream \<Rightarrow> (nat \<Rightarrow> client_call) \<Rightarrow> nat \<Rightarrow> nat
     \<Rightarrow> connEntry \<times> go_error option \<times> int \<times> go_error option \<Rightarrow> connPool
     \<Rightarrow> (connEntry \<times> go_error option \<times> int \<times> go_error option) \<times> connPool" where
  "AssignConnection_loop cfg upstream calls 0 j var c = (var, c)"
| "AssignConnection_loop cfg upstream calls (Suc k) j (ce, err, retr, finalError) c =
     (case connPool_NewConnection cfg (cc_now (calls j)) c upstream (cc_Dial (calls j))
             (cc_dialDuration (calls j)) of
        ((ce1, Some e), c1) \<Rightarrow>
          AssignConnection_loop cfg upstream calls k (j + 1)
            (ce1, Some e, retr + 1,
             Some (DialAttemptFailed (Upstream_GetAddress upstream) e finalError)) c1
      | ((ce1, None), c1) \<Rightarrow> ((ce1, None, retr + 1, finalError), c1))"

definition AssignConnection ::
  "Configuration \<Rightarrow> clock \<Rightarrow> (nat \<Rightarrow> client_call) \<Rightarrow> connPool \<Rightarrow> Query
     \<Rightarrow> ((Query \<times> go_error option) \<times> connPool) outcome" where
  "AssignConnection cfg clk calls c q =
     outcome_bind (connPool_Get clk c) (\<lambda>((ce, upstream), c1).
       if upstream \<noteq> zero_Upstream then
         let retries = (if cfg_UpstreamRetries cfg = 0 then 2 else cfg_UpstreamRetries cfg)
         in case AssignConnection_loop cfg upstream calls (nat (retries - pq_ConnectionRetries q)) 0
                   (ce, None, pq_ConnectionRetries q, None) c1 of
              ((ce1, err, retr, finalError), c2) \<Rightarrow>
                (case err of
                   Some _ \<Rightarrow>
                     Ok ((zero_Query, Some (NoConnection (Upstream_GetAddress upstream) finalError)), c2)
                 | None \<Rightarrow>
                     Ok ((q\<lparr>pq_ConnectionRetries := retr, pq_Conn := Some ce1\<rparr>, None), c2))
       else Ok ((q\<lparr>pq_Conn := Some ce\<rparr>, None), c1))"

text \<open>
  The three arms of the connector's loop. A failed assignment is failed and, the branch not leaving
  the arm, the empty query is dispatched as well.
\<close>

definition Connector_adding ::
  "Configuration \<Rightarrow> sort_fun \<Rightarrow> time \<Rightarrow> connPool \<Rightarrow> Query \<Rightarrow> connPool outcome" where
  "Connector_adding cfg srt now c q =
     (case pq_Conn q of None \<Rightarrow> Panic NilDereference | Some ce \<Rightarrow> Ok (snd (connPool_Add cfg srt now c ce)))"

definition Connector_closing ::
  "Configuration \<Rightarrow> sort_fun \<Rightarrow> time \<Rightarrow> connPool \<Rightarrow> Query \<Rightarrow> connPool outcome" where
  "Connector_closing cfg srt now c q =
     (case pq_Conn q of None \<Rightarrow> Panic NilDereference | Some ce \<Rightarrow> connPool_CloseConnection cfg srt now c ce)"

definition Connector_inbound ::
  "Configuration \<Rightarrow> clock \<Rightarrow> (nat \<Rightarrow> client_call) \<Rightarrow> PipelineConnector \<Rightarrow> Query
     \<Rightarrow> (sends \<times> PipelineConnector) outcome" where
  "Connector_inbound cfg clk calls pc q =
     outcome_bind (AssignConnection cfg clk calls (pc_connPool pc) q) (\<lambda>((assignedQuery, err), c).
       Ok ((case err of Some _ \<Rightarrow> Fail (pc_worker pc) q | None \<Rightarrow> []) @
             Dispatch (pc_worker pc) assignedQuery,
           pc\<lparr>pc_connPool := c\<rparr>))"

definition Connector_AddUpstream :: "PipelineConnector \<Rightarrow> nat \<Rightarrow> PipelineConnector" where
  "Connector_AddUpstream pc u = pc\<lparr>pc_connPool := connPool_AddUpstream (pc_connPool pc) u\<rparr>"

section \<open>The querier\<close>

text \<open>\<open>reply.Copy()\<close> is the reply the client gets; nothing else is done to it.\<close>

definition Querier_Query ::
  "dns_lib \<Rightarrow> Configuration \<Rightarrow> exchange \<Rightarrow> Query \<Rightarrow> world \<Rightarrow> ((Query \<times> go_error option) \<times> world) outcome" where
  "Querier_Query lib cfg xchg qu w =
     (let w0 = w\<lparr>w_mt := (w_mt w)\<lparr>mt_RecursiveQueries := mt_RecursiveQueries (w_mt w) + 1\<rparr>\<rparr>
      in case pq_Msg qu of
           None \<Rightarrow> Panic NilDereference
         | Some msg \<Rightarrow>
             (case m_Question msg of
                [] \<Rightarrow> Panic IndexOutOfRange
              | question # _ \<Rightarrow>
                  let m = (lib_SetQuestion lib zero_Msg (q_Name question) (q_Qtype question))
                            \<lparr>m_RecursionDesired := True\<rparr>
                  in case pq_Conn qu of
                       None \<Rightarrow> Panic NilDereference
                     | Some ce \<Rightarrow>
                         outcome_bind (attemptExchange cfg xchg m ce w0) (\<lambda>((ce1, reply, err), w1).
                           let query = qu\<lparr>pq_Conn := Some ce1\<rparr>
                           in case err of
                                Some e \<Rightarrow>
                                  Ok ((query\<lparr>pq_ConnectionRetries := pq_ConnectionRetries query + 1\<rparr>,
                                       Some (ExchangeFailed e)), w1)
                              | None \<Rightarrow>
                                  (case lib_Copy lib reply (w_store w1) of
                                     (copy, st) \<Rightarrow>
                                       Ok ((query\<lparr>pq_Reply := Some copy\<rparr>, None), w1\<lparr>w_store := st\<rparr>)))))"

text \<open>On an error the loop fails the query it received, not the one with the counted retry.\<close>

definition Querier_inbound ::
  "dns_lib \<Rightarrow> Configuration \<Rightarrow> exchange \<Rightarrow> pipelineServerWorker \<Rightarrow> Query \<Rightarrow> world \<Rightarrow> (sends \<times> world) outcome" where
  "Querier_inbound lib cfg xchg p query w =
     outcome_bind (Querier_Query lib cfg xchg query w) (\<lambda>((qu, err), w1).
       case err of
         Some _ \<Rightarrow> Ok (Fail p (query\<lparr>pq_Conn := pq_Conn qu\<rparr>), w1)
       | None \<Rightarrow> Ok (Dispatch p qu, w1))"

section \<open>The cacher\<close>

definition CheckCache ::
  "(rat \<Rightarrow> 32 word) \<Rightarrow> clock \<Rightarrow> RecordCache \<Rightarrow> Query \<Rightarrow> rr_store \<Rightarrow> (Response \<times> bool) \<times> RecordCache \<times> rr_store" where
  "CheckCache oob clk rc q st =
     (case pq_Msg q of
        None \<Rightarrow> ((zero_Response, False), rc, st)
      | Some msg \<Rightarrow>
          (case m_Question msg of
             [] \<Rightarrow> ((zero_Response, False), rc, st)
           | question # _ \<Rightarrow> RecordCache_Get oob clk rc (q_Name question) (q_Qtype question) st))"

definition CacheQuery :: "time \<Rightarrow> RecordCache \<Rightarrow> Query \<Rightarrow> RecordCache outcome" where
  "CacheQuery now rc q =
     (case pq_Msg q of
        None \<Rightarrow> Panic NilDereference
      | Some msg \<Rightarrow>
          (case m_Question msg of
             [] \<Rightarrow> Panic IndexOutOfRange
           | question # _ \<Rightarrow>
               Ok (RecordCache_Add rc (zero_Response\<lparr>resp_Entry := msg, resp_CreationTime := now,
                     resp_Name := q_Name question, resp_Qtype := q_Qtype question\<rparr>))))"

definition Cacher_inbound ::
  "dns_lib \<Rightarrow> (rat \<Rightarrow> 32 word) \<Rightarrow> clock \<Rightarrow> PipelineCacher \<Rightarrow> Query \<Rightarrow> world
     \<Rightarrow> sends \<times> PipelineCacher \<times> world" where
  "Cacher_inbound lib oob clk ph q w =
     (case CheckCache oob clk (ph_cache ph) q (w_store w) of
        ((resp, ok), rc, st) \<Rightarrow>
          let ph1 = ph\<lparr>ph_cache := rc\<rparr>
          in if ok then
               (case lib_Copy lib (resp_Entry resp) st of
                  (copy, st1) \<Rightarrow>
                    (Dispatch (ph_worker ph) (q\<lparr>pq_Reply := Some copy\<rparr>), ph1, w\<lparr>w_store := st1\<rparr>))
             else (Fail (ph_worker ph) q, ph1, w\<lparr>w_store := st\<rparr>))"

section \<open>The finisher and the handler\<close>

text \<open>What a finisher writes is the second component: the writer and the message it is given.\<close>

type_synonym written = "(nat option \<times> wire option) list"

definition Finisher_servfails ::
  "dns_lib \<Rightarrow> duration \<Rightarrow> pipelineServerWorker \<Rightarrow> Query \<Rightarrow> world \<Rightarrow> (sends \<times> written \<times> world) outcome" where
  "Finisher_servfails lib duration p q w =
     (case pq_Msg q of
        None \<Rightarrow> Panic NilDereference
      | Some msg \<Rightarrow>
          let reply = lib_SetRcode lib zero_Msg msg RcodeServerFailure;
              failingQuery = q\<lparr>pq_Reply := Some reply\<rparr>;
              out = [(pq_W q, map_option (on_wire (w_store w)) (pq_Reply q))];
              w1 = w\<lparr>w_mt := (w_mt w)\<lparr>mt_QueryTimer := mt_QueryTimer (w_mt w) + 1\<rparr>\<rparr>
          in Ok (Fail p q, out, logQuery lib ''servfail'' duration reply w1))"

definition Finisher_inbound ::
  "dns_lib \<Rightarrow> duration \<Rightarrow> pipelineServerWorker \<Rightarrow> Query \<Rightarrow> world \<Rightarrow> (sends \<times> written \<times> world) outcome" where
  "Finisher_inbound lib duration p q w =
     (let out = [(pq_W q, map_option (on_wire (w_store w)) (pq_Reply q))];
          w1 = w\<lparr>w_mt := (w_mt w)\<lparr>mt_QueryTimer := mt_QueryTimer (w_mt w) + 1\<rparr>\<rparr>
      in case pq_Reply q of
           None \<Rightarrow> Panic NilDereference
         | Some reply \<Rightarrow>
             Ok (Dispatch p q, out,
                 logQuery lib (Upstream_GetAddress (pq_Upstream q)) duration reply w1))"

text \<open>\<open>HandleDNS\<close> blocks in its dispatch; before and after it the queue gauge is adjusted.\<close>

definition Handler_begin :: "Msg \<Rightarrow> nat \<Rightarrow> world \<Rightarrow> Query \<times> world" where
  "Handler_begin r wr w =
     (let mt = w_mt w
      in (zero_Query\<lparr>pq_Msg := Some r, pq_W := Some wr\<rparr>,
          w\<lparr>w_mt := mt\<lparr>mt_TotalDnsQueries := mt_TotalDnsQueries mt + 1,
                      mt_QueuedQueries := mt_QueuedQueries mt + 1\<rparr>\<rparr>))"

definition Handler_end :: "world \<Rightarrow> world" where
  "Handler_end w = w\<lparr>w_mt := (w_mt w)\<lparr>mt_QueuedQueries := mt_QueuedQueries (w_mt w) - 1\<rparr>\<rparr>"

section \<open>Construction\<close>

definition NewPipelineServerWorker :: "worker \<Rightarrow> pipelineServerWorker" where
  "NewPipelineServerWorker w = \<lparr>inboundQueryChannel = Inbound w, failedQueryChannel = Failed w,
     outboundQueryChannel = Outbound w, servfailsChannel = Servfails w, cancelChannel = Cancel w\<rparr>"

fun connector_upstreams :: "PipelineConnector \<Rightarrow> nat \<Rightarrow> string list \<Rightarrow> PipelineConnector" where
  "connector_upstreams pc p [] = pc"
| "connector_upstreams pc p (name # names) =
     (let c = pc_connPool pc;
          c1 = c\<lparr>cp_store := (cp_store c)(p := zero_Upstream\<lparr>up_Name := name\<rparr>)\<rparr>
      in connector_upstreams (Connector_AddUpstream (pc\<lparr>pc_connPool := c1\<rparr>) p) (p + 1) names)"

definition NewPipelineServer ::
  "Configuration \<Rightarrow> go_error option \<Rightarrow> go_error + pipeline \<times> chan list" where
  "NewPipelineServer cfg build =
     (case build of
        Some e \<Rightarrow> Inl (ClientNotBuilt e)
      | None \<Rightarrow>
          let queryHandler = NewPipelineServerWorker Handler;
              pipelineFinisher = \<lparr>pf_worker = NewPipelineServerWorker Finisher, pf_servfailsChannel = NilChan\<rparr>;
              servfails = pf_servfailsChannel pipelineFinisher;
              finisherInbound = inboundQueryChannel (pf_worker pipelineFinisher);
              cacheWorker = NewPipelineServerWorker Cacher;
              cachr = \<lparr>ph_worker = cacheWorker, ph_cache = NewCache, ph_cachingChannel = Caching\<rparr>;
              connectorWorker = NewPipelineServerWorker Connector;
              connectr = connector_upstreams
                \<lparr>pc_worker = connectorWorker, pc_connPool = NewConnPool (\<lambda>_. zero_Upstream),
                 pc_addingChannel = Adding, pc_closingChannel = Closing\<rparr> 0 (cfg_Upstreams cfg);
              querier = NewPipelineServerWorker Querier
          in Inr
            (\<lparr>pl_handler = queryHandler
                \<lparr>failedQueryChannel := servfails,
                 outboundQueryChannel := inboundQueryChannel cacheWorker,
                 servfailsChannel := servfails\<rparr>,
              pl_cacher = cachr
                \<lparr>ph_worker := (ph_worker cachr)
                  \<lparr>outboundQueryChannel := finisherInbound,
                   failedQueryChannel := inboundQueryChannel (pc_worker connectr),
                   servfailsChannel := servfails\<rparr>\<rparr>,
              pl_connector = connectr
                \<lparr>pc_worker := (pc_worker connectr)
                  \<lparr>outboundQueryChannel := inboundQueryChannel querier,
                   failedQueryChannel := servfails,
                   servfailsChannel := servfails\<rparr>\<rparr>,
              pl_querier = querier
                \<lparr>outboundQueryChannel := finisherInbound,
                 failedQueryChannel := inboundQueryChannel (pc_worker connectr),
                 servfailsChannel := servfails\<rparr>,
              pl_finisher = pipelineFinisher
                \<lparr>pf_worker := (pf_worker pipelineFinisher)
                  \<lparr>outboundQueryChannel := pc_addingChannel connectr,
                   failedQueryChannel := pc_closingChannel connectr\<rparr>\<rparr>\<rparr>,
             [cancelChannel cacheWorker, cancelChannel connectorWorker, cancelChannel querier]))"

section \<open>The select loops\<close>

text \<open>What the clock, the network and the processor do during one round of a loop.\<close>

record round_env =
  re_oob :: "rat \<Rightarrow> 32 word"
  re_clk :: clock
  re_calls :: "nat \<Rightarrow> client_call"
  re_now :: time
  re_Exchange :: exchange
  re_duration :: duration

text \<open>
  The arm of worker \<open>wk\<close> for channel \<open>ch\<close>, \<open>None\<close> where it has none: what it sends next, what it
  writes, and the new state. The channels of the arms are read from the fields.
\<close>

definition select_arm ::
  "dns_lib \<Rightarrow> Configuration \<Rightarrow> sort_fun \<Rightarrow> round_env \<Rightarrow> pipeline \<Rightarrow> world \<Rightarrow> worker \<Rightarrow> chan \<Rightarrow> Query
     \<Rightarrow> (sends \<times> written \<times> pipeline \<times> world) outcome option" where
  "select_arm lib cfg srt e pl w wk ch q =
     (case wk of
        Handler \<Rightarrow> None
      | Cacher \<Rightarrow>
          let ph = pl_cacher pl
          in if ch = inboundQueryChannel (ph_worker ph) then
               Some (case Cacher_inbound lib (re_oob e) (re_clk e) ph q w of
                       (s, ph1, w1) \<Rightarrow> Ok (s, [], pl\<lparr>pl_cacher := ph1\<rparr>, w1))
             else if ch = ph_cachingChannel ph then
               Some (outcome_bind (CacheQuery (re_now e) (ph_cache ph) q)
                 (\<lambda>rc. Ok ([], [], pl\<lparr>pl_cacher := ph\<lparr>ph_cache := rc\<rparr>\<rparr>, w)))
             else None
      | Connector \<Rightarrow>
          let pc = pl_connector pl
          in if ch = pc_addingChannel pc then
               Some (outcome_bind (Connector_adding cfg srt (re_now e) (pc_connPool pc) q)
                 (\<lambda>c. Ok ([], [], pl\<lparr>pl_connector := pc\<lparr>pc_connPool := c\<rparr>\<rparr>, w)))
             else if ch = pc_closingChannel pc then
               Some (outcome_bind (Connector_closing cfg srt (re_now e) (pc_connPool pc) q)
                 (\<lambda>c. Ok ([], [], pl\<lparr>pl_connector := pc\<lparr>pc_connPool := c\<rparr>\<rparr>, w)))
             else if ch = inboundQueryChannel (pc_worker pc) then
               Some (outcome_bind (Connector_inbound cfg (re_clk e) (re_calls e) pc q)
                 (\<lambda>(s, pc1). Ok (s, [], pl\<lparr>pl_connector := pc1\<rparr>, w)))
             else None
      | Querier \<Rightarrow>
          if ch = inboundQueryChannel (pl_querier pl) then
            Some (outcome_bind (Querier_inbound lib cfg (re_Exchange e) (pl_querier pl) q w)
              (\<lambda>(s, w1). Ok (s, [], pl, w1)))
          else None
      | Finisher \<Rightarrow>
          let pf = pl_finisher pl
          in if ch = pf_servfailsChannel pf then
               Some (outcome_bind (Finisher_servfails lib (re_duration e) (pf_worker pf) q w)
                 (\<lambda>(s, out, w1). Ok (s, out, pl, w1)))
             else if ch = inboundQueryChannel (pf_worker pf) then
               Some (outcome_bind (Finisher_inbound lib (re_duration e) (pf_worker pf) q w)
                 (\<lambda>(s, out, w1). Ok (s, out, pl, w1)))
             else None)"

end
