(* ===== verification/PipelineRuns.thy ===== *)
theory PipelineRuns
  imports Pipeline
begin

text \<open>
  The pipeline at work. A worker is at its \<open>select\<close> when it has nothing left to send; a send and the
  receive that takes it happen together, because the channels are unbuffered. A nil channel is never
  ready. Requests arrive in goroutines of their own; \<open>ps_requests\<close> is the history of their writers.
\<close>

section \<open>Steps\<close>

record pstate =
  ps_pl :: pipeline
  ps_world :: world
  ps_arrived :: "Query list"
  ps_pending :: "worker \<Rightarrow> sends"
  ps_cancelled :: "worker set"
  ps_written :: written
  ps_requests :: "nat list"
  ps_crashed :: bool

text \<open>A query some goroutine is blocked on sending, and the state once it has been taken.\<close>

inductive offers :: "pstate \<Rightarrow> chan \<Rightarrow> Query \<Rightarrow> pstate \<Rightarrow> bool" where
  off_handler: "ps_arrived s = xs @ q # ys \<Longrightarrow>
     offers s (outboundQueryChannel (pl_handler (ps_pl s))) q
       (s\<lparr>ps_arrived := xs @ ys, ps_world := Handler_end (ps_world s)\<rparr>)"
| off_worker: "ps_pending s wk = (ch, q) # rest \<Longrightarrow>
     offers s ch q (s\<lparr>ps_pending := (ps_pending s)(wk := rest)\<rparr>)"

text \<open>
  \<open>listens\<close> says which requests the listener of the DNS library hands to the server, \<open>E\<close> restricts what the
  outside does in a round. Only three workers can be
  cancelled.
\<close>

inductive pipe_step ::
  "dns_lib \<Rightarrow> Configuration \<Rightarrow> sort_fun \<Rightarrow> (Msg \<Rightarrow> bool) \<Rightarrow> (round_env \<Rightarrow> bool) \<Rightarrow> pstate \<Rightarrow> pstate \<Rightarrow> bool"
  for lib cfg srt listens E where
  p_arrive: "\<lbrakk>\<not> ps_crashed s; listens r; Handler_begin r wr (ps_world s) = (q, w1)\<rbrakk> \<Longrightarrow>
     pipe_step lib cfg srt listens E s (s\<lparr>ps_world := w1, ps_arrived := ps_arrived s @ [q],
       ps_requests := ps_requests s @ [wr]\<rparr>)"
| p_receive: "\<lbrakk>\<not> ps_crashed s; E e; offers s ch q s1; ch \<noteq> NilChan; ps_pending s wk = []; wk \<notin> ps_cancelled s;
     select_arm lib cfg srt e (ps_pl s1) (ps_world s1) wk ch q = Some (Ok (sends, out, pl, w))\<rbrakk> \<Longrightarrow>
     pipe_step lib cfg srt listens E s (s1\<lparr>ps_pl := pl, ps_world := w,
       ps_pending := (ps_pending s1)(wk := sends), ps_written := ps_written s1 @ out\<rparr>)"
| p_crash: "\<lbrakk>\<not> ps_crashed s; E e; offers s ch q s1; ch \<noteq> NilChan; ps_pending s wk = []; wk \<notin> ps_cancelled s;
     select_arm lib cfg srt e (ps_pl s1) (ps_world s1) wk ch q = Some (Panic reason)\<rbrakk> \<Longrightarrow>
     pipe_step lib cfg srt listens E s (s1\<lparr>ps_crashed := True\<rparr>)"
| p_cancel: "\<lbrakk>\<not> ps_crashed s; ps_pending s wk = []; wk \<in> {Cacher, Connector, Querier}\<rbrakk> \<Longrightarrow>
     pipe_step lib cfg srt listens E s (s\<lparr>ps_cancelled := insert wk (ps_cancelled s)\<rparr>)"

definition pipe_start :: "pipeline \<Rightarrow> rr_store \<Rightarrow> pstate" where
  "pipe_start pl st = \<lparr>ps_pl = pl, ps_world = \<lparr>w_store = st, w_mt = zero_metrics, w_log = []\<rparr>,
     ps_arrived = [], ps_pending = (\<lambda>_. []), ps_cancelled = {}, ps_written = [], ps_requests = [], ps_crashed = False\<rparr>"

section \<open>The wiring\<close>

definition wired :: "pipeline \<Rightarrow> bool" where
  "wired pl \<longleftrightarrow>
     outboundQueryChannel (pl_handler pl) = Inbound Cacher \<and>
     inboundQueryChannel (ph_worker (pl_cacher pl)) = Inbound Cacher \<and>
     outboundQueryChannel (ph_worker (pl_cacher pl)) = Inbound Finisher \<and>
     failedQueryChannel (ph_worker (pl_cacher pl)) = Inbound Connector \<and>
     ph_cachingChannel (pl_cacher pl) = Caching \<and>
     inboundQueryChannel (pc_worker (pl_connector pl)) = Inbound Connector \<and>
     outboundQueryChannel (pc_worker (pl_connector pl)) = Inbound Querier \<and>
     failedQueryChannel (pc_worker (pl_connector pl)) = NilChan \<and>
     pc_addingChannel (pl_connector pl) = Adding \<and> pc_closingChannel (pl_connector pl) = Closing \<and>
     inboundQueryChannel (pl_querier pl) = Inbound Querier \<and>
     outboundQueryChannel (pl_querier pl) = Inbound Finisher \<and>
     failedQueryChannel (pl_querier pl) = Inbound Connector \<and>
     inboundQueryChannel (pf_worker (pl_finisher pl)) = Inbound Finisher \<and>
     outboundQueryChannel (pf_worker (pl_finisher pl)) = Adding \<and>
     failedQueryChannel (pf_worker (pl_finisher pl)) = Closing \<and>
     pf_servfailsChannel (pl_finisher pl) = NilChan"

lemma wired_simps:
  assumes "wired pl"
  shows "outboundQueryChannel (pl_handler pl) = Inbound Cacher"
     "inboundQueryChannel (ph_worker (pl_cacher pl)) = Inbound Cacher"
     "outboundQueryChannel (ph_worker (pl_cacher pl)) = Inbound Finisher"
     "failedQueryChannel (ph_worker (pl_cacher pl)) = Inbound Connector"
     "ph_cachingChannel (pl_cacher pl) = Caching"
     "inboundQueryChannel (pc_worker (pl_connector pl)) = Inbound Connector"
     "outboundQueryChannel (pc_worker (pl_connector pl)) = Inbound Querier"
     "failedQueryChannel (pc_worker (pl_connector pl)) = NilChan"
     "pc_addingChannel (pl_connector pl) = Adding" "pc_closingChannel (pl_connector pl) = Closing"
     "inboundQueryChannel (pl_querier pl) = Inbound Querier"
     "outboundQueryChannel (pl_querier pl) = Inbound Finisher"
     "failedQueryChannel (pl_querier pl) = Inbound Connector"
     "inboundQueryChannel (pf_worker (pl_finisher pl)) = Inbound Finisher"
     "outboundQueryChannel (pf_worker (pl_finisher pl)) = Adding"
     "failedQueryChannel (pf_worker (pl_finisher pl)) = Closing"
     "pf_servfailsChannel (pl_finisher pl) = NilChan"
  using assms by (simp_all add: wired_def)

lemma connector_upstreams_frame [simp]:
  "pc_worker (connector_upstreams pc p names) = pc_worker pc"
  "pc_addingChannel (connector_upstreams pc p names) = pc_addingChannel pc"
  "pc_closingChannel (connector_upstreams pc p names) = pc_closingChannel pc"
  "cp_cache (pc_connPool (connector_upstreams pc p names)) = cp_cache (pc_connPool pc)"
  by (induction names arbitrary: pc p) (simp_all add: Let_def Connector_AddUpstream_def connPool_AddUpstream_def)

lemma NewPipelineServer_wired:
  assumes "NewPipelineServer cfg None = Inr (pl, chans)"
  shows "wired pl" "rc_cache (ph_cache (pl_cacher pl)) = fmempty"
  using assms
  by (auto simp: NewPipelineServer_def Let_def wired_def NewPipelineServerWorker_def NewCache_def)

lemma empty_cache_miss:
  "rc_cache rc = fmempty \<Longrightarrow> CheckCache oob clk rc q st = ((zero_Response, False), rc, st)"
  by (auto simp: CheckCache_def RecordCache_Get_def split: option.splits list.splits)

text \<open>An arm keeps the wiring, and as long as nothing is sent to be cached the cache stays empty.\<close>

definition no_caching :: "sends \<Rightarrow> bool" where
  "no_caching s \<longleftrightarrow> (\<forall>(ch, q)\<in>set s. ch \<noteq> Caching)"

lemma Connector_inbound_Ok:
  assumes "Connector_inbound cfg clk calls pc q = Ok (s, pc')"
  obtains qa err c where "AssignConnection cfg clk calls (pc_connPool pc) q = Ok ((qa, err), c)"
    "s = (case err of Some _ \<Rightarrow> Fail (pc_worker pc) q | None \<Rightarrow> []) @ Dispatch (pc_worker pc) qa"
    "pc' = pc\<lparr>pc_connPool := c\<rparr>"
  using assms by (auto simp: Connector_inbound_def)

lemma Querier_inbound_sends:
  assumes "Querier_inbound lib cfg xchg p q w = Ok (s, w')"
  shows "\<exists>q'. s = Fail p q' \<or> s = Dispatch p q'"
  using assms by (auto simp: Querier_inbound_def split: option.splits)

lemma Finisher_sends:
  "Finisher_servfails lib d p q w = Ok (s, out, w') \<Longrightarrow> s = Fail p q"
  "Finisher_inbound lib d p q w = Ok (s, out, w') \<Longrightarrow> s = Dispatch p q"
  by (auto simp: Finisher_servfails_def Finisher_inbound_def Let_def split: option.splits)

lemma select_arm_channel:
  assumes "select_arm lib cfg srt e pl w wk ch q = Some res" and "wired pl" and "ch \<noteq> NilChan"
  shows "ch = Inbound wk \<or> wk = Cacher \<and> ch = Caching \<or> wk = Connector \<and> ch \<in> {Adding, Closing}"
  using assms
  by (cases wk) (auto simp: select_arm_def wired_simps Let_def split: if_splits)

text \<open>The arms of a wired pipeline by their channels.\<close>

lemma arms:
  assumes "wired pl"
  shows "select_arm lib cfg srt e pl w Cacher (Inbound Cacher) q =
      Some (case Cacher_inbound lib (re_oob e) (re_clk e) (pl_cacher pl) q w of
              (s, ph1, w1) \<Rightarrow> Ok (s, [], pl\<lparr>pl_cacher := ph1\<rparr>, w1))"
    and "select_arm lib cfg srt e pl w Connector Adding q =
      Some (outcome_bind (Connector_adding cfg srt (re_now e) (pc_connPool (pl_connector pl)) q)
        (\<lambda>c. Ok ([], [], pl\<lparr>pl_connector := (pl_connector pl)\<lparr>pc_connPool := c\<rparr>\<rparr>, w)))"
    and "select_arm lib cfg srt e pl w Connector Closing q =
      Some (outcome_bind (Connector_closing cfg srt (re_now e) (pc_connPool (pl_connector pl)) q)
        (\<lambda>c. Ok ([], [], pl\<lparr>pl_connector := (pl_connector pl)\<lparr>pc_connPool := c\<rparr>\<rparr>, w)))"
    and "select_arm lib cfg srt e pl w Connector (Inbound Connector) q =
      Some (outcome_bind (Connector_inbound cfg (re_clk e) (re_calls e) (pl_connector pl) q)
        (\<lambda>(s, pc1). Ok (s, [], pl\<lparr>pl_connector := pc1\<rparr>, w)))"
    and "select_arm lib cfg srt e pl w Querier (Inbound Querier) q =
      Some (outcome_bind (Querier_inbound lib cfg (re_Exchange e) (pl_querier pl) q w)
        (\<lambda>(s, w1). Ok (s, [], pl, w1)))"
    and "select_arm lib cfg srt e pl w Finisher (Inbound Finisher) q =
      Some (outcome_bind (Finisher_inbound lib (re_duration e) (pf_worker (pl_finisher pl)) q w)
        (\<lambda>(s, out, w1). Ok (s, out, pl, w1)))"
  by (simp_all add: select_arm_def Let_def wired_simps [OF assms])

lemma wired_frame [simp]:
  "wired (pl\<lparr>pl_cacher := (pl_cacher pl)\<lparr>ph_cache := rc\<rparr>\<rparr>) = wired pl"
  "wired (pl\<lparr>pl_connector := (pl_connector pl)\<lparr>pc_connPool := c\<rparr>\<rparr>) = wired pl"
  by (simp_all add: wired_def)

lemma select_arm_inv:
  assumes arm: "select_arm lib cfg srt e pl w wk ch q = Some (Ok (s, out, pl', w'))"
    and w: "wired pl" and empty: "rc_cache (ph_cache (pl_cacher pl)) = fmempty"
    and ch: "ch \<noteq> Caching" "ch \<noteq> NilChan"
  shows "wired pl' \<and> rc_cache (ph_cache (pl_cacher pl')) = fmempty \<and> no_caching s"
proof -
  note chan = select_arm_channel [OF arm w ch(2)]
  note sends = no_caching_def Dispatch_def Fail_def wired_simps
  show ?thesis
  proof (cases wk)
    case Handler
    with arm show ?thesis by (simp add: select_arm_def)
  next
    case Cacher
    with chan ch have "ch = Inbound Cacher" by simp
    with arm Cacher w empty show ?thesis
      by (auto simp: arms [OF w] Cacher_inbound_def empty_cache_miss sends)
  next
    case Connector
    with chan ch consider "ch = Adding" | "ch = Closing" | "ch = Inbound Connector" by auto
    then show ?thesis
    proof cases
      case 3
      with arm Connector obtain pc1 where "Connector_inbound cfg (re_clk e) (re_calls e) (pl_connector pl) q = Ok (s, pc1)"
          "pl' = pl\<lparr>pl_connector := pc1\<rparr>"
        by (auto simp: arms [OF w])
      with w empty show ?thesis
        by (auto elim!: Connector_inbound_Ok simp: sends split: option.splits)
    qed (use arm Connector w empty in \<open>auto simp: arms [OF w] no_caching_def\<close>)
  next
    case Querier
    with chan ch have "ch = Inbound Querier" by simp
    with arm Querier w empty show ?thesis
      by (auto simp: arms [OF w] sends dest!: Querier_inbound_sends)
  next
    case Finisher
    with chan ch have "ch = Inbound Finisher" by simp
    with arm Finisher w empty show ?thesis
      by (auto simp: arms [OF w] sends dest!: Finisher_sends)
  qed
qed

definition pipe_inv :: "pstate \<Rightarrow> bool" where
  "pipe_inv s \<longleftrightarrow> wired (ps_pl s) \<and> rc_cache (ph_cache (pl_cacher (ps_pl s))) = fmempty \<and>
     (\<forall>wk. no_caching (ps_pending s wk))"

lemma offers_inv:
  assumes "offers s ch q s1" and "pipe_inv s"
  shows "pipe_inv s1 \<and> ch \<noteq> Caching \<and> ps_pl s1 = ps_pl s \<and> ps_written s1 = ps_written s"
  using assms
proof cases
  case (off_handler xs ys)
  with assms(2) show ?thesis by (auto simp: pipe_inv_def wired_simps)
next
  case (off_worker wk rest)
  then have "no_caching ((ch, q) # rest)" using assms(2) by (metis pipe_inv_def)
  with off_worker assms(2) show ?thesis by (auto simp: pipe_inv_def no_caching_def)
qed

lemma pipe_step_inv:
  assumes "pipe_step lib cfg srt listens E s s'" and "pipe_inv s"
  shows "pipe_inv s'"
  using assms
proof cases
  case (p_receive e ch q s1 wk sends out pl w)
  note o = offers_inv [OF p_receive(4) assms(2)]
  have "wired pl \<and> rc_cache (ph_cache (pl_cacher pl)) = fmempty \<and> no_caching sends"
    using select_arm_inv [OF p_receive(8)] o p_receive(5) by (auto simp: pipe_inv_def)
  with p_receive o show ?thesis by (simp add: pipe_inv_def)
next
  case (p_crash e ch q s1 wk reason)
  then show ?thesis using offers_inv [OF p_crash(4) assms(2)] by (auto simp: pipe_inv_def)
qed (auto simp: pipe_inv_def)

lemma pipe_reach_inv:
  assumes "(pipe_step lib cfg srt listens E)\<^sup>*\<^sup>* (pipe_start pl st) s" and "NewPipelineServer cfg None = Inr (pl, chans)"
  shows "pipe_inv s"
  using assms(1)
proof (induction rule: rtranclp_induct)
  case base
  show ?case using NewPipelineServer_wired [OF assms(2)] by (simp add: pipe_inv_def pipe_start_def no_caching_def)
qed (rule pipe_step_inv)

text \<open>
  C21. The cache of the pipeline is never filled: in every reachable state it is empty, so every query
  misses it and goes to the connector.
\<close>

theorem pipeline_cache_stays_empty:
  assumes "(pipe_step lib cfg srt listens E)\<^sup>*\<^sup>* (pipe_start pl st) s" and "NewPipelineServer cfg None = Inr (pl, chans)"
  shows "rc_cache (ph_cache (pl_cacher (ps_pl s))) = fmempty \<and>
    (\<forall>oob clk q w. fst (Cacher_inbound lib oob clk (pl_cacher (ps_pl s)) q w) = [(Inbound Connector, q)])"
  using pipe_reach_inv [OF assms]
  by (auto simp: pipe_inv_def Cacher_inbound_def empty_cache_miss Fail_def wired_simps)

section \<open>Blocked for good\<close>

text \<open>Workers that wait for each other in a set that is closed under waiting stay as they are.\<close>

definition stuck :: "worker set \<Rightarrow> pstate \<Rightarrow> bool" where
  "stuck W s \<longleftrightarrow> (\<forall>wk\<in>W. \<exists>ch q rest. ps_pending s wk = (ch, q) # rest \<and>
     (ch = NilChan \<or> (\<exists>wk2\<in>W. ch \<in> {Inbound wk2} \<or> wk2 = Connector \<and> ch \<in> {Adding, Closing})))"

lemma receiver_not_stuck:
  assumes "offers s ch q s1" and "ps_pending s wk = []" and "ch \<noteq> NilChan"
    and "select_arm lib cfg srt e (ps_pl s1) (ps_world s1) wk ch q = Some res"
    and "pipe_inv s" and "stuck W s"
  shows "wk \<notin> W \<and> (\<forall>wk2\<in>W. ps_pending s1 wk2 = ps_pending s wk2)"
proof -
  have idle: "wk \<notin> W" using assms(2,6) by (auto simp: stuck_def)
  have ch: "ch = Inbound wk \<or> wk = Cacher \<and> ch = Caching \<or> wk = Connector \<and> ch \<in> {Adding, Closing}"
    using select_arm_channel [OF assms(4) _ assms(3)] offers_inv [OF assms(1,5)] by (auto simp: pipe_inv_def)
  have "ps_pending s1 wk2 = ps_pending s wk2" if W: "wk2 \<in> W" for wk2
    using assms(1)
  proof cases
    case (off_worker wk3 rest)
    have "wk3 \<noteq> wk2"
    proof
      assume "wk3 = wk2"
      with W assms(6) off_worker(2) have "ch = NilChan \<or>
          (\<exists>wk4\<in>W. ch = Inbound wk4 \<or> wk4 = Connector \<and> ch \<in> {Adding, Closing})"
        by (fastforce simp: stuck_def)
      with ch idle assms(3) offers_inv [OF assms(1,5)] show False by auto
    qed
    with off_worker show ?thesis by simp
  qed simp
  with idle show ?thesis by blast
qed

text \<open>A stuck worker neither sends nor receives; if the connector is one, the pool is frozen too.\<close>

lemma stuck_step:
  assumes "pipe_step lib cfg srt listens E s s'" and "pipe_inv s" and "stuck W s"
  shows "stuck W s' \<and> (\<forall>wk\<in>W. ps_pending s' wk = ps_pending s wk) \<and>
    (Connector \<in> W \<longrightarrow> pc_connPool (pl_connector (ps_pl s')) = pc_connPool (pl_connector (ps_pl s))) \<and>
    (Finisher \<in> W \<longrightarrow> ps_written s' = ps_written s)"
  using assms
proof cases
  case (p_receive e ch q s1 wk sends out pl w)
  note r = receiver_not_stuck [OF p_receive(4,6,5,8) assms(2,3)]
  then have same: "\<forall>wk2\<in>W. ps_pending s' wk2 = ps_pending s wk2" using p_receive(1) by auto
  have o: "ps_pl s1 = ps_pl s" "ps_written s1 = ps_written s" using offers_inv [OF p_receive(4) assms(2)] by simp_all
  have "pc_connPool (pl_connector pl) = pc_connPool (pl_connector (ps_pl s))" if "Connector \<in> W"
    using p_receive(8) r that o
    by (cases wk) (auto simp: select_arm_def Let_def split: if_splits prod.splits)
  moreover have "out = []" if "Finisher \<in> W"
    using p_receive(8) r that
    by (cases wk) (auto simp: select_arm_def Let_def split: if_splits prod.splits)
  ultimately show ?thesis
    using same assms(3) p_receive(1) o by (simp add: stuck_def)
next
  case (p_crash e ch q s1 wk reason)
  note r = receiver_not_stuck [OF p_crash(4,6,5,8) assms(2,3)]
  then have "\<forall>wk2\<in>W. ps_pending s' wk2 = ps_pending s wk2" using p_crash(1) by auto
  with p_crash offers_inv [OF p_crash(4) assms(2)] assms(3) show ?thesis by (simp add: stuck_def)
qed (simp_all add: stuck_def)

lemma stuck_run:
  assumes "(pipe_step lib cfg srt listens E)\<^sup>*\<^sup>* s s'" and "pipe_inv s" and "stuck W s"
  shows "stuck W s' \<and> (\<forall>wk\<in>W. ps_pending s' wk = ps_pending s wk) \<and>
    (Connector \<in> W \<longrightarrow> pc_connPool (pl_connector (ps_pl s')) = pc_connPool (pl_connector (ps_pl s))) \<and>
    (Finisher \<in> W \<longrightarrow> ps_written s' = ps_written s)"
proof -
  have "pipe_inv s' \<and> stuck W s' \<and> (\<forall>wk\<in>W. ps_pending s' wk = ps_pending s wk) \<and>
    (Connector \<in> W \<longrightarrow> pc_connPool (pl_connector (ps_pl s')) = pc_connPool (pl_connector (ps_pl s))) \<and>
    (Finisher \<in> W \<longrightarrow> ps_written s' = ps_written s)"
    using assms
  proof (induction rule: rtranclp_induct)
    case (step s1 s2)
    then show ?case using stuck_step [OF step(2), of W] pipe_step_inv [OF step(2)] by auto
  qed simp
  then show ?thesis by blast
qed

end
