(* ===== verification/PipelineFaults.thy ===== *)
theory PipelineFaults
  imports PipelineRuns
begin

text \<open>
  How the pipeline comes to a standstill or to a crash: by successful queries that wait for each other
  in a circle, by an upstream that cannot be dialled, and when the retries of a query are used up. And
  what a client gets when nothing goes wrong.
\<close>

section \<open>Waiting in a circle\<close>

text \<open>What the stages of the pipeline do to one query when nothing fails.\<close>

definition dialling :: "round_env \<Rightarrow> bool" where
  "dialling e \<longleftrightarrow> (\<forall>j a. \<exists>n. cc_Dial (re_calls e j) a = Inr n)"

definition errorless :: "round_env \<Rightarrow> bool" where
  "errorless e \<longleftrightarrow> dialling e \<and> (\<forall>m conn st. snd (snd (fst (re_Exchange e m conn st))) = None)"

definition failing :: "round_env \<Rightarrow> bool" where
  "failing e \<longleftrightarrow> dialling e \<and> (\<forall>m conn st. snd (snd (fst (re_Exchange e m conn st))) \<noteq> None)"

definition max_retries :: "Configuration \<Rightarrow> int" where
  "max_retries cfg = (if cfg_UpstreamRetries cfg = 0 then 2 else cfg_UpstreamRetries cfg)"

definition asks :: "int \<Rightarrow> Query \<Rightarrow> bool" where
  "asks k q \<longleftrightarrow> pq_ConnectionRetries q = k \<and> (\<exists>msg. pq_Msg q = Some msg \<and> m_Question msg \<noteq> [])"

definition has_conn :: "int \<Rightarrow> Query \<Rightarrow> bool" where
  "has_conn k q \<longleftrightarrow> asks k q \<and> (\<exists>ce n. pq_Conn q = Some ce \<and> ce_Conn ce = Some n)"

definition answered :: "Query \<Rightarrow> bool" where
  "answered q \<longleftrightarrow> pq_Reply q \<noteq> None"

definition running :: "connPool \<Rightarrow> pstate \<Rightarrow> bool" where
  "running c s \<longleftrightarrow> \<not> ps_crashed s \<and> ps_cancelled s = {} \<and> ps_arrived s = [] \<and> pipe_inv s \<and>
     pc_connPool (pl_connector (ps_pl s)) = c"

text \<open>A pool without connections that has an upstream always asks to dial it.\<close>

definition fresh_pool :: "connPool \<Rightarrow> bool" where
  "fresh_pool c \<longleftrightarrow> cp_cache c = fmempty \<and> named_upstreams c \<and> cp_upstreams c \<noteq> []"

lemma fresh_Get:
  assumes "fresh_pool c"
  obtains u where "connPool_Get clk c = Ok ((zero_connEntry, u), c)" "u \<noteq> zero_Upstream"
proof -
  obtain p ps where ps: "cp_upstreams c = p # ps"
    using assms by (auto simp: fresh_pool_def neq_Nil_conv)
  have loop: "getBestUpstream_loop clk' c qs best = Inr best" for clk' qs best
    using assms by (induction qs arbitrary: clk') (simp_all add: fresh_pool_def Let_def)
  have "getBestUpstream clk c = Ok (cp_store c p)"
    unfolding getBestUpstream_def loop by (simp add: ps)
  moreover have "cp_store c p \<noteq> zero_Upstream"
    using assms ps by (auto simp: fresh_pool_def named_upstreams_def zero_Upstream_def)
  ultimately show thesis
    using assms by (intro that) (auto simp: connPool_Get_def fresh_pool_def Let_def)
qed

lemma fresh_Assign:
  assumes "fresh_pool c" and "dialling e" and "k < max_retries cfg" and "asks k q"
  obtains q' where "AssignConnection cfg (re_clk e) (re_calls e) c q = Ok ((q', None), c)" "has_conn (k + 1) q'"
proof -
  obtain u where g: "connPool_Get (re_clk e) c = Ok ((zero_connEntry, u), c)" "u \<noteq> zero_Upstream"
    by (rule fresh_Get [OF assms(1)])
  obtain n where n: "cc_Dial (re_calls e 0) (Upstream_GetAddress u) = Inr n"
    using assms(2) unfolding dialling_def by blast
  obtain m where m: "nat (max_retries cfg - k) = Suc m"
    using assms(3) by (metis Suc_pred diff_gt_0_iff_gt zero_less_nat_eq)
  obtain ce where ce: "AssignConnection_loop cfg u (re_calls e) (nat (max_retries cfg - k)) 0 (zero_connEntry, None, k, None) c
      = ((ce, None, k + 1, None), c)" "ce_Conn ce = Some n"
    unfolding m using n by (simp add: connPool_NewConnection_def Let_def)
  show thesis
    using assms(4) g ce
    by (intro that [of "q\<lparr>pq_ConnectionRetries := k + 1, pq_Conn := Some ce\<rparr>"])
      (auto simp: AssignConnection_def asks_def has_conn_def Let_def max_retries_def)
qed

lemma exhausted_Assign:
  assumes "fresh_pool c" and "max_retries cfg \<le> pq_ConnectionRetries q"
  shows "AssignConnection cfg clk calls c q = Ok ((q\<lparr>pq_Conn := Some zero_connEntry\<rparr>, None), c)"
proof -
  obtain u where g: "connPool_Get clk c = Ok ((zero_connEntry, u), c)" "u \<noteq> zero_Upstream"
    by (rule fresh_Get [OF assms(1)])
  have "nat (max_retries cfg - pq_ConnectionRetries q) = 0" using assms(2) by simp
  with g show ?thesis
    unfolding AssignConnection_def by (simp add: Let_def max_retries_def)
qed

lemma stage_cacher:
  fixes r :: Msg
  assumes "running c s" and "ps_pending s Cacher = []" and "E e" and "m_Question r \<noteq> []" and "listens r"
  shows "\<exists>s' q. (pipe_step lib cfg srt listens E)\<^sup>*\<^sup>* s s' \<and> running c s' \<and> asks 0 q \<and>
    ps_pending s' = (ps_pending s)(Cacher := [(Inbound Connector, q)]) \<and> ps_written s' = ps_written s \<and>
    ps_requests s' = ps_requests s @ [0]"
proof -
  obtain q w1 where b: "Handler_begin r 0 (ps_world s) = (q, w1)" by (rule prod.exhaust)
  have q: "asks 0 q" using b assms(4) by (auto simp: Handler_begin_def Let_def asks_def zero_Query_def)
  let ?s1 = "s\<lparr>ps_world := w1, ps_arrived := ps_arrived s @ [q], ps_requests := ps_requests s @ [0]\<rparr>"
  have 1: "pipe_step lib cfg srt listens E s ?s1"
    by (rule pipe_step.p_arrive [where listens=listens, OF _ assms(5) b]) (use assms(1) in \<open>simp add: running_def\<close>)
  have inv: "pipe_inv s" and w: "wired (ps_pl s)" using assms(1) by (simp_all add: running_def pipe_inv_def)
  let ?s2 = "?s1\<lparr>ps_arrived := [] @ [], ps_world := Handler_end (ps_world ?s1)\<rparr>"
  have off: "offers ?s1 (Inbound Cacher) q ?s2"
    using offers.off_handler [of ?s1 "[]" q "[]"] assms(1) by (simp add: running_def wired_simps [OF w])
  obtain ph w2 where arm: "Cacher_inbound lib (re_oob e) (re_clk e) (pl_cacher (ps_pl s)) q (ps_world ?s2)
      = ([(Inbound Connector, q)], ph, w2)" and ph: "ph = (pl_cacher (ps_pl s))\<lparr>ph_cache := ph_cache ph\<rparr>"
      "rc_cache (ph_cache ph) = fmempty"
    using inv by (auto simp: pipe_inv_def Cacher_inbound_def empty_cache_miss Fail_def wired_simps)
  let ?s3 = "?s2\<lparr>ps_pl := (ps_pl ?s2)\<lparr>pl_cacher := ph\<rparr>, ps_world := w2,
      ps_pending := (ps_pending ?s2)(Cacher := [(Inbound Connector, q)]), ps_written := ps_written ?s2 @ []\<rparr>"
  have 2: "pipe_step lib cfg srt listens E ?s1 ?s3"
    by (rule pipe_step.p_receive [where E=E and e=e, OF _ assms(3) off])
      (use assms(1,2) arm in \<open>simp_all add: running_def arms [OF w]\<close>)
  have "running c ?s3"
    using assms(1) pipe_step_inv [OF 2 pipe_step_inv [OF 1 inv]] by (simp add: running_def)
  with 1 2 q show ?thesis
    by (intro exI [of _ ?s3] exI [of _ q]) (simp add: rtranclp.rtrancl_into_rtrancl r_into_rtranclp)
qed

text \<open>A worker takes what another offers, by one arm.\<close>

lemma stage_take:
  assumes "running c s" and "ps_pending s wk1 = [(ch, q)]" and "ps_pending s wk2 = []" and "wk1 \<noteq> wk2"
    and "E e" and "ch \<noteq> NilChan"
    and arm: "select_arm lib cfg srt e (ps_pl s) (ps_world s) wk2 ch q = Some (Ok (sends, out, pl, w))"
    and pool: "pc_connPool (pl_connector pl) = c"
  shows "\<exists>s'. pipe_step lib cfg srt listens E s s' \<and> running c s' \<and>
    ps_pending s' = (ps_pending s)(wk1 := [], wk2 := sends) \<and> ps_written s' = ps_written s @ out \<and>
    ps_requests s' = ps_requests s"
proof -
  let ?s1 = "s\<lparr>ps_pending := (ps_pending s)(wk1 := [])\<rparr>"
  let ?s2 = "?s1\<lparr>ps_pl := pl, ps_world := w, ps_pending := (ps_pending ?s1)(wk2 := sends),
      ps_written := ps_written ?s1 @ out\<rparr>"
  have step: "pipe_step lib cfg srt listens E s ?s2"
    by (rule pipe_step.p_receive [where E=E and e=e, OF _ assms(5) offers.off_worker [OF assms(2)] assms(6,3)])
      (use assms(1) arm in \<open>simp_all add: running_def\<close>)
  have "running c ?s2"
    using assms(1) pipe_step_inv [OF step] pool by (simp add: running_def)
  with step show ?thesis by (intro exI [of _ ?s2]) simp
qed

lemma stage_connector:
  assumes "running c s" and "fresh_pool c" and "dialling e" and "E e" and "k < max_retries cfg"
    and "ps_pending s wk = [(Inbound Connector, q)]" and "asks k q" and "ps_pending s Connector = []"
  shows "\<exists>s' q'. pipe_step lib cfg srt listens E s s' \<and> running c s' \<and> has_conn (k + 1) q' \<and>
    ps_pending s' = (ps_pending s)(wk := [], Connector := [(Inbound Querier, q')]) \<and>
    ps_written s' = ps_written s \<and> ps_requests s' = ps_requests s"
proof -
  have w: "wired (ps_pl s)" and c: "pc_connPool (pl_connector (ps_pl s)) = c"
    using assms(1) by (simp_all add: running_def pipe_inv_def)
  have wk: "wk \<noteq> Connector" using assms(6,8) by auto
  obtain q' where q': "AssignConnection cfg (re_clk e) (re_calls e) c q = Ok ((q', None), c)" "has_conn (k + 1) q'"
    by (rule fresh_Assign [OF assms(2,3,5,7)])
  have "select_arm lib cfg srt e (ps_pl s) (ps_world s) Connector (Inbound Connector) q
      = Some (Ok ([(Inbound Querier, q')], [],
          (ps_pl s)\<lparr>pl_connector := (pl_connector (ps_pl s))\<lparr>pc_connPool := c\<rparr>\<rparr>, ps_world s))"
    by (simp add: arms [OF w] Connector_inbound_def c q'(1) Dispatch_def wired_simps [OF w])
  from stage_take [where E=E and e=e, OF assms(1,6,8) wk assms(4) _ this] q'(2) show ?thesis by fastforce
qed

lemma stage_querier:
  assumes "running c s" and "errorless e" and "E e"
    and "ps_pending s Connector = [(Inbound Querier, q)]" and "has_conn k q" and "ps_pending s Querier = []"
  shows "\<exists>s' q'. pipe_step lib cfg srt listens E s s' \<and> running c s' \<and> answered q' \<and>
    ps_pending s' = (ps_pending s)(Connector := [], Querier := [(Inbound Finisher, q')]) \<and>
    ps_written s' = ps_written s \<and> ps_requests s' = ps_requests s"
proof -
  have w: "wired (ps_pl s)" and c: "pc_connPool (pl_connector (ps_pl s)) = c"
    using assms(1) by (simp_all add: running_def pipe_inv_def)
  obtain msg ce n qn qs where q: "pq_Msg q = Some msg" "m_Question msg = qn # qs" "pq_Conn q = Some ce" "ce_Conn ce = Some n"
    using assms(5) by (auto simp: has_conn_def asks_def neq_Nil_conv)
  have x: "\<exists>reply rtt st1. re_Exchange e m n st = ((reply, rtt, None), st1)" for m st
    using assms(2) unfolding errorless_def by (metis prod.collapse)
  have "\<exists>q' w'. Querier_Query lib cfg (re_Exchange e) q (ps_world s) = Ok ((q', None), w') \<and> answered q'"
  proof -
    obtain reply rtt st1 where y: "re_Exchange e ((lib_SetQuestion lib zero_Msg (q_Name qn) (q_Qtype qn))
        \<lparr>m_RecursionDesired := True\<rparr>) n (w_store (ps_world s)) = ((reply, rtt, None), st1)"
      using x by blast
    obtain copy st2 where "lib_Copy lib reply st1 = (copy, st2)" by (rule prod.exhaust)
    then show ?thesis
      by (simp add: Querier_Query_def Let_def q attemptExchange_def GetConn_def y answered_def)
  qed
  then obtain q' w' where q': "Querier_Query lib cfg (re_Exchange e) q (ps_world s) = Ok ((q', None), w')" "answered q'"
    by blast
  have "select_arm lib cfg srt e (ps_pl s) (ps_world s) Querier (Inbound Querier) q
      = Some (Ok ([(Inbound Finisher, q')], [], ps_pl s, w'))"
    by (simp add: arms [OF w] Querier_inbound_def q'(1) Dispatch_def wired_simps [OF w])
  from stage_take [where E=E and e=e, OF assms(1,4,6) _ assms(3) _ this c] q'(2) show ?thesis by fastforce
qed

lemma stage_finisher:
  assumes "running c s" and "E e"
    and "ps_pending s Querier = [(Inbound Finisher, q)]" and "answered q" and "ps_pending s Finisher = []"
  shows "\<exists>s'. pipe_step lib cfg srt listens E s s' \<and> running c s' \<and>
    ps_pending s' = (ps_pending s)(Querier := [], Finisher := [(Adding, q)]) \<and>
    (\<exists>wr. ps_written s' = ps_written s @ [(pq_W q, Some wr)])"
proof -
  have w: "wired (ps_pl s)" and c: "pc_connPool (pl_connector (ps_pl s)) = c"
    using assms(1) by (simp_all add: running_def pipe_inv_def)
  obtain reply where r: "pq_Reply q = Some reply" using assms(4) by (auto simp: answered_def)
  obtain w' where "select_arm lib cfg srt e (ps_pl s) (ps_world s) Finisher (Inbound Finisher) q
      = Some (Ok ([(Adding, q)], [(pq_W q, Some (on_wire (w_store (ps_world s)) reply))], ps_pl s, w'))"
    by (simp add: arms [OF w] Finisher_inbound_def r Dispatch_def wired_simps [OF w] Let_def)
  from stage_take [where E=E and e=e, OF assms(1,3,5) _ assms(2) _ this c] show ?thesis by fastforce
qed

text \<open>A whole query up to the connector, and up to the querier.\<close>

lemma reach_connector:
  fixes r :: Msg
  assumes "running c s" and "fresh_pool c" and "dialling e" and "E e" and "0 < max_retries cfg"
    and "m_Question r \<noteq> []" and "listens r" and "ps_pending s Cacher = []" "ps_pending s Connector = []"
  shows "\<exists>s' q. (pipe_step lib cfg srt listens E)\<^sup>*\<^sup>* s s' \<and> running c s' \<and> has_conn 1 q \<and>
    ps_pending s' = (ps_pending s)(Connector := [(Inbound Querier, q)]) \<and> ps_written s' = ps_written s \<and>
    ps_requests s' = ps_requests s @ [0]"
proof -
  obtain s1 q where 1: "(pipe_step lib cfg srt listens E)\<^sup>*\<^sup>* s s1" "running c s1" "asks 0 q"
      "ps_pending s1 = (ps_pending s)(Cacher := [(Inbound Connector, q)])" "ps_written s1 = ps_written s"
      "ps_requests s1 = ps_requests s @ [0]"
    using stage_cacher [where E=E and listens=listens, OF assms(1,8,4,6,7)] by blast
  have pend: "ps_pending s1 Cacher = [(Inbound Connector, q)]" "ps_pending s1 Connector = []"
    using 1(4) assms(9) by simp_all
  obtain s2 q' where 2: "pipe_step lib cfg srt listens E s1 s2" "running c s2" "has_conn 1 q'"
      "ps_pending s2 = (ps_pending s1)(Cacher := [], Connector := [(Inbound Querier, q')])"
      "ps_written s2 = ps_written s1" "ps_requests s2 = ps_requests s1"
    using stage_connector [where E=E and k=0, simplified, OF 1(2) assms(2,3,4,5) pend(1) 1(3) pend(2)] by blast
  have "(pipe_step lib cfg srt listens E)\<^sup>*\<^sup>* s s2" by (rule rtranclp.rtrancl_into_rtrancl [OF 1(1) 2(1)])
  moreover have "ps_pending s2 = (ps_pending s)(Connector := [(Inbound Querier, q')])"
    using 1(4) 2(4) assms(8) by (simp add: fun_eq_iff)
  ultimately show ?thesis using 1(5,6) 2(2,3,5,6) by auto
qed

lemma reach_querier:
  fixes r :: Msg
  assumes "running c s" and "fresh_pool c" and "errorless e" and "E e" and "0 < max_retries cfg"
    and "m_Question r \<noteq> []" and "listens r" and "ps_pending s Cacher = []" "ps_pending s Connector = []"
    and "ps_pending s Querier = []"
  shows "\<exists>s' q. (pipe_step lib cfg srt listens E)\<^sup>*\<^sup>* s s' \<and> running c s' \<and> answered q \<and>
    ps_pending s' = (ps_pending s)(Querier := [(Inbound Finisher, q)]) \<and> ps_written s' = ps_written s"
proof -
  have dial: "dialling e" using assms(3) by (simp add: errorless_def)
  obtain s1 q where 1: "(pipe_step lib cfg srt listens E)\<^sup>*\<^sup>* s s1" "running c s1" "has_conn 1 q"
      "ps_pending s1 = (ps_pending s)(Connector := [(Inbound Querier, q)])" "ps_written s1 = ps_written s"
    using reach_connector [where E=E and listens=listens, OF assms(1,2) dial assms(4-9)] by blast
  have pend: "ps_pending s1 Connector = [(Inbound Querier, q)]" "ps_pending s1 Querier = []"
    using 1(4) assms(10) by simp_all
  obtain s2 q' where 2: "pipe_step lib cfg srt listens E s1 s2" "running c s2" "answered q'"
      "ps_pending s2 = (ps_pending s1)(Connector := [], Querier := [(Inbound Finisher, q')])"
      "ps_written s2 = ps_written s1"
    using stage_querier [where E=E, OF 1(2) assms(3,4) pend(1) 1(3) pend(2)] by blast
  have "(pipe_step lib cfg srt listens E)\<^sup>*\<^sup>* s s2" by (rule rtranclp.rtrancl_into_rtrancl [OF 1(1) 2(1)])
  moreover have "ps_pending s2 = (ps_pending s)(Querier := [(Inbound Finisher, q')])"
    using 1(4) 2(4) assms(9) by (simp add: fun_eq_iff)
  ultimately show ?thesis using 1(5) 2(2,3,5) by auto
qed

text \<open>A server that has just been built.\<close>

lemma connector_upstreams_pool:
  assumes "named_upstreams (pc_connPool pc)" and "\<forall>u\<in>set (cp_upstreams (pc_connPool pc)). u < p" and "[] \<notin> set names"
  shows "named_upstreams (pc_connPool (connector_upstreams pc p names)) \<and>
    length (cp_upstreams (pc_connPool (connector_upstreams pc p names))) =
      length (cp_upstreams (pc_connPool pc)) + length names"
  using assms
proof (induction names arbitrary: pc p)
  case (Cons name names)
  let ?pc = "Connector_AddUpstream (pc\<lparr>pc_connPool := (pc_connPool pc)
      \<lparr>cp_store := (cp_store (pc_connPool pc))(p := zero_Upstream\<lparr>up_Name := name\<rparr>)\<rparr>\<rparr>) p"
  have "named_upstreams (pc_connPool ?pc)" "\<forall>u\<in>set (cp_upstreams (pc_connPool ?pc)). u < p + 1"
    using Cons.prems
    by (auto simp: named_upstreams_def Connector_AddUpstream_def connPool_AddUpstream_def less_Suc_eq)
  from Cons.IH [OF this] Cons.prems(3) show ?case
    by (simp add: Let_def Connector_AddUpstream_def connPool_AddUpstream_def)
qed simp

lemma new_pipeline_running:
  assumes "NewPipelineServer cfg None = Inr (pl, chans)" and "cfg_Upstreams cfg \<noteq> []" and "[] \<notin> set (cfg_Upstreams cfg)"
  obtains c where "running c (pipe_start pl st)" "fresh_pool c"
proof
  let ?c = "pc_connPool (pl_connector pl)"
  let ?pc = "\<lparr>pc_worker = NewPipelineServerWorker Connector, pc_connPool = NewConnPool (\<lambda>_. zero_Upstream),
      pc_addingChannel = Adding, pc_closingChannel = Closing\<rparr>"
  have c: "?c = pc_connPool (connector_upstreams ?pc 0 (cfg_Upstreams cfg))"
    using assms(1) by (auto simp: NewPipelineServer_def Let_def)
  have "named_upstreams ?c \<and> length (cp_upstreams ?c) = length (cfg_Upstreams cfg)"
    unfolding c using connector_upstreams_pool [of ?pc 0 "cfg_Upstreams cfg"] assms(3)
    by (simp add: NewConnPool_def named_upstreams_def)
  then show "fresh_pool ?c"
    using assms(2) by (auto simp: fresh_pool_def c NewConnPool_def)
  show "running ?c (pipe_start pl st)"
    using pipe_reach_inv [OF rtranclp.rtrancl_refl assms(1)] by (simp add: running_def pipe_start_def)
qed

text \<open>
  C15. Successful queries alone bring the pipeline to a standstill: whenever nothing fails a new server can reach a state, after one answer, in which the connector waits
  for the querier, the querier for the finisher, and the finisher for the connector, and from which
  nothing is ever answered again.
\<close>

theorem successful_queries_deadlock:
  fixes r :: Msg
  assumes "NewPipelineServer cfg None = Inr (pl, chans)" and "cfg_Upstreams cfg \<noteq> []" and "[] \<notin> set (cfg_Upstreams cfg)"
    and "0 \<le> cfg_UpstreamRetries cfg" and "errorless e" and "E e" and "listens r" and "m_Question r \<noteq> []"
  shows "\<exists>s. (pipe_step lib cfg srt listens E)\<^sup>*\<^sup>* (pipe_start pl st) s \<and> \<not> ps_crashed s \<and> length (ps_written s) = 1 \<and>
    (\<forall>s'. (pipe_step lib cfg srt listens E)\<^sup>*\<^sup>* s s' \<longrightarrow> ps_written s' = ps_written s \<and>
       (\<exists>q1 q2 q3. ps_pending s' Connector = [(Inbound Querier, q1)] \<and>
          ps_pending s' Querier = [(Inbound Finisher, q2)] \<and> ps_pending s' Finisher = [(Adding, q3)]))"
proof -
  obtain c where c: "running c (pipe_start pl st)" "fresh_pool c"
    by (rule new_pipeline_running [OF assms(1-3)])
  note r = assms(8,7)
  have "0 < max_retries cfg" using assms(4) by (simp add: max_retries_def)
  note ok = c(2) assms(5,6) this r
  have dial: "dialling e" using assms(5) by (simp add: errorless_def)
  have p0: "ps_pending (pipe_start pl st) = (\<lambda>_. [])" "ps_written (pipe_start pl st) = []"
    by (simp_all add: pipe_start_def)
  obtain s1 q1 where 1: "(pipe_step lib cfg srt listens E)\<^sup>*\<^sup>* (pipe_start pl st) s1" "running c s1" "answered q1"
      "ps_pending s1 = (\<lambda>_. [])(Querier := [(Inbound Finisher, q1)])" "ps_written s1 = []"
    using reach_querier [where E=E and cfg=cfg and srt=srt and listens=listens, OF c(1) ok] unfolding p0 by simp blast
  have pend1: "ps_pending s1 Querier = [(Inbound Finisher, q1)]" "ps_pending s1 Finisher = []"
    using 1(4) by simp_all
  obtain s2 wr where 2: "pipe_step lib cfg srt listens E s1 s2" "running c s2"
      "ps_pending s2 = (ps_pending s1)(Querier := [], Finisher := [(Adding, q1)])"
      "ps_written s2 = ps_written s1 @ [(pq_W q1, Some wr)]"
    using stage_finisher [where E=E, OF 1(2) assms(6) pend1(1) 1(3) pend1(2)] by blast
  have pend2: "ps_pending s2 = (\<lambda>_. [])(Finisher := [(Adding, q1)])"
    using 1(4) 2(3) by (simp add: fun_eq_iff)
  then have idle2: "ps_pending s2 Cacher = []" "ps_pending s2 Connector = []" "ps_pending s2 Querier = []"
    by simp_all
  obtain s3 q2 where 3: "(pipe_step lib cfg srt listens E)\<^sup>*\<^sup>* s2 s3" "running c s3"
      "ps_pending s3 = (ps_pending s2)(Querier := [(Inbound Finisher, q2)])" "ps_written s3 = ps_written s2"
    using reach_querier [where E=E and cfg=cfg and listens=listens, OF 2(2) ok idle2] by blast
  have idle3: "ps_pending s3 Cacher = []" "ps_pending s3 Connector = []"
    using 3(3) pend2 by simp_all
  obtain s4 q3 where 4: "(pipe_step lib cfg srt listens E)\<^sup>*\<^sup>* s3 s4" "running c s4"
      "ps_pending s4 = (ps_pending s3)(Connector := [(Inbound Querier, q3)])" "ps_written s4 = ps_written s3"
    using reach_connector [where E=E and cfg=cfg and listens=listens, OF 3(2) ok(1) dial ok(3-6) idle3] by blast
  have reach: "(pipe_step lib cfg srt listens E)\<^sup>*\<^sup>* (pipe_start pl st) s4"
    using 1(1) 2(1) 3(1) 4(1) by (meson rtranclp.rtrancl_into_rtrancl rtranclp_trans)
  have stuck: "stuck {Connector, Querier, Finisher} s4"
    using 4(3) 3(3) pend2 by (simp add: stuck_def)
  have inv: "pipe_inv s4" and alive: "\<not> ps_crashed s4" using 4(2) by (simp_all add: running_def)
  have "ps_written s' = ps_written s4 \<and>
       (\<exists>q1 q2 q3. ps_pending s' Connector = [(Inbound Querier, q1)] \<and>
          ps_pending s' Querier = [(Inbound Finisher, q2)] \<and> ps_pending s' Finisher = [(Adding, q3)])"
    if "(pipe_step lib cfg srt listens E)\<^sup>*\<^sup>* s4 s'" for s'
    using stuck_run [OF that inv stuck] 4(3) 3(3) pend2 by simp
  then show ?thesis
    using reach alive 2(4) 3(4) 4(4) 1(5) by (intro exI [of _ s4]) simp
qed

section \<open>An unreachable upstream\<close>

text \<open>The connector blocked on its nil channel, and every other query on its way to the connector.\<close>

definition halted :: "connPool \<Rightarrow> pstate \<Rightarrow> bool" where
  "halted c s \<longleftrightarrow> pipe_inv s \<and> (\<exists>q rest. ps_pending s Connector = (NilChan, q) # rest) \<and>
     (\<forall>wk\<in>{Handler, Querier, Finisher}. ps_pending s wk = []) \<and>
     (\<forall>(ch, q)\<in>set (ps_pending s Cacher). ch = Inbound Connector) \<and>
     ps_written s = [] \<and> pc_connPool (pl_connector (ps_pl s)) = c"

lemma halted_offers:
  assumes "offers s ch q s1" and "halted c s" and "ch \<noteq> NilChan"
  shows "ch \<in> {Inbound Cacher, Inbound Connector} \<and>
    (\<forall>wk. wk \<noteq> Cacher \<longrightarrow> ps_pending s1 wk = ps_pending s wk)"
  using assms(1)
proof cases
  case (off_handler xs ys)
  with assms(2) show ?thesis by (simp add: halted_def pipe_inv_def wired_simps)
next
  case (off_worker wk r)
  with assms(2,3) show ?thesis by (cases wk) (auto simp: halted_def)
qed

lemma halted_receiver:
  assumes "offers s ch q s1" and "halted c s" and "ch \<noteq> NilChan" and "ps_pending s wk = []"
    and "select_arm lib cfg srt e (ps_pl s1) (ps_world s1) wk ch q = Some res"
  shows "ch = Inbound Cacher \<and> wk = Cacher"
proof -
  have w: "wired (ps_pl s1)"
    using offers_inv [OF assms(1)] assms(2) by (simp add: halted_def pipe_inv_def)
  have "ch = Inbound wk" using select_arm_channel [OF assms(5) w assms(3)] halted_offers [OF assms(1-3)] by auto
  with halted_offers [OF assms(1-3)] assms(2,4) show ?thesis by (auto simp: halted_def)
qed

lemma halted_step:
  assumes "pipe_step lib cfg srt listens E s s'" and "halted c s"
  shows "halted c s'"
proof -
  have inv: "pipe_inv s'" using pipe_step_inv [OF assms(1)] assms(2) by (simp add: halted_def)
  show ?thesis
    using assms(1)
  proof cases
    case (p_receive e ch q s1 wk sends out pl w)
    note o = halted_offers [OF p_receive(4) assms(2) p_receive(5)]
    have same: "ps_pl s1 = ps_pl s" "ps_written s1 = ps_written s"
      using offers_inv [OF p_receive(4)] assms(2) by (auto simp: halted_def)
    have wk: "ch = Inbound Cacher" "wk = Cacher"
      using halted_receiver [OF p_receive(4) assms(2) p_receive(5,6,8)] by auto
    have w: "wired (ps_pl s)" and empty: "rc_cache (ph_cache (pl_cacher (ps_pl s))) = fmempty"
      using assms(2) by (simp_all add: halted_def pipe_inv_def)
    have "sends = [(Inbound Connector, q)] \<and> out = [] \<and> pl_connector pl = pl_connector (ps_pl s)"
      using p_receive(8)
      by (auto simp: wk same arms [OF w] Cacher_inbound_def empty_cache_miss [OF empty] Fail_def wired_simps [OF w])
    with p_receive(1) wk o same inv assms(2) show ?thesis by (auto simp: halted_def)
  next
    case (p_crash e ch q s1 wk reason)
    have wk: "ch = Inbound Cacher" "wk = Cacher"
      using halted_receiver [OF p_crash(4) assms(2) p_crash(5,6,8)] by auto
    have "wired (ps_pl s1)"
      using offers_inv [OF p_crash(4)] assms(2) by (simp add: halted_def pipe_inv_def)
    with p_crash(8) show ?thesis by (simp add: wk arms split: prod.splits)
  qed (use assms(2) inv in \<open>auto simp: halted_def\<close>)
qed

lemma halted_run:
  "(pipe_step lib cfg srt listens E)\<^sup>*\<^sup>* s s' \<Longrightarrow> halted c s \<Longrightarrow> halted c s'"
  by (induction rule: rtranclp_induct) (auto intro: halted_step)

definition unreachable :: "round_env \<Rightarrow> bool" where
  "unreachable e \<longleftrightarrow> (\<forall>j a. \<exists>x. cc_Dial (re_calls e j) a = Inl x)"

lemma unreachable_loop:
  assumes "unreachable e" and "err \<noteq> None \<or> 0 < k"
  shows "\<exists>ce' x retr' fin' c'. AssignConnection_loop cfg u (re_calls e) k j (ce, err, retr, fin) c
    = ((ce', Some x, retr', fin'), c')"
  using assms(2)
proof (induction k arbitrary: j ce err retr fin c)
  case (Suc k)
  obtain x where x: "cc_Dial (re_calls e j) (Upstream_GetAddress u) = Inl x"
    using assms(1) unfolding unreachable_def by blast
  obtain ce1 y c1 where "connPool_NewConnection cfg (cc_now (re_calls e j)) c u (cc_Dial (re_calls e j))
      (cc_dialDuration (re_calls e j)) = ((ce1, Some y), c1)"
    using x by (cases "getUpstreamByAddress c (Upstream_GetAddress u)") (simp_all add: connPool_NewConnection_def Let_def)
  with Suc.IH [of "Some y"] show ?case by simp
qed auto

lemma unreachable_Assign:
  assumes "fresh_pool c" and "unreachable e" and "pq_ConnectionRetries q < max_retries cfg"
  obtains qa x c' where "AssignConnection cfg (re_clk e) (re_calls e) c q = Ok ((qa, Some x), c')"
proof -
  obtain u where g: "connPool_Get (re_clk e) c = Ok ((zero_connEntry, u), c)" "u \<noteq> zero_Upstream"
    by (rule fresh_Get [OF assms(1)])
  obtain ce x retr fin c' where l: "AssignConnection_loop cfg u (re_calls e) (nat (max_retries cfg - pq_ConnectionRetries q))
      0 (zero_connEntry, None, pq_ConnectionRetries q, None) c = ((ce, Some x, retr, fin), c')"
    using unreachable_loop [OF assms(2)] assms(3) by (meson zero_less_diff zero_less_nat_eq diff_gt_0_iff_gt)
  show thesis
    using g l unfolding max_retries_def by (intro that) (simp add: AssignConnection_def Let_def)
qed

text \<open>
  C16. An upstream that cannot be dialled stops the pipeline for good with its first query: the
  connector blocks on a nil channel, where the wiring meant the finisher's channel for servfails, and
  from then on no client ever gets an answer, a SERVFAIL included.
\<close>

theorem unreachable_upstream_stops_pipeline:
  fixes r :: Msg
  assumes "NewPipelineServer cfg None = Inr (pl, chans)" and "cfg_Upstreams cfg \<noteq> []" and "[] \<notin> set (cfg_Upstreams cfg)"
    and "0 \<le> cfg_UpstreamRetries cfg" and "unreachable e" and "E e" and "listens r" and "m_Question r \<noteq> []"
  shows "\<exists>s. (pipe_step lib cfg srt listens E)\<^sup>*\<^sup>* (pipe_start pl st) s \<and> \<not> ps_crashed s \<and>
    (\<forall>s'. (pipe_step lib cfg srt listens E)\<^sup>*\<^sup>* s s' \<longrightarrow> ps_written s' = [] \<and>
       (\<exists>q rest. ps_pending s' Connector = (NilChan, q) # rest))"
proof -
  obtain c where c: "running c (pipe_start pl st)" "fresh_pool c"
    by (rule new_pipeline_running [OF assms(1-3)])
  note r = assms(8,7)
  have p0: "ps_pending (pipe_start pl st) = (\<lambda>_. [])" "ps_written (pipe_start pl st) = []"
    by (simp_all add: pipe_start_def)
  obtain s1 q where 1: "(pipe_step lib cfg srt listens E)\<^sup>*\<^sup>* (pipe_start pl st) s1" "running c s1" "asks 0 q"
      "ps_pending s1 = (\<lambda>_. [])(Cacher := [(Inbound Connector, q)])" "ps_written s1 = []"
    using stage_cacher [where E=E and lib=lib and cfg=cfg and srt=srt and listens=listens, OF c(1) _ assms(6) r] unfolding p0 by simp blast
  have w: "wired (ps_pl s1)" and alive: "\<not> ps_crashed s1" "Connector \<notin> ps_cancelled s1" and inv: "pipe_inv s1"
      and pool: "pc_connPool (pl_connector (ps_pl s1)) = c"
    using 1(2) by (simp_all add: running_def pipe_inv_def)
  have "pq_ConnectionRetries q < max_retries cfg" using 1(3) assms(4) by (simp add: asks_def max_retries_def)
  then obtain qa x c' where a: "AssignConnection cfg (re_clk e) (re_calls e) c q = Ok ((qa, Some x), c')"
    by (rule unreachable_Assign [OF c(2) assms(5)])
  let ?s = "s1\<lparr>ps_pending := (ps_pending s1)(Cacher := [])\<rparr>"
  let ?pl = "(ps_pl s1)\<lparr>pl_connector := (pl_connector (ps_pl s1))\<lparr>pc_connPool := c'\<rparr>\<rparr>"
  have arm: "select_arm lib cfg srt e (ps_pl ?s) (ps_world ?s) Connector (Inbound Connector) q
      = Some (Ok ([(NilChan, q), (Inbound Querier, qa)], [], ?pl, ps_world s1))"
    by (simp add: arms [OF w] Connector_inbound_def pool a Fail_def Dispatch_def wired_simps [OF w])
  have pend: "ps_pending s1 Cacher = [(Inbound Connector, q)]" "ps_pending s1 Connector = []"
    using 1(4) by simp_all
  obtain s2 where 2: "pipe_step lib cfg srt listens E s1 s2" "\<not> ps_crashed s2" "ps_written s2 = []"
      "ps_pending s2 = (\<lambda>_. [])(Connector := [(NilChan, q), (Inbound Querier, qa)])"
      "pc_connPool (pl_connector (ps_pl s2)) = c'"
    using pipe_step.p_receive [where E=E and e=e, OF alive(1) assms(6) offers.off_worker [OF pend(1)] _ pend(2) alive(2) arm]
      1(4,5) alive(1) by (force simp: fun_eq_iff)
  then have "halted c' s2" using pipe_step_inv [OF 2(1) inv] by (simp add: halted_def)
  then have "halted c' s'" if "(pipe_step lib cfg srt listens E)\<^sup>*\<^sup>* s2 s'" for s' by (rule halted_run [OF that])
  then have "ps_written s' = [] \<and> (\<exists>q rest. ps_pending s' Connector = (NilChan, q) # rest)"
    if "(pipe_step lib cfg srt listens E)\<^sup>*\<^sup>* s2 s'" for s'
    using that unfolding halted_def by blast
  with 1(1) 2(1,2) show ?thesis by (meson rtranclp.rtrancl_into_rtrancl)
qed

section \<open>Retries\<close>

text \<open>A failed exchange sends the query back to the connector, which dials again.\<close>

lemma stage_failing:
  assumes "running c s" and "failing e" and "E e"
    and "ps_pending s Connector = [(Inbound Querier, q)]" and "has_conn k q" and "ps_pending s Querier = []"
  shows "\<exists>s' q'. pipe_step lib cfg srt listens E s s' \<and> running c s' \<and> asks k q' \<and>
    ps_pending s' = (ps_pending s)(Connector := [], Querier := [(Inbound Connector, q')]) \<and>
    ps_written s' = ps_written s \<and> ps_requests s' = ps_requests s"
proof -
  have w: "wired (ps_pl s)" and c: "pc_connPool (pl_connector (ps_pl s)) = c"
    using assms(1) by (simp_all add: running_def pipe_inv_def)
  obtain msg ce n qn qs where q: "pq_Msg q = Some msg" "m_Question msg = qn # qs" "pq_Conn q = Some ce" "ce_Conn ce = Some n"
    using assms(5) by (auto simp: has_conn_def asks_def neq_Nil_conv)
  obtain reply rtt x st1 where y: "re_Exchange e ((lib_SetQuestion lib zero_Msg (q_Name qn) (q_Qtype qn))
        \<lparr>m_RecursionDesired := True\<rparr>) n (w_store (ps_world s)) = ((reply, rtt, Some x), st1)"
    using assms(2) unfolding failing_def by (metis option.exhaust prod.collapse)
  obtain q' w' where q': "Querier_inbound lib cfg (re_Exchange e) (pl_querier (ps_pl s)) q (ps_world s)
      = Ok ([(Inbound Connector, q')], w')" "asks k q'"
    using assms(5)
    by (simp add: Querier_inbound_def Querier_Query_def Let_def q attemptExchange_def GetConn_def y Fail_def
        wired_simps [OF w] has_conn_def asks_def)
  have "select_arm lib cfg srt e (ps_pl s) (ps_world s) Querier (Inbound Querier) q
      = Some (Ok ([(Inbound Connector, q')], [], ps_pl s, w'))"
    by (simp add: arms [OF w] q'(1))
  from stage_take [where E=E and e=e, OF assms(1,4,6) _ assms(3) _ this c] q'(2) show ?thesis by fastforce
qed

text \<open>Rounds of failed exchanges, until no retry is left.\<close>

lemma reach_exhausted:
  assumes "running c s" and "fresh_pool c" and "failing e" and "E e"
    and "ps_pending s Connector = [(Inbound Querier, q)]" and "ps_pending s Querier = []"
    and "has_conn k q" and "k \<le> max_retries cfg"
  shows "\<exists>s' q'. (pipe_step lib cfg srt listens E)\<^sup>*\<^sup>* s s' \<and> running c s' \<and> asks (max_retries cfg) q' \<and>
    ps_pending s' Querier = [(Inbound Connector, q')] \<and> ps_pending s' Connector = [] \<and>
    ps_written s' = ps_written s \<and> ps_requests s' = ps_requests s"
  using assms
proof (induction "nat (max_retries cfg - k)" arbitrary: k s q)
  case 0
  then have k: "k = max_retries cfg" by simp
  obtain s1 q1 where 1: "pipe_step lib cfg srt listens E s s1" "running c s1" "asks k q1"
      "ps_pending s1 = (ps_pending s)(Connector := [], Querier := [(Inbound Connector, q1)])"
      "ps_written s1 = ps_written s" "ps_requests s1 = ps_requests s"
    using stage_failing [where E=E, OF 0(2,4,5,6,8,7)] by blast
  then show ?case unfolding k by (intro exI [of _ s1] exI [of _ q1]) simp
next
  case (Suc m)
  then have k: "k < max_retries cfg" and dial: "dialling e" by (simp_all add: failing_def)
  obtain s1 q1 where 1: "pipe_step lib cfg srt listens E s s1" "running c s1" "asks k q1"
      "ps_pending s1 = (ps_pending s)(Connector := [], Querier := [(Inbound Connector, q1)])"
      "ps_written s1 = ps_written s" "ps_requests s1 = ps_requests s"
    using stage_failing [where E=E, OF Suc(3,5,6,7,9,8)] by blast
  have pend1: "ps_pending s1 Querier = [(Inbound Connector, q1)]" "ps_pending s1 Connector = []"
    using 1(4) by simp_all
  obtain s2 q2 where 2: "pipe_step lib cfg srt listens E s1 s2" "running c s2" "has_conn (k + 1) q2"
      "ps_pending s2 = (ps_pending s1)(Querier := [], Connector := [(Inbound Querier, q2)])"
      "ps_written s2 = ps_written s1" "ps_requests s2 = ps_requests s1"
    using stage_connector [where E=E, OF 1(2) Suc(4) dial Suc(6) k pend1(1) 1(3) pend1(2)] by blast
  have pend2: "ps_pending s2 Connector = [(Inbound Querier, q2)]" "ps_pending s2 Querier = []"
    using 2(4) by simp_all
  have "m = nat (max_retries cfg - (k + 1))" "k + 1 \<le> max_retries cfg" using Suc(2) k by simp_all
  from Suc(1) [OF this(1) 2(2) Suc(4-6) pend2 2(3) this(2)] obtain s3 q3 where
    "(pipe_step lib cfg srt listens E)\<^sup>*\<^sup>* s2 s3" "running c s3" "asks (max_retries cfg) q3"
    "ps_pending s3 Querier = [(Inbound Connector, q3)]" "ps_pending s3 Connector = []" "ps_written s3 = ps_written s2"
    "ps_requests s3 = ps_requests s2"
    by blast
  with 1(1,5,6) 2(1,5,6) show ?case
    by (intro exI [of _ s3] exI [of _ q3]) (simp add: converse_rtranclp_into_rtranclp)
qed

text \<open>
  C17. An upstream that can be dialled but whose exchanges fail brings the whole process down with the
  first query, whatever request with a question that is: its retries are used up dialling, the connector
  then passes it on with a connection entry that has no connection and without an error, and the
  querier dereferences the nil connection. Nothing is ever written.
\<close>

theorem failing_exchanges_crash_process:
  fixes r :: Msg
  assumes "NewPipelineServer cfg None = Inr (pl, chans)" and "cfg_Upstreams cfg \<noteq> []" and "[] \<notin> set (cfg_Upstreams cfg)"
    and "0 \<le> cfg_UpstreamRetries cfg" and "failing e" and "E e" and "listens r" and "m_Question r \<noteq> []"
  shows "\<exists>s q ce s'. (pipe_step lib cfg srt listens E)\<^sup>*\<^sup>* (pipe_start pl st) s \<and> length (ps_requests s) = 1 \<and>
    ps_pending s Connector = [(Inbound Querier, q)] \<and> ps_pending s Querier = [] \<and>
    (\<exists>msg. pq_Msg q = Some msg \<and> m_Question msg \<noteq> []) \<and> pq_ConnectionRetries q = max_retries cfg \<and>
    pq_Conn q = Some ce \<and> ce_Conn ce = None \<and>
    (\<forall>xchg w. Querier_inbound lib cfg xchg (pl_querier (ps_pl s)) q w = Panic NilDereference) \<and>
    pipe_step lib cfg srt listens E s s' \<and> ps_crashed s' \<and> ps_written s' = [] \<and>
    (\<forall>s''. \<not> pipe_step lib cfg srt listens E s' s'')"
proof -
  obtain c where c: "running c (pipe_start pl st)" "fresh_pool c"
    by (rule new_pipeline_running [OF assms(1-3)])
  note r = assms(8,7)
  have ret: "0 < max_retries cfg" using assms(4) by (simp add: max_retries_def)
  have dial: "dialling e" using assms(5) by (simp add: failing_def)
  have p0: "ps_pending (pipe_start pl st) = (\<lambda>_. [])" "ps_written (pipe_start pl st) = []"
    "ps_requests (pipe_start pl st) = []"
    by (simp_all add: pipe_start_def)
  obtain s1 q1 where 1: "(pipe_step lib cfg srt listens E)\<^sup>*\<^sup>* (pipe_start pl st) s1" "running c s1" "has_conn 1 q1"
      "ps_pending s1 = (\<lambda>_. [])(Connector := [(Inbound Querier, q1)])" "ps_written s1 = []" "ps_requests s1 = [0]"
    using reach_connector [where lib=lib and E=E and cfg=cfg and srt=srt and listens=listens, OF c dial assms(6) ret r]
    unfolding p0 by simp blast
  have pend1: "ps_pending s1 Connector = [(Inbound Querier, q1)]" "ps_pending s1 Querier = []"
    using 1(4) by simp_all
  obtain s2 q2 where 2: "(pipe_step lib cfg srt listens E)\<^sup>*\<^sup>* s1 s2" "running c s2" "asks (max_retries cfg) q2"
      "ps_pending s2 Querier = [(Inbound Connector, q2)]" "ps_pending s2 Connector = []" "ps_written s2 = []"
      "length (ps_requests s2) = 1"
    using reach_exhausted [where lib=lib and E=E and cfg=cfg and srt=srt and listens=listens, OF 1(2) c(2) assms(5,6) pend1 1(3)] ret
      1(6) unfolding 1(5) by auto
  have w2: "wired (ps_pl s2)" and c2: "pc_connPool (pl_connector (ps_pl s2)) = c"
    using 2(2) by (simp_all add: running_def pipe_inv_def)
  let ?q = "q2\<lparr>pq_Conn := Some zero_connEntry\<rparr>"
  have "AssignConnection cfg (re_clk e) (re_calls e) c q2 = Ok ((?q, None), c)"
    by (rule exhausted_Assign [OF c(2)]) (use 2(3) in \<open>simp add: asks_def\<close>)
  then have arm2: "select_arm lib cfg srt e (ps_pl s2) (ps_world s2) Connector (Inbound Connector) q2
      = Some (Ok ([(Inbound Querier, ?q)], [],
          (ps_pl s2)\<lparr>pl_connector := (pl_connector (ps_pl s2))\<lparr>pc_connPool := c\<rparr>\<rparr>, ps_world s2))"
    by (simp add: arms [OF w2] Connector_inbound_def c2 Dispatch_def wired_simps [OF w2])
  obtain s3 where 3: "pipe_step lib cfg srt listens E s2 s3" "running c s3"
      "ps_pending s3 = (ps_pending s2)(Querier := [], Connector := [(Inbound Querier, ?q)])" "ps_written s3 = []"
      "length (ps_requests s3) = 1"
    using stage_take [where E=E and e=e and listens=listens, OF 2(2,4,5) _ assms(6) _ arm2] 2(6,7) by auto
  have w3: "wired (ps_pl s3)" and alive: "\<not> ps_crashed s3" "Querier \<notin> ps_cancelled s3"
    using 3(2) by (simp_all add: running_def pipe_inv_def)
  obtain msg where msg: "pq_Msg q2 = Some msg" "m_Question msg \<noteq> []" using 2(3) by (auto simp: asks_def)
  then have panic: "Querier_inbound lib cfg xchg (pl_querier (ps_pl s3)) ?q w = Panic NilDereference" for xchg w
    by (auto simp: Querier_inbound_def Querier_Query_def Let_def attemptExchange_def GetConn_def zero_connEntry_def
        neq_Nil_conv)
  then have arm3: "select_arm lib cfg srt e (ps_pl s3) (ps_world s3) Querier (Inbound Querier) ?q
      = Some (Panic NilDereference)"
    by (simp add: arms [OF w3] panic)
  have pend3: "ps_pending s3 Connector = [(Inbound Querier, ?q)]" "ps_pending s3 Querier = []"
    using 3(3) by simp_all
  let ?s4 = "s3\<lparr>ps_pending := (ps_pending s3)(Connector := []), ps_crashed := True\<rparr>"
  have 4: "pipe_step lib cfg srt listens E s3 ?s4"
    using pipe_step.p_crash [where E=E and e=e, OF alive(1) assms(6) offers.off_worker [OF pend3(1)] _ pend3(2) alive(2)]
      arm3 by simp
  have "(pipe_step lib cfg srt listens E)\<^sup>*\<^sup>* (pipe_start pl st) s3"
    using 1(1) 2(1) 3(1) by (meson rtranclp.rtrancl_into_rtrancl rtranclp_trans)
  moreover have "\<not> pipe_step lib cfg srt listens E ?s4 s'" for s'
    by (auto elim: pipe_step.cases)
  moreover have "pq_ConnectionRetries ?q = max_retries cfg" using 2(3) by (simp add: asks_def)
  ultimately show ?thesis using 3(4,5) 4 pend3 msg panic
    by (intro exI [of _ s3] exI [of _ ?q] exI [of _ zero_connEntry] exI [of _ ?s4]) (simp add: zero_connEntry_def)
qed

section \<open>The reply\<close>

text \<open>
  C20. The client gets the upstream's reply as it is: the message that is written has the header of
  the reply, identifier included, whatever the identifier of the request was, and its records.
\<close>

theorem pipeline_reply_is_the_upstreams:
  assumes "Querier_Query lib cfg xchg q w = Ok ((q', None), w1)" and "dns_contract lib"
  shows "\<exists>m ce conn reply rtt st copy. pq_Conn q = Some ce \<and> ce_Conn ce = Some conn \<and>
    xchg m conn (w_store w) = ((reply, rtt, None), st) \<and>
    on_wire (w_store w1) copy = on_wire st reply \<and>
    (\<forall>d p w2. \<exists>w3. Finisher_inbound lib d p q' w2 =
       Ok (Dispatch p q', [(pq_W q, Some (reply\<lparr>m_Answer := []\<rparr>, map (w_store w2) (m_Answer copy)))], w3))"
proof -
  obtain msg qn qs ce where q: "pq_Msg q = Some msg" "m_Question msg = qn # qs" "pq_Conn q = Some ce"
    using assms(1) by (auto simp: Querier_Query_def Let_def split: option.splits list.splits)
  let ?m = "(lib_SetQuestion lib zero_Msg (q_Name qn) (q_Qtype qn))\<lparr>m_RecursionDesired := True\<rparr>"
  let ?w0 = "w\<lparr>w_mt := (w_mt w)\<lparr>mt_RecursiveQueries := mt_RecursiveQueries (w_mt w) + 1\<rparr>\<rparr>"
  obtain ce1 reply w0 copy st2 where a: "attemptExchange cfg xchg ?m ce ?w0 = Ok ((ce1, reply, None), w0)"
      and copy: "lib_Copy lib reply (w_store w0) = (copy, st2)" and q': "q' = q\<lparr>pq_Conn := Some ce1, pq_Reply := Some copy\<rparr>"
      and w1: "w_store w1 = st2"
    using assms(1)
    by (auto simp: Querier_Query_def Let_def q split: option.splits prod.splits)
  obtain conn rtt st where x: "ce_Conn ce = Some conn" "xchg ?m conn (w_store w) = ((reply, rtt, None), st)" "w_store w0 = st"
    using a by (auto simp: attemptExchange_Ok)
  have wire: "on_wire st2 copy = on_wire st reply"
    using assms(2) copy x(3) by (metis dns_contract_def fst_conv snd_conv)
  have hdr: "copy\<lparr>m_Answer := []\<rparr> = reply\<lparr>m_Answer := []\<rparr>" using wire by (simp add: on_wire_def)
  have "\<exists>w3. Finisher_inbound lib d p q' w2 =
       Ok (Dispatch p q', [(pq_W q, Some (reply\<lparr>m_Answer := []\<rparr>, map (w_store w2) (m_Answer copy)))], w3)" for d p w2
    by (simp add: Finisher_inbound_def q' Let_def on_wire_def hdr)
  with q(3) x wire w1 show ?thesis by blast
qed

end
