(* ===== verification/PipelineLedger.thy ===== *)
theory PipelineLedger
  imports PipelineRuns
begin

text \<open>
  Who waits for an answer from the pipeline: the writers of the queries on their way, and of those that
  have been answered, are together the writers of the requests. A query on its way back to the
  connector's pool has been answered and no longer counts.
\<close>

definition writer :: "nat option \<Rightarrow> nat multiset" where
  "writer w = (case w of None \<Rightarrow> {#} | Some n \<Rightarrow> {#n#})"

definition owed :: "chan \<Rightarrow> Query \<Rightarrow> nat multiset" where
  "owed ch q = (if ch \<in> {Adding, Closing} then {#} else writer (pq_W q))"

definition owed_sends :: "sends \<Rightarrow> nat multiset" where
  "owed_sends s = sum_list (map (\<lambda>(ch, q). owed ch q) s)"

definition in_flight :: "pstate \<Rightarrow> nat multiset" where
  "in_flight s = sum_list (map (\<lambda>q. writer (pq_W q)) (ps_arrived s)) + (\<Sum>wk\<in>UNIV. owed_sends (ps_pending s wk))"

definition answered_writers :: "written \<Rightarrow> nat multiset" where
  "answered_writers ws = sum_list (map (\<lambda>(w, m). writer w) ws)"

lemma owed_sends_simps [simp]:
  "owed_sends [] = {#}" "owed_sends ((ch, q) # s) = owed ch q + owed_sends s"
  "owed_sends (s @ s') = owed_sends s + owed_sends s'"
  by (simp_all add: owed_sends_def)

lemma answered_writers_simps [simp]:
  "answered_writers [] = {#}" "answered_writers ((w, m) # ws) = writer w + answered_writers ws"
  "answered_writers (ws @ ws') = answered_writers ws + answered_writers ws'"
  by (simp_all add: answered_writers_def)

lemma sum_upd:
  fixes f :: "'b \<Rightarrow> 'm::comm_monoid_add" and g :: "'a::finite \<Rightarrow> 'b"
  shows "(\<Sum>a\<in>UNIV. f ((g(k := x)) a)) + f (g k) = (\<Sum>a\<in>UNIV. f (g a)) + f x"
proof -
  have "(\<Sum>a\<in>UNIV. f ((g(k := x)) a)) = f x + (\<Sum>a\<in>UNIV - {k}. f (g a))"
    by (subst sum.remove [of _ k]) (auto intro!: sum.cong)
  moreover have "(\<Sum>a\<in>UNIV. f (g a)) = f (g k) + (\<Sum>a\<in>UNIV - {k}. f (g a))"
    by (subst sum.remove [of _ k]) auto
  ultimately show ?thesis by (simp add: ac_simps)
qed

text \<open>An arm owes what it took: it passes the query on once, or answers it once.\<close>

lemma Assign_writer:
  "AssignConnection cfg clk calls c q = Ok ((qa, err), c') \<Longrightarrow>
     (err = None \<longrightarrow> pq_W qa = pq_W q) \<and> (err \<noteq> None \<longrightarrow> pq_W qa = None)"
  by (auto simp: AssignConnection_def Let_def zero_Query_def split: if_splits option.splits prod.splits)

lemma Querier_Query_writer:
  "Querier_Query lib cfg xchg q w = Ok ((q', err), w') \<Longrightarrow> pq_W q' = pq_W q"
  by (auto simp: Querier_Query_def Let_def split: list.splits option.splits prod.splits)

lemma Querier_inbound_owed:
  assumes "Querier_inbound lib cfg xchg p q w = Ok (s, w')"
    and "outboundQueryChannel p \<notin> {Adding, Closing}" "failedQueryChannel p \<notin> {Adding, Closing}"
  shows "owed_sends s = writer (pq_W q)"
  using assms
  by (auto simp: Querier_inbound_def Dispatch_def Fail_def owed_def dest: Querier_Query_writer split: option.splits)

lemma Connector_inbound_owed:
  assumes "Connector_inbound cfg clk calls pc q = Ok (s, pc')"
    and "outboundQueryChannel (pc_worker pc) \<notin> {Adding, Closing}"
    and "failedQueryChannel (pc_worker pc) \<notin> {Adding, Closing}"
  shows "owed_sends s = writer (pq_W q)"
proof -
  from assms(1) obtain qa err c where a: "AssignConnection cfg clk calls (pc_connPool pc) q = Ok ((qa, err), c)"
      "s = (case err of Some _ \<Rightarrow> Fail (pc_worker pc) q | None \<Rightarrow> []) @ Dispatch (pc_worker pc) qa"
    by (rule Connector_inbound_Ok)
  with Assign_writer [OF a(1)] assms(2,3) show ?thesis
    by (auto simp: Dispatch_def Fail_def owed_def writer_def split: option.splits)
qed

lemma Finisher_inbound_out:
  "Finisher_inbound lib d p q w = Ok (s, out, w') \<Longrightarrow> answered_writers out = writer (pq_W q)"
  by (auto simp: Finisher_inbound_def Let_def split: option.splits)

lemma arm_owed:
  assumes arm: "select_arm lib cfg srt e pl w wk ch q = Some (Ok (s, out, pl', w'))"
    and w: "wired pl" and ch: "ch \<noteq> Caching" "ch \<noteq> NilChan"
    and empty: "rc_cache (ph_cache (pl_cacher pl)) = fmempty"
  shows "owed_sends s + answered_writers out = owed ch q"
proof -
  note chan = select_arm_channel [OF arm w ch(2)]
  note ws = wired_simps [OF w]
  show ?thesis
  proof (cases wk)
    case Handler
    with arm show ?thesis by (simp add: select_arm_def)
  next
    case Cacher
    with chan ch have "ch = Inbound Cacher" by simp
    with arm Cacher show ?thesis
      by (auto simp: arms [OF w] Cacher_inbound_def empty_cache_miss [OF empty] Fail_def ws owed_def)
  next
    case Connector
    with chan ch consider "ch = Adding" | "ch = Closing" | "ch = Inbound Connector" by auto
    then show ?thesis
    proof cases
      case 3
      with arm Connector obtain pc1 where
        "Connector_inbound cfg (re_clk e) (re_calls e) (pl_connector pl) q = Ok (s, pc1)" "out = []"
        by (auto simp: arms [OF w])
      with Connector_inbound_owed [OF this(1)] 3 show ?thesis by (simp add: ws owed_def)
    qed (use arm Connector in \<open>auto simp: arms [OF w] owed_def\<close>)
  next
    case Querier
    with chan ch have c: "ch = Inbound Querier" by simp
    with arm Querier obtain w1 where
      "Querier_inbound lib cfg (re_Exchange e) (pl_querier pl) q w = Ok (s, w1)" "out = []"
      by (auto simp: arms [OF w])
    with Querier_inbound_owed [OF this(1)] c show ?thesis by (simp add: ws owed_def)
  next
    case Finisher
    with chan ch have c: "ch = Inbound Finisher" by simp
    with arm Finisher obtain w1 where
      f: "Finisher_inbound lib (re_duration e) (pf_worker (pl_finisher pl)) q w = Ok (s, out, w1)"
      by (auto simp: arms [OF w])
    with Finisher_sends(2) [OF f] Finisher_inbound_out [OF f] c show ?thesis
      by (simp add: Dispatch_def ws owed_def)
  qed
qed

lemma offers_owed:
  assumes "offers s ch q s1" and "pipe_inv s"
  shows "in_flight s = in_flight s1 + owed ch q \<and> ps_requests s1 = ps_requests s"
  using assms(1)
proof cases
  case (off_handler xs ys)
  with assms(2) show ?thesis by (simp add: in_flight_def pipe_inv_def wired_simps owed_def ac_simps)
next
  case (off_worker wk rest)
  have "(\<Sum>a\<in>UNIV. owed_sends (((ps_pending s)(wk := rest)) a)) + owed ch q + owed_sends rest
      = (\<Sum>a\<in>UNIV. owed_sends (ps_pending s a)) + owed_sends rest"
    using sum_upd [of owed_sends "ps_pending s" wk rest] off_worker(2) by (simp add: ac_simps)
  with off_worker(1) show ?thesis by (simp add: in_flight_def)
qed

definition ledger_inv :: "pstate \<Rightarrow> bool" where
  "ledger_inv s \<longleftrightarrow> (if ps_crashed s then in_flight s + answered_writers (ps_written s) \<subseteq># mset (ps_requests s)
     else in_flight s + answered_writers (ps_written s) = mset (ps_requests s))"

lemma ledger_step:
  assumes "pipe_step lib cfg srt listens E s s'" and "pipe_inv s" and "ledger_inv s"
  shows "ledger_inv s'"
  using assms(1)
proof cases
  case (p_arrive r wr q w1)
  then have "pq_W q = Some wr" by (auto simp: Handler_begin_def Let_def)
  with p_arrive assms(3) show ?thesis by (simp add: ledger_inv_def in_flight_def writer_def ac_simps)
next
  case (p_receive e ch q s1 wk sends out pl w)
  note o = offers_inv [OF p_receive(4) assms(2)] and f = offers_owed [OF p_receive(4) assms(2)]
  have arm: "owed_sends sends + answered_writers out = owed ch q"
    using arm_owed [OF p_receive(8)] o p_receive(5) by (auto simp: pipe_inv_def)
  have "ps_pending s1 wk = []"
    using p_receive(4,6) by cases (auto split: if_splits)
  then have "(\<Sum>a\<in>UNIV. owed_sends (((ps_pending s1)(wk := sends)) a))
      = (\<Sum>a\<in>UNIV. owed_sends (ps_pending s1 a)) + owed_sends sends"
    using sum_upd [of owed_sends "ps_pending s1" wk sends] by simp
  then have "in_flight s' = in_flight s1 + owed_sends sends" using p_receive(1) by (simp add: in_flight_def ac_simps)
  moreover have "ps_written s' = ps_written s @ out" and req: "ps_requests s' = ps_requests s"
    using p_receive(1) o f by simp_all
  moreover have "in_flight s1 + owed_sends sends + answered_writers (ps_written s @ out)
      = in_flight s + answered_writers (ps_written s)"
    unfolding conjunct1 [OF f] arm [symmetric] by (simp add: ac_simps)
  ultimately have same: "in_flight s' + answered_writers (ps_written s') = in_flight s + answered_writers (ps_written s)"
    by (simp only:)
  have "ps_crashed s1 = ps_crashed s" using p_receive(4) by cases simp_all
  then have "ps_crashed s' = ps_crashed s" using p_receive(1) by simp
  with assms(3) show ?thesis by (simp only: ledger_inv_def same req)
next
  case (p_crash e ch q s1 wk reason)
  note o = offers_inv [OF p_crash(4) assms(2)] and f = offers_owed [OF p_crash(4) assms(2)]
  have "in_flight s' = in_flight s1" using p_crash(1) by (simp add: in_flight_def)
  with p_crash(1,2) o f assms(3) show ?thesis
    by (simp add: ledger_inv_def) (metis add.assoc add.commute mset_subset_eq_add_left)
next
  case (p_cancel wk)
  with assms(3) show ?thesis by (simp add: ledger_inv_def in_flight_def)
qed

text \<open>
  C11. The pipeline neither loses nor duplicates a request while it runs: the requests are those that
  have been answered and those whose query is on its way, blocked for ever or not, each once. So no
  client is answered twice, and no answer goes to someone who did not ask.
\<close>

theorem pipeline_answers_at_most_once:
  assumes "(pipe_step lib cfg srt listens E)\<^sup>*\<^sup>* (pipe_start pl st) s" and "NewPipelineServer cfg None = Inr (pl, chans)"
  shows "answered_writers (ps_written s) \<subseteq># mset (ps_requests s) \<and>
    (\<not> ps_crashed s \<longrightarrow> answered_writers (ps_written s) + in_flight s = mset (ps_requests s))"
proof -
  have "ledger_inv s"
    using assms(1)
  proof (induction rule: rtranclp_induct)
    case base
    show ?case by (simp add: ledger_inv_def in_flight_def pipe_start_def)
  next
    case (step s1 s2)
    show ?case by (rule ledger_step [OF step(2) pipe_reach_inv [OF step(1) assms(2)] step(3)])
  qed
  then have "in_flight s + answered_writers (ps_written s) \<subseteq># mset (ps_requests s)"
    and "\<not> ps_crashed s \<Longrightarrow> in_flight s + answered_writers (ps_written s) = mset (ps_requests s)"
    by (auto simp: ledger_inv_def split: if_splits)
  then show ?thesis
    by (metis add.commute mset_subset_eq_add_right subset_mset.order_trans)
qed

end
