(* ===== verification/CacheWitnesses.thy ===== *)
theory CacheWitnesses
  imports CrewRuns "HOL-Library.Char_ord" "HOL-Library.List_Lexorder"
begin

text \<open>
  Concrete instances of the properties of the record cache and its cleaning crew: one response for
  name \<open>a\<close> and type 1 with one record of 300 seconds, created at time 0.
\<close>

definition demo_store :: rr_store where
  "demo_store = (\<lambda>_. \<lparr>rr_Name = ''a'', rr_Rrtype = 1, rr_Ttl = 300, rr_Data = ''x''\<rparr>)"

definition demo_resp :: Response where
  "demo_resp = zero_Response\<lparr>resp_Name := ''a'', resp_Qtype := 1,
     resp_Entry := zero_Msg\<lparr>m_Answer := [0]\<rparr>\<rparr>"

definition demo_empty :: Response where
  "demo_empty = zero_Response\<lparr>resp_Name := ''a'', resp_Qtype := 1\<rparr>"

definition demo_cache :: RecordCache where
  "demo_cache = RecordCache_Add NewCache demo_resp"

abbreviation oob0 :: "rat \<Rightarrow> 32 word" where
  "oob0 \<equiv> (\<lambda>_. 0)"

lemma demo_fields [simp]:
  "resp_Name demo_resp = ''a''" "resp_Qtype demo_resp = 1" "resp_CreationTime demo_resp = 0"
  "m_Answer (resp_Entry demo_resp) = [0]" "rr_Ttl (demo_store p) = 300"
  "resp_Name demo_empty = ''a''" "resp_Qtype demo_empty = 1" "m_Answer (resp_Entry demo_empty) = []"
  by (simp_all add: demo_resp_def demo_store_def demo_empty_def zero_Response_def zero_Msg_def)

lemma demo_lookup: "fmlookup (rc_cache demo_cache) (cache_key ''a'' 1) = Some demo_resp"
  unfolding demo_cache_def by (simp add: FormatKey_def)

lemma demo_lookup_key [simp]: "fmlookup (rc_cache demo_cache) (format_s_d ''a'' 1) = Some demo_resp"
  using demo_lookup by simp

lemma demo_key [simp]: "FormatKey demo_resp = cache_key ''a'' 1"
  by (simp add: FormatKey_def)

lemma demo_cache_eq: "rc_cache demo_cache = fmupd (cache_key ''a'' 1) demo_resp fmempty"
  by (simp add: demo_cache_def RecordCache_Add_def NewCache_def)

text \<open>After 200 of 300 seconds the record has not expired, and is refused.\<close>

theorem Get_refuses_second_half_witness:
  "\<not> IsExpired 200000000000 demo_resp (demo_store 0) \<and>
   (\<exists>st'. RecordCache_Get oob0 (\<lambda>_. 200000000000) demo_cache ''a'' 1 demo_store
     = ((zero_Response, False), RecordCache_Evict demo_cache demo_resp, st'))"
proof
  show "\<not> IsExpired 200000000000 demo_resp (demo_store 0)" by (simp add: IsExpired_iff)
  show "\<exists>st'. RecordCache_Get oob0 (\<lambda>_. 200000000000) demo_cache ''a'' 1 demo_store
     = ((zero_Response, False), RecordCache_Evict demo_cache demo_resp, st')"
    by (rule Get_refuses_second_half [OF demo_lookup, where p = 0]) simp_all
qed


lemma demo_expired: "has_expired 400000000000 demo_store demo_resp"
  by (simp add: has_expired_def IsExpired_iff)

section \<open>The trashman\<close>

definition demo_tm :: "int \<Rightarrow> trashMan" where
  "demo_tm b = \<lparr>tm_responses = fmempty, tm_evictionBatchSize = b, tm_paused = False, tm_running = True\<rparr>"

definition demo_full :: trashMan where
  "demo_full = AddResponse (demo_tm 1) demo_resp"

lemma demo_tm_keyed [simp]: "tm_keyed (demo_tm b)"
  by (simp add: demo_tm_def tm_keyed_def)

definition sorted_keys :: "(string, Response) fmap \<Rightarrow> string list" where
  "sorted_keys m = sorted_list_of_set (fset (fmdom m))"

lemma sorted_keys_ok: "enumerates (sorted_keys m) m"
  by (simp add: sorted_keys_def enumerates_def)

definition demo_crew :: crew where
  "demo_crew = (crew_start zero_Configuration demo_store)\<lparr>c_rc :=
     RecordCache_Add (c_rc (crew_start zero_Configuration demo_store)) demo_resp, c_store := demo_store\<rparr>"

lemma demo_crew_reach: "(crew_step oob0)\<^sup>*\<^sup>* (crew_start zero_Configuration demo_store) demo_crew"
  unfolding demo_crew_def
  by (intro r_into_rtranclp crew_step.crew_client [where k = "FormatKey demo_resp"] client_step.client_add)
    (simp_all add: crew_start_def StartCleaningCrew_def NewCache_def Let_def)

theorem crew_invariant_witness:
  "cache_keyed (c_rc demo_crew) \<and> fmlookup (rc_cache (c_rc demo_crew)) (cache_key ''a'' 1) = Some demo_resp"
  using crew_invariant [OF demo_crew_reach]
  by (simp add: demo_crew_def crew_start_def StartCleaningCrew_def NewCache_def RecordCache_Add_def Let_def)

theorem cleaning_removes_expired_witness:
  "\<exists>rc1 t' rc2. RecordCache_Clean [cache_key ''a'' 1] (\<lambda>_. 400000000000) demo_store demo_cache = (1, rc1) \<and>
     receive_all sorted_keys (demo_tm 0) rc1 (rc_evicting rc1) = (t', rc2) \<and>
     fmlookup (rc_cache rc2) (cache_key ''a'' 1) = None \<and> RecordCache_Size rc2 = 0"
proof -
  obtain n rc1 where c: "RecordCache_Clean [cache_key ''a'' 1] (\<lambda>_. 400000000000) demo_store demo_cache = (n, rc1)"
    by force
  obtain t' rc2 where r: "receive_all sorted_keys (demo_tm 0) rc1 (rc_evicting rc1) = (t', rc2)" by force
  have n: "n = 1"
    using c demo_expired demo_lookup
    by (auto simp: RecordCache_Clean_def Clean_loop_const expired_entries_def map_filter_simps)
  have "enumerates [cache_key ''a'' 1] (rc_cache demo_cache)" by (simp add: enumerates_def demo_cache_eq)
  moreover have "cache_keyed demo_cache" by (simp add: cache_keyed_def demo_cache_eq)
  moreover have "RecordCache_Size demo_cache = 1" by (simp add: RecordCache_Size_def demo_cache_eq)
  moreover have "rc_evicting demo_cache = []" by (simp add: demo_cache_def RecordCache_Add_def NewCache_def)
  ultimately show ?thesis
    using cleaning_removes_expired [OF _ _ _ c _ _ _ sorted_keys_ok r] c r n demo_lookup demo_expired
    by (auto simp: demo_tm_def)
qed

theorem trashman_batches_witness:
  "ResponsesQueued (fst (receive_all sorted_keys (demo_tm 1) demo_cache [demo_resp])) = 0 \<and>
   fmlookup (rc_cache (snd (receive_all sorted_keys (demo_tm 1) demo_cache [demo_resp]))) (cache_key ''a'' 1) = None"
proof -
  obtain t' rc' where r: "receive_all sorted_keys (demo_tm 1) demo_cache [demo_resp] = (t', rc')" by force
  show ?thesis
    using trashman_batches [OF _ _ _ _ sorted_keys_ok _ r, of 1]
    by (simp add: r) (simp add: demo_tm_def)
qed

end
