(* ===== verification/PoolWitnesses.thy ===== *)
theory PoolWitnesses
  imports PoolRuns
begin

text \<open>
  Concrete instances of the properties of the connection pool: two upstreams \<open>u\<close> and \<open>v\<close> at the
  pointers 0 and 1, and connections to \<open>u\<close>.
\<close>

definition demo_upstream :: "string \<Rightarrow> Upstream" where
  "demo_upstream name = zero_Upstream\<lparr>up_Name := name\<rparr>"

definition demo_ups :: "nat \<Rightarrow> Upstream" where
  "demo_ups = (\<lambda>p. if p = 0 then demo_upstream ''u'' else demo_upstream ''v'')"

definition demo_pool :: connPool where
  "demo_pool = (NewConnPool demo_ups)\<lparr>cp_upstreams := [0, 1]\<rparr>"

definition demo_ce :: connEntry where
  "demo_ce = zero_connEntry\<lparr>ce_Conn := Some 7, ce_upstream := demo_upstream ''u''\<rparr>"

abbreviation demo_addr :: string where
  "demo_addr \<equiv> Upstream_GetAddress (demo_upstream ''u'')"

definition demo_pooled :: connPool where
  "demo_pooled = demo_pool\<lparr>cp_cache := fmupd demo_addr [demo_ce] fmempty\<rparr>"

lemma demo_pool_fields [simp]:
  "cp_upstreams demo_pool = [0, 1]" "cp_cache demo_pool = fmempty" "cp_store demo_pool = demo_ups"
  "cp_closing demo_pool = []" "cp_closed demo_pool = []"
  "cp_upstreams demo_pooled = [0, 1]" "cp_cache demo_pooled = fmupd demo_addr [demo_ce] fmempty"
  "cp_store demo_pooled = demo_ups" "demo_ups 0 = demo_upstream ''u''" "demo_ups (Suc 0) = demo_upstream ''v''"
  "pool_conns demo_pool a = []" "pool_conns demo_pooled demo_addr = [demo_ce]"
  by (simp_all add: demo_pool_def demo_pooled_def NewConnPool_def demo_ups_def pool_conns_def)

lemma demo_upstream_fields [simp]:
  "up_Name (demo_upstream n) = n" "up_Port (demo_upstream n) = 0" "up_weight (demo_upstream n) = 0"
  "up_wakeupTime (demo_upstream n) = 0"
  by (simp_all add: demo_upstream_def zero_Upstream_def)

lemma demo_ce_fields [simp]:
  "ce_Conn demo_ce = Some 7" "connEntry_GetAddress demo_ce = demo_addr" "ce_error demo_ce = False"
  "connEntry_GetWeight demo_ce = 0"
  by (simp_all add: demo_ce_def zero_connEntry_def connEntry_GetAddress_def connEntry_GetWeight_def)

lemma demo_addr_other [simp]: "Upstream_GetAddress (demo_upstream ''v'') \<noteq> demo_addr"
  by (simp add: GetAddress_eq_iff)

lemma demo_not_cooling [simp]: "\<not> IsCooling 5 (demo_upstream n)"
  by (simp add: IsCooling_def)

definition demo_timed :: "int \<Rightarrow> connEntry" where
  "demo_timed ms = zero_connEntry\<lparr>ce_totalRTT := dur (ms * 1000000), ce_exchanges := 1\<rparr>"

theorem Get_is_best_choice_witness:
  "connPool_Get (\<lambda>_. 5) demo_pool = Ok ((zero_connEntry, demo_upstream ''u''), demo_pool)"
proof -
  have "named_upstreams demo_pool" by (simp add: named_upstreams_def demo_ups_def)
  then show ?thesis
    using Get_is_best_choice [of demo_pool 5] by (simp add: best_choice_def take_from_def ready_def idle_def)
qed

theorem no_failover_before_first_connection_witness:
  "\<exists>c'. connPool_NewConnection zero_Configuration 5 demo_pool (demo_upstream ''u'') (\<lambda>_. Inl (External ''x'')) 0
      = ((zero_connEntry, Some (CoolingUpstream demo_addr (External ''x''))), c') \<and>
    IsCooling 6 (cp_store c' 0) \<and> connPool_Get (\<lambda>_. 6) c' = Ok ((zero_connEntry, cp_store c' 0), c')"
proof -
  obtain res c' where n: "connPool_NewConnection zero_Configuration 5 demo_pool (cp_store demo_pool 0)
      (\<lambda>_. Inl (External ''x'')) 0 = (res, c')"
    by (rule prod.exhaust)
  have "nanos (cooldownPeriod zero_Configuration) = 500000000"
    by (simp add: cooldownPeriod_def zero_Configuration_def Millisecond_def)
  with no_failover_before_first_connection [OF _ _ _ n, of "[1]" "External ''x''" "\<lambda>_. 6"] n
  show ?thesis by (simp add: IsCooling_def time_add_def)
qed

lemma demo_add: "\<exists>err c'. connPool_Add zero_Configuration stable_sort 5 demo_pooled ce = (err, c')"
  by (metis surj_pair)

theorem Add_reorders_witness:
  "fst (connPool_Add zero_Configuration stable_sort 5 demo_pooled demo_ce) = None \<and>
   sorted (map (\<lambda>q. up_weight (cp_store (snd (connPool_Add zero_Configuration stable_sort 5 demo_pooled demo_ce)) q))
     (cp_upstreams (snd (connPool_Add zero_Configuration stable_sort 5 demo_pooled demo_ce))))"
proof -
  obtain err c' where a: "connPool_Add zero_Configuration stable_sort 5 demo_pooled demo_ce = (err, c')"
    using demo_add by blast
  show ?thesis
    using Add_reorders [OF stable_sort_contract _ _ a, of 0] by (simp add: a)
qed

definition demo_faulty :: connEntry where
  "demo_faulty = AddError (demo_ce\<lparr>ce_Conn := Some 8\<rparr>)"

lemma demo_faulty_fields [simp]:
  "connEntry_GetAddress demo_faulty = demo_addr" "ce_error demo_faulty"
  by (simp_all add: demo_faulty_def AddError_def connEntry_GetAddress_def)
    (simp add: demo_ce_def)

section \<open>A run\<close>

definition demo_psys :: psys where
  "demo_psys = \<lparr>ps_pool = connPool_AddUpstream ((NewConnPool demo_ups)\<lparr>cp_store := (cp_store (NewConnPool demo_ups))(0 := demo_upstream ''u'')\<rparr>) 0,
     ps_held = {#AddExchange zero_Configuration 0 (zero_connEntry\<lparr>ce_Conn := Some 7, ce_upstream := demo_upstream ''u''\<rparr>)#},
     ps_dialled = [7]\<rparr>"

lemma demo_psys_reach: "(pool_step zero_Configuration stable_sort)\<^sup>*\<^sup>* (pool_start demo_ups) demo_psys"
proof -
  let ?s1 = "(pool_start demo_ups)\<lparr>ps_pool := connPool_AddUpstream ((NewConnPool demo_ups)\<lparr>cp_store := (cp_store (NewConnPool demo_ups))(0 := demo_upstream ''u'')\<rparr>) 0\<rparr>"
  have 1: "pool_step zero_Configuration stable_sort (pool_start demo_ups) ?s1"
    using pool_step.ps_upstream [of "demo_upstream ''u''" 0 "pool_start demo_ups" zero_Configuration stable_sort]
    by (simp add: pool_start_def NewConnPool_def)
  have 2: "pool_step zero_Configuration stable_sort ?s1
      (?s1\<lparr>ps_pool := ps_pool ?s1, ps_held := add_mset (AddExchange zero_Configuration 0
         (zero_connEntry\<lparr>ce_Conn := Some 7, ce_upstream := demo_upstream ''u''\<rparr>)) (ps_held ?s1),
         ps_dialled := 7 # ps_dialled ?s1\<rparr>)"
    by (rule pool_step.ps_dial [where now = 5 and u = "demo_upstream ''u''" and dial = "\<lambda>_. Inr 7" and d = 0])
      (simp_all add: connPool_NewConnection_def Let_def pool_start_def)
  have "?s1\<lparr>ps_pool := ps_pool ?s1, ps_held := add_mset (AddExchange zero_Configuration 0
         (zero_connEntry\<lparr>ce_Conn := Some 7, ce_upstream := demo_upstream ''u''\<rparr>)) (ps_held ?s1),
         ps_dialled := 7 # ps_dialled ?s1\<rparr> = demo_psys"
    by (simp add: demo_psys_def pool_start_def)
  with 1 2 show ?thesis by (metis (no_types) r_into_rtranclp rtranclp.rtrancl_into_rtrancl)
qed

theorem connections_conserved_witness:
  "image_mset ce_Conn (pooled (ps_pool demo_psys) + mset (cp_closing (ps_pool demo_psys)) + ps_held demo_psys
     + mset (cp_closed (ps_pool demo_psys))) = {#Some 7#}"
  using connections_conserved [OF stable_sort_contract demo_psys_reach]
  by (simp add: demo_psys_def [THEN arg_cong, of ps_dialled])

definition demo_purged :: connPool where
  "demo_purged = demo_pool\<lparr>cp_closing := [demo_ce]\<rparr>"

theorem reaping_terminates_witness:
  "\<exists>c'. (\<exists>i. reap_step zero_Configuration stable_sort demo_purged i c') \<and>
     1 + size (owned c') = size (owned demo_purged) \<and> length (cp_closed c') = 1"
proof -
  obtain c' where c': "connPool_CloseConnection zero_Configuration stable_sort 5
      (demo_purged\<lparr>cp_closing := [] @ []\<rparr>) demo_ce = Ok c'"
    by (simp add: connPool_CloseConnection_def connEntry_Close_def)
  have r: "reap_step zero_Configuration stable_sort demo_purged (ce_Conn demo_ce) c'"
    by (rule reap_step.reap [OF _ c']) (simp add: demo_purged_def)
  then have "((\<lambda>c c'. \<exists>i. reap_step zero_Configuration stable_sort c i c') ^^ 1) demo_purged c'"
    by auto
  from reaping_terminates [OF this] r show ?thesis
    by (auto simp: demo_purged_def)
qed

end
