(* ===== verification/MutexWitnesses.thy ===== *)
theory MutexWitnesses
  imports MutexSystem CacheWitnesses PoolWitnesses
begin

text \<open>
  Concrete instances of the properties of the mutex server: a server with the one upstream \<open>u\<close>, a
  client whose dials return connection 7, and an upstream that answers with one record of 300 seconds
  at pointer 5, or with an error.
\<close>

section \<open>Surroundings\<close>

definition demo_SetReply :: "Msg \<Rightarrow> Msg \<Rightarrow> Msg" where
  "demo_SetReply m r = m\<lparr>m_Id := m_Id r, m_Opcode := m_Opcode r, m_Rcode := 0,
     m_Question := (case m_Question r of [] \<Rightarrow> m_Question m | q # _ \<Rightarrow> [q])\<rparr>"

definition demo_lib :: dns_lib where
  "demo_lib = \<lparr>lib_SetReply = demo_SetReply, lib_SetRcode = (\<lambda>m r c. (demo_SetReply m r)\<lparr>m_Rcode := c\<rparr>),
     lib_SetQuestion = (\<lambda>m n t. m\<lparr>m_Question := [\<lparr>q_Name = n, q_Qtype = t\<rparr>]\<rparr>),
     lib_Copy = (\<lambda>m st. (m, st)), lib_String = rr_Data\<rparr>"

lemma demo_lib_contract: "dns_contract demo_lib"
  by (simp add: dns_contract_def demo_lib_def demo_SetReply_def)

definition demo_request :: Msg where
  "demo_request = zero_Msg\<lparr>m_Id := 9, m_Question := [\<lparr>q_Name = ''a'', q_Qtype = 1\<rparr>]\<rparr>"

definition demo_cfg :: Configuration where
  "demo_cfg = zero_Configuration\<lparr>cfg_Upstreams := [''u'']\<rparr>"

definition demo_world :: world where
  "demo_world = \<lparr>w_store = demo_store, w_mt = zero_metrics, w_log = []\<rparr>"

definition good_call :: client_call where
  "good_call = \<lparr>cc_clk = (\<lambda>_. 5), cc_Dial = (\<lambda>_. Inr 7), cc_dialDuration = 0, cc_now = 5,
     cc_Exchange = (\<lambda>m conn st. ((m\<lparr>m_Answer := [5]\<rparr>, 0, None), st))\<rparr>"

definition empty_call :: client_call where
  "empty_call = good_call\<lparr>cc_Exchange := (\<lambda>m conn st. ((m\<lparr>m_Rcode := 3\<rparr>, 0, None), st))\<rparr>"

definition bad_call :: client_call where
  "bad_call = good_call\<lparr>cc_Exchange := (\<lambda>m conn st. ((m, 0, Some (External ''eof'')), st))\<rparr>"

definition demo_srv :: MutexServer where
  "demo_srv = add_upstreams \<lparr>ms_Cache = StartCleaningCrew demo_cfg NewCache, ms_HostedCache = NewCache,
     ms_sem = 4, ms_connPool = NewConnPool (\<lambda>_. zero_Upstream)\<rparr> 0 [''u'']"

lemma demo_new: "NewMutexServer demo_cfg 4 None = Inr demo_srv"
  by (simp add: NewMutexServer_def demo_srv_def demo_cfg_def zero_Configuration_def)

lemma demo_lib_Copy [simp]: "lib_Copy demo_lib m st = (m, st)"
  by (simp add: demo_lib_def)

lemma demo_world_store [simp]: "w_store demo_world = demo_store"
  by (simp add: demo_world_def)

lemma demo_cfg_fields [simp]:
  "cfg_UpstreamRetries demo_cfg = 0" "cfg_Timeout demo_cfg = 0" "cfg_Upstreams demo_cfg = [''u'']"
  "cfg_CooldownPeriod demo_cfg = 0" "cfg_ConcurrentQueries demo_cfg = 0"
  by (simp_all add: demo_cfg_def zero_Configuration_def)

lemma demo_srv_fields [simp]:
  "cp_upstreams (ms_connPool demo_srv) = [0]" "cp_cache (ms_connPool demo_srv) = fmempty"
  "cp_store (ms_connPool demo_srv) 0 = demo_upstream ''u''" "ms_sem demo_srv = 4"
  "rc_cache (ms_Cache demo_srv) = fmempty" "rc_cache (ms_HostedCache demo_srv) = fmempty"
  "cp_closed (ms_connPool demo_srv) = []"
  by (simp_all add: demo_srv_def NewConnPool_def add_upstreams_pool StartCleaningCrew_def NewCache_def
      Let_def demo_upstream_def MutexServer_AddUpstream_def connPool_AddUpstream_def)

lemma demo_named: "named_upstreams (ms_connPool demo_srv)"
  by (simp add: named_upstreams_def)

lemma demo_call_fields [simp]:
  "cc_clk good_call = (\<lambda>_. 5)" "cc_Dial good_call = (\<lambda>_. Inr 7)" "cc_dialDuration good_call = 0"
  "cc_now good_call = 5" "cc_Exchange good_call = (\<lambda>m conn st. ((m\<lparr>m_Answer := [5]\<rparr>, 0, None), st))"
  "cc_clk bad_call = (\<lambda>_. 5)" "cc_Dial bad_call = (\<lambda>_. Inr 7)" "cc_dialDuration bad_call = 0"
  "cc_now bad_call = 5" "cc_Exchange bad_call = (\<lambda>m conn st. ((m, 0, Some (External ''eof'')), st))"
  "cc_clk empty_call = (\<lambda>_. 5)" "cc_Dial empty_call = (\<lambda>_. Inr 7)" "cc_dialDuration empty_call = 0"
  "cc_now empty_call = 5" "cc_Exchange empty_call = (\<lambda>m conn st. ((m\<lparr>m_Rcode := 3\<rparr>, 0, None), st))"
  by (simp_all add: good_call_def bad_call_def empty_call_def)

definition fresh_ce :: connEntry where
  "fresh_ce = AddExchange demo_cfg 0 (zero_connEntry\<lparr>ce_Conn := Some 7, ce_upstream := demo_upstream ''u''\<rparr>)"

lemma fresh_ce_fields [simp]:
  "ce_Conn fresh_ce = Some 7" "ce_upstream fresh_ce = demo_upstream ''u''" "ce_totalRTT fresh_ce = 0"
  "ce_error fresh_ce = False"
  by (simp_all add: fresh_ce_def AddExchange_error zero_connEntry_def Millisecond_def)

lemma demo_not_zero [simp]: "demo_upstream ''u'' \<noteq> zero_Upstream"
  by (simp add: demo_upstream_def zero_Upstream_def)

text \<open>Taking a connection: the pool is empty, so the upstream is dialled.\<close>

lemma demo_GetConnection:
  assumes "ms_connPool s = ms_connPool demo_srv" and "cc_clk call = (\<lambda>_. 5)" "cc_Dial call = (\<lambda>_. Inr 7)"
    "cc_dialDuration call = 0"
  shows "MutexServer_GetConnection demo_cfg call s w = Ok ((fresh_ce, None), s, reused fresh_ce w)"
proof -
  have "getBestUpstream (\<lambda>_. 5) (ms_connPool demo_srv) = Ok (demo_upstream ''u'')"
    by (simp add: getBestUpstream_def)
  then have "connPool_Get (\<lambda>_. 5) (ms_connPool s) = Ok ((zero_connEntry, demo_upstream ''u''), ms_connPool s)"
    by (simp add: connPool_Get_def assms(1))
  then show ?thesis
    using assms by (simp add: MutexServer_GetConnection_def newConnection_def
        connPool_NewConnection_def Let_def reused_def flip: fresh_ce_def)
qed

definition ask :: "string \<Rightarrow> Msg" where
  "ask d = query_msg demo_lib d 1"

lemma ask_fields [simp]: "m_Question (ask d) = [\<lparr>q_Name = d, q_Qtype = 1\<rparr>]"
  by (simp add: ask_def query_msg_def demo_lib_def)

definition used_ce :: connEntry where
  "used_ce = AddExchange demo_cfg 0 fresh_ce"

lemma demo_attempt_good:
  assumes "ms_connPool s = ms_connPool demo_srv"
  shows "\<exists>w'. MutexServer_attemptExchange demo_cfg stable_sort good_call (ask ''a'') s w
    = Ok ((used_ce, Some ((ask ''a'')\<lparr>m_Answer := [5]\<rparr>), None), s, w') \<and> w_store w' = w_store w \<and>
      mt_RecursiveQueries (w_mt w') = mt_RecursiveQueries (w_mt w)"
  using demo_GetConnection [of s good_call w] assms
  by (simp add: MutexServer_attemptExchange_def attemptExchange_def GetConn_def Let_def used_ce_def reused_def)

lemma demo_attempt_empty:
  assumes "ms_connPool s = ms_connPool demo_srv"
  shows "\<exists>w'. MutexServer_attemptExchange demo_cfg stable_sort empty_call (ask ''a'') s w
    = Ok ((used_ce, Some ((ask ''a'')\<lparr>m_Rcode := 3\<rparr>), None), s, w') \<and> w_store w' = w_store w \<and>
      mt_RecursiveQueries (w_mt w') = mt_RecursiveQueries (w_mt w)"
  using demo_GetConnection [of s empty_call w] assms
  by (simp add: MutexServer_attemptExchange_def attemptExchange_def GetConn_def Let_def used_ce_def reused_def)

lemma demo_attempt_bad:
  "\<exists>s' w'. MutexServer_attemptExchange demo_cfg stable_sort bad_call (ask ''a'') demo_srv w
    = Ok ((zero_connEntry, Some zero_Msg, Some (LookupFailed ''a'' demo_addr)), s', w')"
  using demo_GetConnection [of demo_srv bad_call w]
  by (simp add: MutexServer_attemptExchange_def attemptExchange_def GetConn_def Let_def
      connPool_CloseConnection_def connEntry_Close_def AddError_def connEntry_GetAddress_def)

lemma demo_RecursiveQuery:
  assumes "MutexServer_attemptExchange demo_cfg stable_sort (calls 0) (ask ''a'') s (count_query w)
      = Ok ((ce, Some reply, None), s1, w1)"
  shows "\<exists>s'. RecursiveQuery demo_lib demo_cfg stable_sort calls 5 5 s w ''a'' 1
      = Ok ((fst (processResults 5 reply ''a'' 1), connEntry_GetAddress ce, None), s', w1) \<and>
        ms_Cache s' = ms_Cache s1"
proof -
  obtain err c where "connPool_Add demo_cfg stable_sort 5 (ms_connPool s1) ce = (err, c)" by force
  then show ?thesis
    unfolding RecursiveQuery_def Let_def query_msg_def [symmetric] count_query_def [symmetric] ask_def [symmetric]
    using assms by (simp add: processResults_def)
qed

section \<open>Recursive queries\<close>

lemma demo_RecursiveQuery_good:
  obtains s' w' where "RecursiveQuery demo_lib demo_cfg stable_sort (\<lambda>_. good_call) 5 5 demo_srv demo_world ''a'' 1
      = Ok ((fst (processResults 5 ((ask ''a'')\<lparr>m_Answer := [5]\<rparr>) ''a'' 1), connEntry_GetAddress used_ce, None), s', w')"
proof -
  obtain w1 where "MutexServer_attemptExchange demo_cfg stable_sort good_call (ask ''a'') demo_srv (count_query demo_world)
      = Ok ((used_ce, Some ((ask ''a'')\<lparr>m_Answer := [5]\<rparr>), None), demo_srv, w1)"
    using demo_attempt_good [OF refl, of "count_query demo_world"] by blast
  with demo_RecursiveQuery [of "\<lambda>_. good_call"] that show thesis by blast
qed

theorem RecursiveQuery_first_success_witness:
  "\<exists>resp address s' w'. RecursiveQuery demo_lib demo_cfg stable_sort (\<lambda>_. good_call) 5 5 demo_srv demo_world ''a'' 1
     = Ok ((resp, address, None), s', w') \<and> resp_Name resp = ''a'' \<and> resp_CreationTime resp = 5"
proof -
  obtain s' w' where q: "RecursiveQuery demo_lib demo_cfg stable_sort (\<lambda>_. good_call) 5 5 demo_srv demo_world ''a'' 1
      = Ok ((fst (processResults 5 ((ask ''a'')\<lparr>m_Answer := [5]\<rparr>) ''a'' 1), connEntry_GetAddress used_ce, None), s', w')"
    by (rule demo_RecursiveQuery_good)
  with RecursiveQuery_first_success [OF _ q] show ?thesis by auto
qed

theorem RecursiveQuery_leaks_nothing_witness:
  "\<exists>res s' w' D. RecursiveQuery demo_lib demo_cfg stable_sort (\<lambda>_. good_call) 5 5 demo_srv demo_world ''a'' 1
     = Ok (res, s', w') \<and> size D \<le> 1 \<and>
     inside_ids (ms_connPool s') + closed_ids (ms_connPool s')
       = inside_ids (ms_connPool demo_srv) + closed_ids (ms_connPool demo_srv) + D"
proof -
  obtain s' w' where q: "RecursiveQuery demo_lib demo_cfg stable_sort (\<lambda>_. good_call) 5 5 demo_srv demo_world ''a'' 1
      = Ok ((fst (processResults 5 ((ask ''a'')\<lparr>m_Answer := [5]\<rparr>) ''a'' 1), connEntry_GetAddress used_ce, None), s', w')"
    by (rule demo_RecursiveQuery_good)
  with RecursiveQuery_leaks_nothing [OF stable_sort_contract demo_named _ q] show ?thesis by auto
qed

theorem failed_exchange_severs_upstream_witness:
  "\<exists>ce r s' w'. MutexServer_attemptExchange demo_cfg stable_sort bad_call (ask ''a'') demo_srv demo_world
     = Ok ((ce, r, Some (LookupFailed ''a'' demo_addr)), s', w') \<and>
     pool_conns (ms_connPool s') demo_addr = [] \<and> length (cp_closed (ms_connPool s')) = 1 \<and>
     mt_UpstreamErrors (w_mt w') demo_addr = 2"
proof -
  obtain s' w' where a: "MutexServer_attemptExchange demo_cfg stable_sort bad_call (ask ''a'') demo_srv demo_world
      = Ok ((zero_connEntry, Some zero_Msg, Some (LookupFailed ''a'' demo_addr)), s', w')"
    using demo_attempt_bad by blast
  from failed_exchange_severs_upstream [OF demo_named _ _ a, of 0] a show ?thesis
    by (auto simp: demo_world_def zero_metrics_def)
qed

section \<open>Queries\<close>

definition demo_env :: "client_call \<Rightarrow> surroundings" where
  "demo_env call = \<lparr>e_oob = oob0, e_clk_cache = (\<lambda>_. 5), e_clk_hosted = (\<lambda>_. 5), e_calls = (\<lambda>_. call),
     e_fin = 5, e_born = 5, e_duration = 0\<rparr>"

lemma demo_RetrieveRecords:
  assumes "\<And>w. \<exists>w'. MutexServer_attemptExchange demo_cfg stable_sort call (ask ''a'') demo_srv w
      = Ok ((used_ce, Some reply, None), demo_srv, w') \<and> w_store w' = w_store w \<and>
        mt_RecursiveQueries (w_mt w') = mt_RecursiveQueries (w_mt w)"
  obtains s' w' where "RetrieveRecords demo_lib demo_cfg stable_sort (demo_env call) demo_srv w ''a'' 1
      = Ok ((fst (processResults 5 reply ''a'' 1), connEntry_GetAddress used_ce, None), s', w')"
    "w_store w' = w_store w" "mt_RecursiveQueries (w_mt w') = mt_RecursiveQueries (w_mt w) + 1"
    "ms_Cache s' = RecordCache_Add (ms_Cache demo_srv) (fst (processResults 5 reply ''a'' 1))"
proof -
  have miss: "RecordCache_Get oob0 (\<lambda>_. 5) rc ''a'' 1 st = ((zero_Response, False), rc, st)"
    if "rc_cache rc = fmempty" for rc st
    using that by (simp add: RecordCache_Get_def)
  obtain w1 where a: "MutexServer_attemptExchange demo_cfg stable_sort call (ask ''a'') demo_srv (count_query w)
      = Ok ((used_ce, Some reply, None), demo_srv, w1)" "w_store w1 = w_store w"
    "mt_RecursiveQueries (w_mt w1) = mt_RecursiveQueries (w_mt w) + 1"
    using assms [of "count_query w"] by (auto simp: count_query_def)
  obtain s' where "RecursiveQuery demo_lib demo_cfg stable_sort (\<lambda>_. call) 5 5 demo_srv w ''a'' 1
      = Ok ((fst (processResults 5 reply ''a'' 1), connEntry_GetAddress used_ce, None), s', w1)"
    "ms_Cache s' = ms_Cache demo_srv"
    using demo_RecursiveQuery [of "\<lambda>_. call"] a(1) by blast
  with a(2,3) show thesis
    by (intro that [of "s'\<lparr>ms_Cache := RecordCache_Add (ms_Cache demo_srv) (fst (processResults 5 reply ''a'' 1))\<rparr>"])
      (simp_all add: RetrieveRecords_def demo_env_def miss processResults_def)
qed

lemma demo_good_reply:
  obtains s' w' where "RetrieveRecords demo_lib demo_cfg stable_sort (demo_env good_call) demo_srv w ''a'' 1
      = Ok ((fst (processResults 5 ((ask ''a'')\<lparr>m_Answer := [5]\<rparr>) ''a'' 1), connEntry_GetAddress used_ce, None), s', w')"
    "w_store w' = w_store w" "mt_RecursiveQueries (w_mt w') = mt_RecursiveQueries (w_mt w) + 1"
  by (rule demo_RetrieveRecords [OF demo_attempt_good [OF refl], of w])

lemma demo_request_fields [simp]:
  "m_Question demo_request = [\<lparr>q_Name = ''a'', q_Qtype = 1\<rparr>]" "m_Id demo_request = 9"
  by (simp_all add: demo_request_def)

lemma demo_serve:
  obtains out s' w' where "HandleDNS_serve demo_lib demo_cfg stable_sort (demo_env good_call) demo_srv demo_world
      ''a'' demo_request = Ok (out, s', w')"
proof -
  obtain s' w' where "RetrieveRecords demo_lib demo_cfg stable_sort (demo_env good_call) demo_srv
      (dequeued demo_world) ''a'' 1
      = Ok ((fst (processResults 5 ((ask ''a'')\<lparr>m_Answer := [5]\<rparr>) ''a'' 1), connEntry_GetAddress used_ce, None), s', w')"
    by (rule demo_good_reply)
  then show thesis
    using that by (auto simp: HandleDNS_serve_def Let_def dequeued_def split: prod.splits)
qed

theorem HandleDNS_one_reply_witness:
  "\<exists>hdr recs s' w'. HandleDNS_serve demo_lib demo_cfg stable_sort (demo_env good_call) demo_srv demo_world
     ''a'' demo_request = Ok ([(hdr, recs)], s', w') \<and> m_Id hdr = 9 \<and> ms_sem s' = 5"
proof -
  obtain out s' w' where h: "HandleDNS_serve demo_lib demo_cfg stable_sort (demo_env good_call) demo_srv demo_world
      ''a'' demo_request = Ok (out, s', w')"
    by (rule demo_serve)
  from HandleDNS_one_reply [OF demo_lib_contract _ h] h show ?thesis by auto
qed

theorem HandleDNS_refines_goroutine_witness:
  "\<exists>out s' w' new. HandleDNS_serve demo_lib demo_cfg stable_sort (demo_env good_call) demo_srv demo_world
     ''a'' demo_request = Ok (out, s', w') \<and>
     go_run demo_lib demo_cfg stable_sort ''a'' demo_request (Started, demo_srv, demo_world) out new (Gone, s', w')"
proof -
  obtain out s' w' where h: "HandleDNS_serve demo_lib demo_cfg stable_sort (demo_env good_call) demo_srv demo_world
      ''a'' demo_request = Ok (out, s', w')"
    by (rule demo_serve)
  from HandleDNS_refines_goroutine [OF h _ stable_sort_contract demo_named] h show ?thesis by auto
qed


text \<open>NXDOMAIN, and a client that stores an answer for another name before the question comes again.\<close>

theorem empty_reply_survives_cleaning_witness:
  "\<exists>resp s' w' c. RetrieveRecords demo_lib demo_cfg stable_sort (demo_env empty_call) demo_srv demo_world ''a'' 1
      = Ok ((resp, connEntry_GetAddress used_ce, None), s', w') \<and> m_Rcode (resp_Entry resp) = 3 \<and>
    (quiet_step oob0 (cache_key ''a'' 1))\<^sup>*\<^sup>* (as_crew s' w') c \<and> RecordCache_Size (c_rc c) = 2 \<and>
    (\<forall>e' w1. \<exists>w2. RetrieveRecords demo_lib demo_cfg stable_sort e' (s'\<lparr>ms_Cache := c_rc c\<rparr>) w1 ''a'' 1
      = Ok ((resp, ''cache'', None), s'\<lparr>ms_Cache := c_rc c\<rparr>, w2))"
proof -
  let ?r = "fst (processResults 5 ((ask ''a'')\<lparr>m_Rcode := 3\<rparr>) ''a'' 1)" and ?o = "demo_empty\<lparr>resp_Name := ''b''\<rparr>"
  obtain s' w' where r: "RetrieveRecords demo_lib demo_cfg stable_sort (demo_env empty_call) demo_srv demo_world ''a'' 1
      = Ok ((?r, connEntry_GetAddress used_ce, None), s', w')"
    "mt_RecursiveQueries (w_mt w') = mt_RecursiveQueries (w_mt demo_world) + 1"
    "ms_Cache s' = RecordCache_Add (ms_Cache demo_srv) ?r"
    by (rule demo_RetrieveRecords [OF demo_attempt_empty [OF refl], of demo_world])
  have key: "FormatKey ?r = cache_key ''a'' 1" "FormatKey ?o = cache_key ''b'' 1"
    by (simp_all add: processResults_def FormatKey_def)
  have tm: "rc_evicting (ms_Cache demo_srv) = []"
      "rc_TrashMan (ms_Cache demo_srv) = Some t \<Longrightarrow> tm_responses t = fmempty" for t
    by (auto simp: demo_srv_def add_upstreams_pool StartCleaningCrew_def NewCache_def trashMan_Start_def Let_def
        MutexServer_AddUpstream_def)
  have ready: "rc_evicting (ms_Cache s') = []"
      "rc_TrashMan (ms_Cache s') = Some t \<Longrightarrow> tm_responses t = fmempty" for t
    using tm by (auto simp: r(3) RecordCache_Add_def)
  have inv: "crew_inv (as_crew s' w')"
    using key(1) ready(2)
    by (auto simp: crew_inv_def as_crew_def cache_keyed_def r(3) RecordCache_Add_def tm_keyed_def buffer_bounded_def
        ResponsesQueued_def)
  let ?c = "(as_crew s' w')\<lparr>c_rc := RecordCache_Add (ms_Cache s') ?o\<rparr>"
  have "client_step (FormatKey ?o) (as_crew s' w') ((as_crew s' w')\<lparr>c_rc := RecordCache_Add (c_rc (as_crew s' w')) ?o,
      c_store := c_store (as_crew s' w')\<rparr>)"
    by (rule client_step.client_add) (simp_all add: as_crew_def)
  then have step: "(quiet_step oob0 (cache_key ''a'' 1))\<^sup>*\<^sup>* (as_crew s' w') ?c"
    unfolding key(2) by (intro r_into_rtranclp quiet_step.quiet_client) (auto simp: as_crew_def)
  have size: "RecordCache_Size (c_rc ?c) = 2"
    by (simp add: RecordCache_Size_def RecordCache_Add_def r(3) key fcard_finsert_if)
  have "m_Answer (ask ''a'') = []"
    by (simp add: ask_def query_msg_def demo_lib_def zero_Msg_def)
  then have "\<exists>w2. RetrieveRecords demo_lib demo_cfg stable_sort e' (s'\<lparr>ms_Cache := c_rc ?c\<rparr>) w1 ''a'' 1
      = Ok ((?r, ''cache'', None), s'\<lparr>ms_Cache := c_rc ?c\<rparr>, w2)" for e' w1
    using empty_reply_survives_cleaning [OF _ r(1) _ _ inv _ _ step, of "s'\<lparr>ms_Cache := c_rc ?c\<rparr>" e' w1]
      ready r(2) by (auto simp: processResults_def)
  moreover have "m_Rcode (resp_Entry ?r) = 3" by (simp add: processResults_def)
  ultimately show ?thesis using r(1) step size by blast
qed

section \<open>The system\<close>

definition demo_sys :: msys where
  "demo_sys = \<lparr>y_srv = demo_srv, y_world = demo_world, y_go = {#}, y_out = [], y_dialled = []\<rparr>"

lemma demo_arrival:
  obtains w where "sys_reach demo_lib demo_cfg stable_sort 4
    (demo_sys\<lparr>y_world := w, y_go := {#(Waiting, ''a'', demo_request)#}\<rparr>)"
proof -
  obtain w where "HandleDNS_accept demo_lib demo_srv demo_world demo_request = Ok (''a'', w)"
    by (simp add: HandleDNS_accept_def demo_lib_def demo_SetReply_def Let_def)
  then have "sys_step demo_lib demo_cfg stable_sort demo_sys
      (demo_sys\<lparr>y_world := w, y_go := {#(Waiting, ''a'', demo_request)#}\<rparr>)"
    using sys_step.sy_arrive [of demo_lib demo_sys demo_request "''a''" w] by (simp add: demo_sys_def)
  moreover have "sys_start demo_cfg 4 demo_sys"
    unfolding demo_sys_def demo_world_def by (rule sys_start.intros [OF demo_new])
  ultimately show thesis using that unfolding sys_reach_def by blast
qed

theorem in_flight_bounded_witness:
  "\<exists>y. sys_reach demo_lib demo_cfg stable_sort 4 y \<and> ms_sem (y_srv y) = 4 \<and>
     mt_QueuedQueries (w_mt (y_world y)) = 1"
proof -
  obtain w where y: "sys_reach demo_lib demo_cfg stable_sort 4
      (demo_sys\<lparr>y_world := w, y_go := {#(Waiting, ''a'', demo_request)#}\<rparr>)"
    by (rule demo_arrival)
  show ?thesis
    using in_flight_bounded [OF y stable_sort_contract] y
    by (auto simp: count_points_def serving_def queued_def permits_def)
qed

theorem connections_never_shared_witness:
  "\<exists>y. sys_reach demo_lib demo_cfg stable_sort 4 y \<and> size (y_go y) = 1 \<and>
     inside_ids (ms_connPool (y_srv y)) + closed_ids (ms_connPool (y_srv y)) = {#}"
proof -
  obtain w where y: "sys_reach demo_lib demo_cfg stable_sort 4
      (demo_sys\<lparr>y_world := w, y_go := {#(Waiting, ''a'', demo_request)#}\<rparr>)"
    by (rule demo_arrival)
  have "y_dialled demo_sys = []" by (simp add: demo_sys_def)
  then show ?thesis
    using connections_never_shared [OF y stable_sort_contract] y by fastforce
qed

theorem one_reply_each_witness:
  "\<exists>y. sys_reach demo_lib demo_cfg stable_sort 4 y \<and> size (y_go y) = 1 \<and> mset (map fst (y_out y)) = {#}"
proof -
  obtain w where y: "sys_reach demo_lib demo_cfg stable_sort 4
      (demo_sys\<lparr>y_world := w, y_go := {#(Waiting, ''a'', demo_request)#}\<rparr>)"
    by (rule demo_arrival)
  show ?thesis
    using one_reply_each [OF y stable_sort_contract _ demo_lib_contract] y by fastforce
qed

end
