(* ===== verification/PipelineWitnesses.thy ===== *)
theory PipelineWitnesses
  imports PipelineFaults PipelineLedger Zones MutexWitnesses
begin

text \<open>
  Concrete instances of the properties of the pipeline server and of the zone files: a pipeline with the
  one upstream \<open>u\<close>, and the client, upstream and records of the mutex server's instances.
\<close>

section \<open>A pipeline\<close>

definition demo_pl :: pipeline where
  "demo_pl = fst (projr (NewPipelineServer demo_cfg None))"

lemma demo_pipeline:
  "NewPipelineServer demo_cfg None = Inr (demo_pl, [Cancel Cacher, Cancel Connector, Cancel Querier])"
  by (simp add: demo_pl_def NewPipelineServer_def Let_def NewPipelineServerWorker_def)

definition round_of :: "client_call \<Rightarrow> round_env" where
  "round_of call = \<lparr>re_oob = oob0, re_clk = (\<lambda>_. 5), re_calls = (\<lambda>_. call), re_now = 5,
     re_Exchange = cc_Exchange call, re_duration = 0\<rparr>"

definition dead_call :: client_call where
  "dead_call = good_call\<lparr>cc_Dial := (\<lambda>_. Inl (External ''refused''))\<rparr>"

lemma round_of_kinds:
  "errorless (round_of good_call)" "failing (round_of bad_call)" "unreachable (round_of dead_call)"
  by (simp_all add: errorless_def failing_def unreachable_def dialling_def round_of_def dead_call_def)

abbreviation with_question :: "Msg \<Rightarrow> bool" where
  "with_question r \<equiv> m_Question r \<noteq> []"

theorem successful_queries_deadlock_witness:
  "\<exists>s. (pipe_step demo_lib demo_cfg stable_sort with_question errorless)\<^sup>*\<^sup>* (pipe_start demo_pl demo_store) s \<and>
     \<not> ps_crashed s \<and> length (ps_written s) = 1 \<and>
     (\<forall>s'. (pipe_step demo_lib demo_cfg stable_sort with_question errorless)\<^sup>*\<^sup>* s s' \<longrightarrow> ps_written s' = ps_written s \<and>
       (\<exists>q1 q2 q3. ps_pending s' Connector = [(Inbound Querier, q1)] \<and>
          ps_pending s' Querier = [(Inbound Finisher, q2)] \<and> ps_pending s' Finisher = [(Adding, q3)]))"
  by (rule successful_queries_deadlock [OF demo_pipeline, where e="round_of good_call" and r=demo_request])
    (simp_all add: round_of_kinds)

theorem unreachable_upstream_stops_pipeline_witness:
  "\<exists>s. (pipe_step demo_lib demo_cfg stable_sort with_question unreachable)\<^sup>*\<^sup>* (pipe_start demo_pl demo_store) s \<and>
     \<not> ps_crashed s \<and>
     (\<forall>s'. (pipe_step demo_lib demo_cfg stable_sort with_question unreachable)\<^sup>*\<^sup>* s s' \<longrightarrow> ps_written s' = [] \<and>
       (\<exists>q rest. ps_pending s' Connector = (NilChan, q) # rest))"
  by (rule unreachable_upstream_stops_pipeline [OF demo_pipeline, where e="round_of dead_call" and r=demo_request])
    (simp_all add: round_of_kinds)

theorem failing_exchanges_crash_process_witness:
  "\<exists>s q s'. (pipe_step demo_lib demo_cfg stable_sort with_question failing)\<^sup>*\<^sup>* (pipe_start demo_pl demo_store) s \<and>
     ps_pending s Connector = [(Inbound Querier, q)] \<and> pq_ConnectionRetries q = max_retries demo_cfg \<and>
     map_option ce_Conn (pq_Conn q) = Some None \<and>
     pipe_step demo_lib demo_cfg stable_sort with_question failing s s' \<and> ps_crashed s' \<and> ps_written s' = []"
proof -
  have "cfg_Upstreams demo_cfg \<noteq> []" "[] \<notin> set (cfg_Upstreams demo_cfg)" "0 \<le> cfg_UpstreamRetries demo_cfg"
      "with_question demo_request"
    by simp_all
  from failing_exchanges_crash_process [where e="round_of bad_call" and E=failing and listens=with_question
      and lib=demo_lib and srt=stable_sort and st=demo_store, OF demo_pipeline this(1-3) round_of_kinds(2,2) this(4,4)]
  obtain s q ce s' where "(pipe_step demo_lib demo_cfg stable_sort with_question failing)\<^sup>*\<^sup>* (pipe_start demo_pl demo_store) s"
      "ps_pending s Connector = [(Inbound Querier, q)]" "pq_ConnectionRetries q = max_retries demo_cfg"
      "pq_Conn q = Some ce" "ce_Conn ce = None"
      "pipe_step demo_lib demo_cfg stable_sort with_question failing s s'" "ps_crashed s'" "ps_written s' = []"
    by (elim exE conjE) (rule that, assumption+)
  then show ?thesis by (intro exI [of _ s] exI [of _ q] exI [of _ s']) simp
qed

theorem pipeline_cache_stays_empty_witness:
  "\<exists>s. (pipe_step demo_lib demo_cfg stable_sort with_question errorless)\<^sup>*\<^sup>* (pipe_start demo_pl demo_store) s \<and>
     ps_pending s Cacher \<noteq> [] \<and> rc_cache (ph_cache (pl_cacher (ps_pl s))) = fmempty"
proof -
  obtain c where c: "running c (pipe_start demo_pl demo_store)"
    by (rule new_pipeline_running [OF demo_pipeline]) simp_all
  have "ps_pending (pipe_start demo_pl demo_store) Cacher = []" "m_Question demo_request \<noteq> []"
    by (simp_all add: pipe_start_def demo_request_def)
  from stage_cacher [where E=errorless and listens=with_question, OF c this(1) round_of_kinds(1) this(2,2)]
  obtain s q where
    s: "(pipe_step demo_lib demo_cfg stable_sort with_question errorless)\<^sup>*\<^sup>* (pipe_start demo_pl demo_store) s"
      "ps_pending s = (ps_pending (pipe_start demo_pl demo_store))(Cacher := [(Inbound Connector, q)])"
    by blast
  with pipeline_cache_stays_empty [OF s(1) demo_pipeline] show ?thesis by (intro exI [of _ s]) simp
qed

theorem pipeline_answers_at_most_once_witness:
  "\<exists>s. (pipe_step demo_lib demo_cfg stable_sort with_question errorless)\<^sup>*\<^sup>* (pipe_start demo_pl demo_store) s \<and>
     ps_written s \<noteq> [] \<and> answered_writers (ps_written s) + in_flight s = mset (ps_requests s)"
proof -
  let ?step = "pipe_step demo_lib demo_cfg stable_sort with_question errorless"
  obtain c where c: "running c (pipe_start demo_pl demo_store)" "fresh_pool c"
    by (rule new_pipeline_running [OF demo_pipeline]) simp_all
  have "0 < max_retries demo_cfg" "m_Question demo_request \<noteq> []"
    by (simp_all add: max_retries_def demo_request_def)
  from reach_querier [where lib=demo_lib and srt=stable_sort and E=errorless and listens=with_question,
      OF c round_of_kinds(1,1) this this(2)]
  obtain s1 q where 1: "?step\<^sup>*\<^sup>* (pipe_start demo_pl demo_store) s1" "running c s1" "answered q"
      "ps_pending s1 = (ps_pending (pipe_start demo_pl demo_store))(Querier := [(Inbound Finisher, q)])"
    by (auto simp: pipe_start_def)
  have "ps_pending s1 Querier = [(Inbound Finisher, q)]" "ps_pending s1 Finisher = []"
    using 1(4) by (simp_all add: pipe_start_def)
  from stage_finisher [where lib=demo_lib and cfg=demo_cfg and srt=stable_sort and E=errorless and listens=with_question,
      OF 1(2) round_of_kinds(1) this(1) 1(3) this(2)]
  obtain s2 where 2: "?step s1 s2" "running c s2" "ps_written s2 \<noteq> []" by auto
  have reach: "?step\<^sup>*\<^sup>* (pipe_start demo_pl demo_store) s2" using 1(1) 2(1) by simp
  from pipeline_answers_at_most_once [OF reach demo_pipeline] 2(2,3) reach show ?thesis
    by (auto simp: running_def)
qed

text \<open>The request has identifier 9, the reply that is written identifier 0.\<close>

definition demo_query :: Query where
  "demo_query = zero_Query\<lparr>pq_Msg := Some demo_request, pq_Conn := Some fresh_ce, pq_W := Some 1\<rparr>"

theorem pipeline_reply_is_the_upstreams_witness:
  "\<exists>q' w1 w3 reply records.
     Querier_Query demo_lib demo_cfg (cc_Exchange good_call) demo_query demo_world = Ok ((q', None), w1) \<and>
     Finisher_inbound demo_lib 0 (pf_worker (pl_finisher demo_pl)) q' w1 =
       Ok (Dispatch (pf_worker (pl_finisher demo_pl)) q', [(Some 1, Some (reply, records))], w3) \<and>
     m_Id reply = 0 \<and> m_Id demo_request = 9"
proof -
  obtain q' w1 where q: "Querier_Query demo_lib demo_cfg (cc_Exchange good_call) demo_query demo_world = Ok ((q', None), w1)"
      "map_option m_Id (pq_Reply q') = Some 0" "pq_W q' = Some 1"
    by (simp add: Querier_Query_def demo_query_def demo_request_def Let_def attemptExchange_def GetConn_def
        zero_Query_def demo_lib_def zero_Msg_def)
  from pipeline_reply_is_the_upstreams [OF q(1) demo_lib_contract] obtain reply copy st where
    w: "on_wire (w_store w1) copy = on_wire st reply" and
    f: "\<And>d p w2. \<exists>w3. Finisher_inbound demo_lib d p q' w2 =
       Ok (Dispatch p q', [(pq_W demo_query, Some (reply\<lparr>m_Answer := []\<rparr>, map (w_store w2) (m_Answer copy)))], w3)"
    by blast
  obtain w3 where w3: "Finisher_inbound demo_lib 0 (pf_worker (pl_finisher demo_pl)) q' w1 =
       Ok (Dispatch (pf_worker (pl_finisher demo_pl)) q',
           [(Some 1, Some (reply\<lparr>m_Answer := []\<rparr>, map (w_store w1) (m_Answer copy)))], w3)"
    using f [of 0 "pf_worker (pl_finisher demo_pl)" w1] by (auto simp: demo_query_def)
  moreover have "m_Id reply = 0"
  proof -
    obtain x where x: "pq_Reply q' = Some x" "m_Id x = 0" using q(2) by auto
    have "fst (on_wire (w_store w1) x) = reply\<lparr>m_Answer := []\<rparr>"
      using w3 by (auto simp: Finisher_inbound_def Let_def x(1))
    then have "m_Id (x\<lparr>m_Answer := []\<rparr>) = m_Id (reply\<lparr>m_Answer := []\<rparr>)" by (simp add: on_wire_def)
    with x(2) show ?thesis by simp
  qed
  ultimately show ?thesis using q(1) by (auto simp: demo_request_def)
qed

section \<open>Zone files\<close>

text \<open>One zone file with two addresses for the same name: the second one is hosted.\<close>

definition demo_parse :: zone_parser where
  "demo_parse text = ([(1, None), (2, None)], Some (External ''third line''))"

theorem zones_keep_last_record_witness:
  "\<exists>s'. loadLocalZones (demo_cfg\<lparr>cfg_ZoneFiles := [''z'']\<rparr>) demo_parse (\<lambda>_. Inr ''zone'') (\<lambda>_ _. 5) demo_store demo_srv
     = Some s' \<and> fmlookup (rc_cache (ms_HostedCache s')) (cache_key ''a'' 1) = Some (zone_response 5 demo_store 2)"
proof -
  have "delivers demo_parse" by (simp add: delivers_def demo_parse_def)
  from zones_keep_last_record [OF this, where cfg="demo_cfg\<lparr>cfg_ZoneFiles := [''z'']\<rparr>"
      and files="\<lambda>_. Inr ''zone''" and s=demo_srv and now=5 and st=demo_store]
  obtain s' where s: "loadLocalZones (demo_cfg\<lparr>cfg_ZoneFiles := [''z'']\<rparr>) demo_parse (\<lambda>_. Inr ''zone'') (\<lambda>_ _. 5)
      demo_store demo_srv = Some s'"
    "\<And>n q. fmlookup (rc_cache (ms_HostedCache s')) (cache_key n q) = map_option (zone_response 5 demo_store)
         (List.find (\<lambda>p. rr_Name (demo_store p) = n \<and> rr_Rrtype (demo_store p) = q)
            (rev (zone_records demo_parse (\<lambda>_. Inr ''zone'') [''z''])))"
    by auto
  have "zone_records demo_parse (\<lambda>_. Inr ''zone'') [''z''] = [1, 2]"
    by (simp add: zone_records_def demo_parse_def)
  then have "fmlookup (rc_cache (ms_HostedCache s')) (cache_key ''a'' 1) = Some (zone_response 5 demo_store 2)"
    unfolding s(2) by (simp add: demo_store_def)
  with s(1) show ?thesis by blast
qed

end
