(* ===== verification/CrashWitnesses.thy ===== *)
theory CrashWitnesses
  imports MutexProgress PipelineWitnesses
begin

text \<open>
  Concrete instances, on the small server of \<open>MutexWitnesses\<close>, of what is shown of crashes, of progress and
  of hosted records.
\<close>

definition zone_cfg :: Configuration where
  "zone_cfg = demo_cfg\<lparr>cfg_ZoneFiles := [''z'']\<rparr>"

lemma zone_new: "NewMutexServer zone_cfg 4 None = Inr demo_srv"
proof -
  have "StartCleaningCrew zone_cfg rc = StartCleaningCrew demo_cfg rc" for rc
    by (simp add: StartCleaningCrew_def janitor_Start_def zone_cfg_def Let_def cong: option.case_cong)
  then show ?thesis by (simp add: NewMutexServer_def demo_srv_def zone_cfg_def)
qed

lemma zone_hosts: "hosts demo_parse (\<lambda>_. Inr ''zone'') zone_cfg demo_store ''a'' 1 2"
  by (simp add: hosts_def delivers_def demo_parse_def zone_cfg_def zone_records_def demo_store_def)

lemma demo_copies_apart: "copies_apart demo_lib"
  by (simp add: copies_apart_def)

text \<open>The record has 300 seconds and is asked for 40, 45 and, the last time, 110 seconds after it was loaded.\<close>

definition ask_at :: "time \<Rightarrow> surroundings \<times> Msg" where
  "ask_at now = ((demo_env bad_call)\<lparr>e_clk_hosted := (\<lambda>_. now)\<rparr>, demo_request)"

lemma ask_at_asks: "all_ask ''a'' 1 nows (map ask_at nows)"
  by (simp add: all_ask_def ask_at_def list_all2_conv_all_nth)

lemma zone_served: "served_for (zone_response 5 demo_store 2) demo_store [40000000005, 45000000005]"
  by (auto simp: served_for_def seconds_old_def zone_response_def less_Suc_eq)

lemma zone_permits: "1 \<le> permits zone_cfg 4"
  by (simp add: permits_def zone_cfg_def)

theorem hosted_record_crashes_server_witness:
  "\<exists>s outs w'. loadLocalZones zone_cfg demo_parse (\<lambda>_. Inr ''zone'') (\<lambda>_ _. 5) demo_store demo_srv = Some s \<and>
     handle_each demo_lib zone_cfg stable_sort (map ask_at [40000000005, 45000000005]) s demo_world = Ok (outs, s, w') \<and>
     length outs = 2 \<and>
     (case HandleDNS demo_lib zone_cfg stable_sort (fst (ask_at 110000000005)) s w' demo_request of
        Panic reason \<Rightarrow> True
      | Ok (out, s', w'') \<Rightarrow> live_step demo_lib zone_cfg stable_sort with_question
          (Up \<lparr>y_srv = s', y_world = w'', y_go = {#}, y_out = [], y_dialled = []\<rparr>) (Down NilDereference))"
proof -
  have last: "all_ask ''a'' 1 [110000000005] [(fst (ask_at 110000000005), demo_request)]"
    by (simp add: all_ask_def ask_at_def)
  have "(5::int) \<le> 110000000005"
      "(uint (rr_Ttl (demo_store 2)) - (\<Sum>now\<leftarrow>[40000000005, 45000000005]. seconds_old (zone_response 5 demo_store 2) now)
         + int (length [40000000005, 45000000005 :: int]) + 1) * 1000000000 < 2 * (110000000005 - 5)"
    by (simp_all add: seconds_old_def zone_response_def)
  from hosted_record_crashes_server [OF zone_new zone_hosts demo_lib_contract demo_copies_apart zone_permits ask_at_asks
      zone_served demo_world_store last this, of stable_sort]
  obtain s outs w' where "loadLocalZones zone_cfg demo_parse (\<lambda>_. Inr ''zone'') (\<lambda>_ _. 5) demo_store demo_srv = Some s"
      "handle_each demo_lib zone_cfg stable_sort (map ask_at [40000000005, 45000000005]) s demo_world = Ok (outs, s, w')"
      "length outs = length (map ask_at [40000000005, 45000000005])"
      "case HandleDNS demo_lib zone_cfg stable_sort (fst (ask_at 110000000005)) s w' demo_request of
         Panic reason \<Rightarrow> True
       | Ok (out, s', w'') \<Rightarrow> zone_response 5 demo_store 2 \<in> set (rc_evicting (ms_HostedCache s')) \<and>
           (\<forall>y listens. y_srv y = s' \<longrightarrow> live_step demo_lib zone_cfg stable_sort listens (Up y) (Down NilDereference))"
    by (elim exE conjE) (rule that, assumption+)
  then show ?thesis
    by (intro exI [of _ s] exI [of _ outs] exI [of _ w']) (simp split: outcome.splits prod.splits)
qed


lemma demo_interval: "0 < nanos (cleaning_interval demo_cfg)"
  by (simp add: cleaning_interval_def janitor_Start_def demo_cfg_def zero_Configuration_def Millisecond_def Let_def)


theorem no_permit_no_answer_witness:
  "\<exists>y. sys_reach demo_lib (demo_cfg\<lparr>cfg_ConcurrentQueries := - 1\<rparr>) stable_sort 4 y \<and>
     y_go y = {#(Waiting, ''a'', demo_request)#} \<and> y_out y = [] \<and> mt_QueuedQueries (w_mt (y_world y)) = 1"
proof -
  let ?cfg = "demo_cfg\<lparr>cfg_ConcurrentQueries := - 1\<rparr>"
  obtain s where s: "NewMutexServer ?cfg 4 None = Inr s"
    by (simp add: NewMutexServer_def Let_def)
  let ?y0 = "\<lparr>y_srv = s, y_world = \<lparr>w_store = demo_store, w_mt = zero_metrics, w_log = []\<rparr>, y_go = {#}, y_out = [],
    y_dialled = []\<rparr>"
  obtain w where "HandleDNS_accept demo_lib s (y_world ?y0) demo_request = Ok (''a'', w)"
    by (simp add: HandleDNS_accept_def demo_lib_def demo_SetReply_def Let_def)
  then have "sys_step demo_lib ?cfg stable_sort ?y0 (?y0\<lparr>y_world := w, y_go := {#(Waiting, ''a'', demo_request)#}\<rparr>)"
    using sys_step.sy_arrive [of demo_lib ?y0 demo_request "''a''" w] by simp
  moreover have "sys_start ?cfg 4 ?y0" by (rule sys_start.intros [OF s])
  ultimately have reach: "sys_reach demo_lib ?cfg stable_sort 4 (?y0\<lparr>y_world := w, y_go := {#(Waiting, ''a'', demo_request)#}\<rparr>)"
    unfolding sys_reach_def by blast
  have "permits ?cfg 4 \<le> 0" by (simp add: permits_def)
  from no_permit_no_answer [OF reach this] reach show ?thesis
    by (intro exI [of _ "?y0\<lparr>y_world := w, y_go := {#(Waiting, ''a'', demo_request)#}\<rparr>"]) simp
qed

theorem requests_take_bounded_steps_witness:
  "\<exists>y pt. counted_run demo_lib demo_cfg stable_sort demo_sys y {#((pt, ''a'', demo_request), 1)#} \<and>
     y_go y = {#(pt, ''a'', demo_request)#} \<and> (1::nat) \<le> 4 * nat (cfg_UpstreamRetries demo_cfg + 1) + 6"
proof -
  obtain w where w: "HandleDNS_accept demo_lib demo_srv demo_world demo_request = Ok (''a'', w)"
    by (simp add: HandleDNS_accept_def demo_lib_def demo_SetReply_def Let_def)
  let ?y = "demo_sys\<lparr>y_world := w, y_go := {#(Waiting, ''a'', demo_request)#}\<rparr>"
  have none: "y_go demo_sys = {#}" by (simp add: demo_sys_def)
  have arrived: "counted_run demo_lib demo_cfg stable_sort demo_sys ?y {#((Waiting, ''a'', demo_request), 0)#}"
    using cr_arrive [OF cr_start [OF none, of demo_lib demo_cfg stable_sort], of demo_request "''a''" w] w
    by (simp add: demo_sys_def)
  obtain s where "sem_Acquire (y_srv ?y) = Some s" by (simp add: sem_Acquire_def demo_sys_def)
  then have step: "go_step demo_lib demo_cfg stable_sort ''a'' demo_request (Waiting, y_srv ?y, y_world ?y) [] [] (Started, s, y_world ?y)"
    by (rule go_step.g_acquire)
  obtain y where run: "counted_run demo_lib demo_cfg stable_sort demo_sys y {#((Started, ''a'', demo_request), 1)#}"
    using cr_go [OF arrived step] by auto
  have start: "sys_start demo_cfg 4 demo_sys"
    unfolding demo_sys_def demo_world_def by (rule sys_start.intros [OF demo_new])
  from requests_take_bounded_steps [OF start, of demo_lib stable_sort y] run show ?thesis
    by (intro exI [of _ y] exI [of _ Started]) fastforce
qed

end
