(* ===== verification/ServiceWitnesses.thy ===== *)
theory ServiceWitnesses
  imports Process CrashWitnesses
begin

text \<open>Concrete instances of the properties of the program.\<close>

text \<open>A configuration file of a blackhole server, and what is made of it.\<close>

definition blackhole_conf :: decoded where
  "blackhole_conf = fresh\<lparr>cfg_Blackhole := True, cfg_ListenProtocol := ''tcp-tls'',
     cfg_TlsConfig := \<lparr>tls_PrivateKeyFile = ''key'', tls_CertificateFile = ''cert''\<rparr>\<rparr>"

definition blackhole_file :: string where
  "blackhole_file = json_text (json_Configuration blackhole_conf)"

lemma blackhole_read:
  obtains a out where "InitConfiguration (Some blackhole_file) fresh = (None, a, out)"
    and "GetConfiguration a = GetConfiguration blackhole_conf"
proof -
  have "config_ok blackhole_conf"
    using config_ok_fresh utf8_plain [of "''tcp-tls''"] utf8_plain [of "''key''"] utf8_plain [of "''cert''"]
    by (simp add: config_ok_def blackhole_conf_def tls_ok_def)
  from printed_is_accepted [OF this refl] that show ?thesis unfolding blackhole_file_def by metis
qed

lemma blackhole_configuration [simp]:
  "cfg_Blackhole (GetConfiguration blackhole_conf)" "cfg_DnsPort (GetConfiguration blackhole_conf) = 0"
  "cfg_ListenProtocol (GetConfiguration blackhole_conf) = ''tcp-tls''" "cfg_ZoneFiles (GetConfiguration blackhole_conf) = []"
  "cfg_TlsConfig (GetConfiguration blackhole_conf) = \<lparr>tls_PrivateKeyFile = ''key'', tls_CertificateFile = ''cert''\<rparr>"
  by (simp_all add: GetConfiguration_def blackhole_conf_def fresh_def Configuration.defs nil_slice_def zero_Configuration_def)

definition demo_env :: environment where
  "demo_env = \<lparr>en_version = \<lparr>v_Hostname = ''h'', v_Branch = ''b'', v_Tag = ''t'', v_Date = ''d'', v_Revision = ''r''\<rparr>,
     en_Stat = (\<lambda>_. None), en_ReadConf = (\<lambda>_. Some blackhole_file), en_Open = (\<lambda>_. None),
     en_show_logger = (\<lambda>_. []), en_date = \<lparr>year = 2020, month = 5, day = 4, hour = 3, minute = 2, second = 1\<rparr>,
     en_gomaxprocs = 4, en_parse = demo_parse, en_ReadFile = (\<lambda>_. Inr ''zone''),
     en_clks = (\<lambda>_ _. 5), en_store = demo_store, en_LoadX509KeyPair = (\<lambda>_ _. None),
     en_ListenAndServe = (\<lambda>_. Some (External ''bind''))\<rparr>"

lemma demo_main:
  "\<exists>evs server. main demo_env False ''conf'' = (evs, Exited 1, server) \<and> Listen (''tcp-tls'', '':0'') \<in> set evs"
proof -
  obtain a out where conf: "InitConfiguration (Some blackhole_file) fresh = (None, a, out)"
      "GetConfiguration a = GetConfiguration blackhole_conf"
    by (rule blackhole_read)
  have port: "format_d 0 = ''0''"
    by (simp add: format_d_def decimal.simps) code_simp
  have run: "main_serve demo_env (GetConfiguration blackhole_conf) = ([Listen (''tcp-tls'', '':0'')], Exited 1)"
    by (simp add: main_serve_def runBlackholeServer_def demo_env_def Let_def port)
  obtain s where s: "NewMutexServer (GetConfiguration blackhole_conf) 4 None = Inr s"
    by (simp add: NewMutexServer_def Let_def)
  have "loadLocalZones (GetConfiguration blackhole_conf) p f c st s = Some s" for p f c st
    by (simp add: loadLocalZones_def)
  with run s conf show ?thesis
    by (simp add: main_def Let_def validateFlags_def validateConfFile_def demo_env_def BuildClient_def)
qed

theorem blackhole_never_resolves_witness:
  "\<exists>evs server. main demo_env False ''conf'' = (evs, Exited 1, server) \<and> Listen (''tcp-tls'', '':0'') \<in> set evs \<and>
     (\<forall>srv. Listen srv \<in> set evs \<longrightarrow> fst srv = ''tcp-tls'')"
proof -
  obtain evs server where m: "main demo_env False ''conf'' = (evs, Exited 1, server)" "Listen (''tcp-tls'', '':0'') \<in> set evs"
    using demo_main by blast
  obtain a out where conf: "InitConfiguration (en_ReadConf demo_env ''conf'') fresh = (None, a, out)"
      "GetConfiguration a = GetConfiguration blackhole_conf"
    using blackhole_read by (auto simp: demo_env_def)
  have "cfg_Blackhole (GetConfiguration blackhole_conf)"
      "en_ListenAndServe demo_env (''tcp-tls'', '':'' @ format_d (cfg_DnsPort (GetConfiguration blackhole_conf))) \<noteq> None"
    by (simp_all add: demo_env_def)
  from blackhole_never_resolves [OF m(1) conf(1) conf(2) [symmetric] this] m show ?thesis by blast
qed

definition demo_writer :: http_writer where
  "demo_writer = \<lparr>hw_header = fmempty, hw_status = None, hw_body = [], hw_fails = None\<rparr>"

theorem shown_configuration_is_read_back_witness:
  "\<exists>a out w' a'. InitConfiguration (Some blackhole_file) fresh = (None, a, out) \<and>
     serve_path (fst (InitApi (\<lambda>w. (w, [])) (\<lambda>_. None) [] (en_version demo_env) a)) ''/v1/config'' demo_writer = Some (w', []) \<and>
     InitConfiguration (Some (hw_body w')) fresh = (None, a', out) \<and> cfg_Blackhole (GetConfiguration a')"
proof -
  obtain a out where conf: "InitConfiguration (Some blackhole_file) fresh = (None, a, out)"
      "GetConfiguration a = GetConfiguration blackhole_conf"
    by (rule blackhole_read)
  have "hw_status demo_writer = None" "hw_fails demo_writer = None" "hw_body demo_writer = []"
    by (simp_all add: demo_writer_def)
  from shown_configuration_is_read_back [OF conf(1) this] conf show ?thesis
    by (metis blackhole_configuration(1))
qed

theorem api_answers_json_witness:
  "\<exists>a out w'. InitConfiguration (Some blackhole_file) fresh = (None, a, out) \<and>
     serve_path (fst (InitApi (\<lambda>w. (w, [])) (\<lambda>_. Some (External ''timeout'')) [(''udp'', '':53'')] (en_version demo_env) a))
       ''/v1/shutdown'' demo_writer = Some (w', [External ''timeout'']) \<and> hw_status w' = Some 200 \<and>
     parse_json (hw_body w') = Some (JObj [(''message'', JStr ''shutting down server'')], [])"
proof -
  obtain a out where conf: "InitConfiguration (Some blackhole_file) fresh = (None, a, out)"
    using blackhole_read by blast
  have "utf8_Version (en_version demo_env)" "hw_status demo_writer = None" "hw_fails demo_writer = None"
      "hw_body demo_writer = []" "''/v1/shutdown'' \<in> {''/v1/config'', ''/v1/shutdown'', ''/v1/version''}"
    by (simp_all add: demo_writer_def demo_env_def utf8_Version_def)
  from api_answers_json [OF conf this, of "\<lambda>w. (w, [])" "\<lambda>_. Some (External ''timeout'')" "[(''udp'', '':53'')]"]
  obtain w' errs v where w': "serve_path (fst (InitApi (\<lambda>w. (w, [])) (\<lambda>_. Some (External ''timeout'')) [(''udp'', '':53'')]
        (en_version demo_env) a)) ''/v1/shutdown'' demo_writer = Some (w', errs)" "hw_status w' = Some 200"
      "parse_json (hw_body w') = Some (v, [])"
      "''/v1/shutdown'' = ''/v1/shutdown'' \<longrightarrow> v = JObj [(''message'', JStr ''shutting down server'')]"
      "errs = (if ''/v1/shutdown'' = ''/v1/shutdown'' then List.map_filter (\<lambda>_. Some (External ''timeout'')) [(''udp'', '':53'')] else [])"
    by (elim exE conjE) (rule that, assumption+)
  have "errs = [External ''timeout'']" using w'(5) by (simp add: map_filter_simps)
  moreover have "v = JObj [(''message'', JStr ''shutting down server'')]" using w'(4) by simp
  ultimately show ?thesis using conf w'(1-3) by blast
qed

section \<open>A serving process\<close>

definition serving_conf :: decoded where
  "serving_conf = fresh\<lparr>dec_upstream_slice := \<lparr>sl_elems = [''u''], sl_behind = [], sl_made = True\<rparr>\<rparr>"

definition serving_env :: environment where
  "serving_env = demo_env\<lparr>en_ReadConf := (\<lambda>_. Some (json_text (json_Configuration serving_conf)))\<rparr>"

lemma serving_configuration [simp]:
  "\<not> cfg_Blackhole (GetConfiguration serving_conf)" "cfg_ZoneFiles (GetConfiguration serving_conf) = []"
  "cfg_Upstreams (GetConfiguration serving_conf) = [''u'']" "cfg_UpstreamRetries (GetConfiguration serving_conf) = 0"
  "cleaning_interval (GetConfiguration serving_conf) = 1000 * Millisecond"
  by (simp_all add: GetConfiguration_def serving_conf_def fresh_def Configuration.defs nil_slice_def zero_Configuration_def
      cleaning_interval_def janitor_Start_def Let_def)

lemma serving_interval [simp]: "0 < nanos (1000 * Millisecond)"
  by (simp add: Millisecond_def)

lemma serving_read:
  obtains a out where "InitConfiguration (en_ReadConf serving_env conf) fresh = (None, a, out)"
    and "GetConfiguration a = GetConfiguration serving_conf"
proof -
  have "config_ok serving_conf"
    using config_ok_fresh utf8_plain [of "''u''"] by (simp add: config_ok_def serving_conf_def slice_ok_def)
  from printed_is_accepted [OF this refl] that show ?thesis by (auto simp: serving_env_def)
qed

lemma serving_main:
  obtains events st s ls where "main serving_env False ''conf'' = (events, st, Some (s, ls))"
proof -
  obtain a out where conf: "InitConfiguration (en_ReadConf serving_env ''conf'') fresh = (None, a, out)"
      "GetConfiguration a = GetConfiguration serving_conf"
    by (rule serving_read)
  obtain s where s: "NewMutexServer (GetConfiguration serving_conf) (en_gomaxprocs serving_env) None = Inr s"
    by (simp add: NewMutexServer_def Let_def)
  have zones: "loadLocalZones (GetConfiguration serving_conf) p f c st s = Some s" for p f c st
    by (simp add: loadLocalZones_def)
  have flags: "validateFlags (en_Stat serving_env) ''conf'' = None"
    by (simp add: validateFlags_def validateConfFile_def serving_env_def demo_env_def)
  obtain evs st where "main_serve serving_env (GetConfiguration serving_conf) = (evs, st)" by fastforce
  with that s conf zones flags show ?thesis by (simp add: main_def Let_def BuildClient_def)
qed


end
