(* ===== verification/Gauges.thy ===== *)
theory Gauges
  imports CleaningCrew PoolSelection
begin

text \<open>
  The metrics of \<open>src/prom.go\<close> as they are declared, and those that the pool and the trashman update beside
  their own state: how often upstreams are dialled, the weight of an upstream, the size of the eviction
  buffer. Registering a metric twice, or under a name that is not valid, panics at the start of the process.
\<close>

section \<open>Declarations\<close>

datatype metric_kind = Counter | Gauge | Summary

record metric =
  mc_name :: string
  mc_kind :: metric_kind
  mc_labels :: "string list"

definition declare_metric :: "string \<Rightarrow> metric_kind \<Rightarrow> string list \<Rightarrow> metric" where
  "declare_metric name kind labels = \<lparr>mc_name = name, mc_kind = kind, mc_labels = labels\<rparr>"

definition UpstreamWeightGauge :: metric where
  "UpstreamWeightGauge = declare_metric ''funkyd_upstream_weight_gauge'' Gauge [''address'', ''error'', ''cooling'']"

definition prom_metrics :: "metric list" where
  "prom_metrics =
     [declare_metric ''funkyd_build_info'' Gauge [''version''],
      declare_metric ''funkyd_eviction_buffer_gauge'' Gauge [],
      UpstreamWeightGauge,
      declare_metric ''funkyd_conn_pool_size'' Gauge [''destination''],
      declare_metric ''funkyd_queued_queries_total'' Gauge [],
      declare_metric ''funkyd_failed_connections_counter'' Counter [''destination''],
      declare_metric ''funkyd_dns_queries_total'' Counter [],
      declare_metric ''funkyd_cache_entries_total'' Gauge [],
      declare_metric ''funkyd_cache_hits_total'' Counter [],
      declare_metric ''funkyd_hosted_cache_hits_total'' Counter [],
      declare_metric ''funkyd_recursive_queries_total'' Counter [],
      declare_metric ''funkyd_upstream_errors_total'' Counter [''destination''],
      declare_metric ''funkyd_servfails_total'' Counter [],
      declare_metric ''funkyd_nxdomains_total'' Counter [],
      declare_metric ''funkyd_query_time'' Summary [],
      declare_metric ''funkyd_upstream_exchange_time'' Summary [''destination''],
      declare_metric ''funkyd_tls_connection_time'' Summary [''destination''],
      declare_metric ''funkyd_new_connection_attempts_total'' Counter [''destination''],
      declare_metric ''funkyd_reused_connections_total'' Counter [''destination'']]"

definition name_char :: "char \<Rightarrow> bool" where
  "name_char c \<longleftrightarrow> (let b = (of_char c :: nat) in 97 \<le> b \<and> b \<le> 122 \<or> 65 \<le> b \<and> b \<le> 90 \<or> 48 \<le> b \<and> b \<le> 57 \<or> b = 95)"

definition valid_name :: "string \<Rightarrow> bool" where
  "valid_name s \<longleftrightarrow> s \<noteq> [] \<and> list_all name_char s \<and> \<not> (48 \<le> (of_char (hd s) :: nat) \<and> of_char (hd s) \<le> (57 :: nat))"

text \<open>\<open>promauto\<close> registers one metric after the other; nothing stands for the panic.\<close>

fun register_all :: "metric list \<Rightarrow> string list \<Rightarrow> string list option" where
  "register_all [] names = Some names"
| "register_all (m # ms) names =
     (if valid_name (mc_name m) \<and> list_all valid_name (mc_labels m) \<and> distinct (mc_labels m) \<and>
         (mc_kind m = Summary \<longrightarrow> ''quantile'' \<notin> set (mc_labels m)) \<and> mc_name m \<notin> set names
      then register_all ms (mc_name m # names) else None)"

text \<open>The process gets past the registration of its metrics.\<close>

lemma prom_metrics_register: "register_all prom_metrics [] = Some (rev (map mc_name prom_metrics))"
proof -
  have "list_all (\<lambda>m. valid_name (mc_name m) \<and> list_all valid_name (mc_labels m) \<and> distinct (mc_labels m) \<and>
      (mc_kind m = Summary \<longrightarrow> ''quantile'' \<notin> set (mc_labels m))) prom_metrics"
    by (simp add: prom_metrics_def UpstreamWeightGauge_def declare_metric_def valid_name_def name_char_def Let_def)
  moreover have "distinct (map mc_name prom_metrics)"
    by (simp add: prom_metrics_def UpstreamWeightGauge_def declare_metric_def)
  moreover have "register_all ms names = Some (rev (map mc_name ms) @ names)"
    if "list_all (\<lambda>m. valid_name (mc_name m) \<and> list_all valid_name (mc_labels m) \<and> distinct (mc_labels m) \<and>
        (mc_kind m = Summary \<longrightarrow> ''quantile'' \<notin> set (mc_labels m))) ms"
      and "distinct (map mc_name ms)" and "set (map mc_name ms) \<inter> set names = {}" for ms names
    using that by (induction ms arbitrary: names) auto
  ultimately show ?thesis by simp
qed

section \<open>Dialling\<close>

record dial_metrics =
  dm_NewConnectionAttempts :: "string \<Rightarrow> nat"
  dm_TLSTimer :: "string \<Rightarrow> nat"
  dm_FailedConnections :: "string \<Rightarrow> nat"

text \<open>What \<open>NewConnection\<close> counts; a failed dial is only counted when its upstream is still known.\<close>

definition NewConnection_metrics ::
  "connPool \<Rightarrow> Upstream \<Rightarrow> (string \<Rightarrow> go_error + nat) \<Rightarrow> dial_metrics \<Rightarrow> dial_metrics" where
  "NewConnection_metrics c upstream dialFunc m =
     (let address = Upstream_GetAddress upstream;
          count = (\<lambda>f. f(address := Suc (f address)));
          m1 = m\<lparr>dm_NewConnectionAttempts := count (dm_NewConnectionAttempts m), dm_TLSTimer := count (dm_TLSTimer m)\<rparr>
      in case dialFunc address of
           Inr conn \<Rightarrow> m1
         | Inl err \<Rightarrow>
             (case getUpstreamByAddress c address of
                Inl upstreamErr \<Rightarrow> m1
              | Inr p \<Rightarrow> m1\<lparr>dm_FailedConnections := count (dm_FailedConnections m1)\<rparr>))"

text \<open>Every dial is an attempt, and it is counted as failed exactly when its upstream is set cooling.\<close>

lemma NewConnection_counted:
  assumes "connPool_NewConnection cfg now c u dialFunc d = ((ce, err), c')"
  shows "dm_NewConnectionAttempts (NewConnection_metrics c u dialFunc m) (Upstream_GetAddress u)
      = Suc (dm_NewConnectionAttempts m (Upstream_GetAddress u))"
    and "dm_FailedConnections (NewConnection_metrics c u dialFunc m) (Upstream_GetAddress u)
      = dm_FailedConnections m (Upstream_GetAddress u) + of_bool (\<exists>e. err = Some (CoolingUpstream (Upstream_GetAddress u) e))"
  using assms
  by (auto simp: connPool_NewConnection_def NewConnection_metrics_def Let_def split: sum.splits)

section \<open>The weight of an upstream\<close>

text \<open>
  The labels and the value that \<open>updateUpstream\<close> sets, if it gets that far; it reads the clock four times.
  \<open>show_date\<close> is the local date and time, \<open>show_duration\<close> the text of a duration.
\<close>

definition updateUpstream_weight ::
  "(time \<Rightarrow> string) \<Rightarrow> (duration \<Rightarrow> string) \<Rightarrow> Configuration \<Rightarrow> sort_fun \<Rightarrow> clock \<Rightarrow> connPool \<Rightarrow> connEntry
     \<Rightarrow> (string list \<times> rat) option" where
  "updateUpstream_weight show_date show_duration cfg srt clk c ce =
     (case getUpstreamByAddress c (connEntry_GetAddress ce) of
        Inl err \<Rightarrow> None
      | Inr p \<Rightarrow>
          let c1 = (if connEntry_GetWeight ce \<noteq> 0 then weightUpstream c p ce else c);
              errorString = (if IsCooling (clk 0) (cp_store c1 p) then ''cooling'' else ''no'');
              c2 = (if connEntry_Error ce then coolAndPurgeUpstream cfg (clk 1) c1 p else c1);
              errorString2 = (if connEntry_Error ce then errorString @ '', connection'' else errorString);
              upstream = cp_store (sortUpstreams srt c2) p;
              wut = WakeupTime upstream;
              coolingString = (if IsCooling (clk 2) upstream
                then show_date wut @ '':'' @ show_duration (time_sub (clk 3) wut) else ''0'')
          in Some ([Upstream_GetAddress upstream, errorString2, coolingString], Upstream_GetWeight upstream))"

lemma updateUpstream_weight_labels:
  "updateUpstream_weight show_date show_duration cfg srt clk c ce = Some (labels, v) \<Longrightarrow>
     length labels = length (mc_labels UpstreamWeightGauge)"
  by (auto simp: updateUpstream_weight_def UpstreamWeightGauge_def declare_metric_def Let_def split: sum.splits)

lemma weightUpstream_wakeup [simp]: "up_wakeupTime (cp_store (weightUpstream c p ce) q) = up_wakeupTime (cp_store c q)"
  by (simp add: weightUpstream_def Upstream_SetWeight_def)

text \<open>
  The label holds the time that is left: while an upstream is cooling, giving back one and the same
  connection at two times sets two different series, so their number grows with the traffic.
\<close>

lemma weight_series_grow:
  assumes "getUpstreamByAddress c (connEntry_GetAddress ce) = Inr p" and "\<not> connEntry_Error ce"
    and "IsCooling (clk 2) (cp_store c p)" and "IsCooling (clk' 2) (cp_store c p)"
    and "inj show_duration" and "clk 3 \<noteq> clk' 3"
    and "\<bar>clk 3 - up_wakeupTime (cp_store c p)\<bar> \<le> max_dur" and "\<bar>clk' 3 - up_wakeupTime (cp_store c p)\<bar> \<le> max_dur"
  shows "map_option fst (updateUpstream_weight show_date show_duration cfg srt clk c ce)
    \<noteq> map_option fst (updateUpstream_weight show_date show_duration cfg srt clk' c ce)"
proof -
  have "nanos (time_sub t u) = t - u" if "\<bar>t - u\<bar> \<le> max_dur" for t u
    using that by (simp add: nanos_time_sub min_dur_def max_dur_def)
  then have "time_sub (clk 3) (up_wakeupTime (cp_store c p)) \<noteq> time_sub (clk' 3) (up_wakeupTime (cp_store c p))"
    using assms(6-8) by (metis add_diff_cancel_right' diff_add_cancel)
  then have "show_duration (time_sub (clk 3) (up_wakeupTime (cp_store c p)))
      \<noteq> show_duration (time_sub (clk' 3) (up_wakeupTime (cp_store c p)))"
    using assms(5) by (simp add: inj_eq)
  with assms(1-4) show ?thesis
    by (auto simp: updateUpstream_weight_def Let_def IsCooling_def WakeupTime_def sortUpstreams_def)
qed

section \<open>The eviction buffer\<close>

text \<open>The gauge after an arm of the trashman's loop; only the first one sets it.\<close>

datatype trashman_arm = Received Response | Pausing bool

fun EvictionBufferGauge :: "string list \<Rightarrow> trashMan \<Rightarrow> RecordCache \<Rightarrow> trashman_arm \<Rightarrow> nat \<Rightarrow> nat" where
  "EvictionBufferGauge order t rc (Received response) gauge = ResponsesQueued (fst (trashMan_receive order t rc response))"
| "EvictionBufferGauge order t rc (Pausing p) gauge = gauge"

text \<open>Responses that arrived during a pause are flushed at its end, and the gauge goes on showing them.\<close>

lemma gauge_stale_after_pause:
  assumes "enumerates order (tm_responses t)" and "tm_evictionBatchSize t \<le> int (ResponsesQueued t)"
  shows "ResponsesQueued (fst (trashMan_pause order t rc False)) = 0 \<and>
    EvictionBufferGauge order t rc (Pausing False) gauge = gauge"
proof -
  have "enumerates order (tm_responses (t\<lparr>tm_paused := False\<rparr>))" using assms(1) by simp
  with assms show ?thesis by (simp add: trashMan_pause_def Let_def Flush_spec(1) ResponsesQueued_def)
qed

section \<open>The size of the caches\<close>

text \<open>
  One gauge of the process for all caches: every \<open>Add\<close> and every \<open>remove\<close> sets it to the size of its own
  cache. \<open>RemoveSlice\<close> sets it once for each response.
\<close>

datatype cache_change = Adding Response | Removing Response | RemovingSlice "Response list"

fun change_cache :: "cache_change \<Rightarrow> RecordCache \<Rightarrow> RecordCache" where
  "change_cache (Adding response) rc = RecordCache_Add rc response"
| "change_cache (Removing response) rc = RecordCache_Remove rc response"
| "change_cache (RemovingSlice responses) rc = RecordCache_RemoveSlice rc responses"

fun CacheSizeGauge :: "cache_change \<Rightarrow> RecordCache \<Rightarrow> nat \<Rightarrow> nat" where
  "CacheSizeGauge (RemovingSlice []) rc gauge = gauge"
| "CacheSizeGauge change rc gauge = RecordCache_Size (change_cache change rc)"

text \<open>Changes to a lookup cache (\<open>False\<close>) and a hosted cache (\<open>True\<close>), in the order in which they happen.\<close>

fun change_caches :: "(bool \<times> cache_change) list \<Rightarrow> RecordCache \<times> RecordCache \<times> nat \<Rightarrow> RecordCache \<times> RecordCache \<times> nat" where
  "change_caches [] s = s"
| "change_caches ((False, change) # changes) (lookup, hosted, gauge) =
     change_caches changes (change_cache change lookup, hosted, CacheSizeGauge change lookup gauge)"
| "change_caches ((True, change) # changes) (lookup, hosted, gauge) =
     change_caches changes (lookup, change_cache change hosted, CacheSizeGauge change hosted gauge)"

text \<open>
  Whatever has happened, one change to the hosted cache makes the gauge show its size; the size of the
  lookup cache is no longer to be seen.
\<close>

lemma change_caches_append:
  "change_caches (xs @ ys) s = change_caches ys (change_caches xs s)"
  by (induction xs s rule: change_caches.induct) simp_all

lemma hosted_change_hides_lookup:
  assumes "change_caches (changes @ [(True, change)]) s = (lookup, hosted, gauge)"
    and "change \<noteq> RemovingSlice []"
  shows "gauge = RecordCache_Size hosted"
  using assms
  by (cases "change_caches changes s"; cases "(change, hosted, gauge)" rule: CacheSizeGauge.cases)
    (auto simp: change_caches_append)

end
