(* ===== verification/Spec2Isabelle.thy ===== *)
theory Spec2Isabelle
  imports ServiceWitnesses Gauges
begin

text \<open>
  A model of funkyd, a caching DNS proxy that resolves over TLS, and what holds of it.

  The program. \<open>src/main.go\<close> reads a configuration, builds a mutex server (\<open>src/mutex_server.go\<close>), loads
  zone files into its hosted cache (\<open>src/bind.go\<close>), and hands the server to the listeners of the DNS
  library. A query asks the lookup cache, then the hosted cache (\<open>src/cache.go\<close>), then an upstream over
  a pooled TLS connection (\<open>src/connpool.go\<close>, \<open>src/upstream.go\<close>); what comes back is stored and sent. A
  janitor and a trashman clean the lookup cache in the background. \<open>src/pipeline_server.go\<close> is a second
  server over the same caches and pools, five kinds of workers joined by channels, which \<open>main\<close> does not
  start. Around them are the logger (\<open>src/log.go\<close>), the HTTP API (\<open>src/http.go\<close>, \<open>src/version.go\<close>) and
  a blackhole server (\<open>src/blackhole_server.go\<close>).

  The theories, in the order they build on each other:

  \<^item> \<open>GoNum\<close>: 64-bit durations with Go's saturating and truncating operations, doubles as exact rationals
    rounded to 53 bits. \<open>Prelude\<close>: outcomes that may panic, error values with one constructor per
    \<open>fmt.Errorf\<close>, the clock as a sequence of readings, \<open>%s:%d\<close> keys, the order of \<open>range\<close> over a map.
  \<^item> \<open>Dns\<close>: messages and records; records are reached through pointers into a store, because the cache
    writes their TTLs through the pointers it shares with its clients. \<open>Config\<close>: the configuration.
  \<^item> \<open>Json\<close>, \<open>JsonRoundtrip\<close>: Go's JSON encoder and decoder on byte strings, with their treatment of bytes
    that are not UTF-8, and that a value is read back as it was encoded, however it is laid out.
    \<open>ConfigJson\<close>: \<open>InitConfiguration\<close> of \<open>src/config.go\<close>, decoding by field tags and by type, as the decoder
    does it after errors, for nulls, for names in another case, and for slices that are filled twice.
    \<open>ConfigReads\<close>: which files are accepted, and that what is printed is read back.
  \<^item> \<open>RecordCache\<close>: \<open>Response\<close> and every method of \<open>RecordCache\<close>, with the goroutines of \<open>Evict\<close> that have
    not run yet (\<open>rc_evicting\<close>) and the size gauge. \<open>CacheContract\<close>: the locale \<open>response_cache\<close>, the
    contract of the \<open>Cache\<close> interface, and its interpretation. \<open>CleaningCrew\<close>, \<open>CrewRuns\<close>: trashman,
    janitor, and the step relation \<open>crew_step\<close> in which they and the clients interleave.
  \<^item> \<open>Upstreams\<close>, \<open>ConnPool\<close>: upstreams, connection entries and every method of \<open>connPool\<close>, with the closing
    goroutines of \<open>purgeUpstream\<close> that have not run yet (\<open>cp_closing\<close>) and the connections closed so far.
    \<open>PoolSelection\<close>: what \<open>Get\<close> chooses, what \<open>Add\<close> and failures do to weights, order and cooling.
    \<open>Gauges\<close>: the metrics as \<open>src/prom.go\<close> declares them, and those that pool and trashman set.
    \<open>PoolRuns\<close>: the locale \<open>connection_ledger\<close>, the contract of the \<open>ConnPool\<close> interface in terms of who
    owns which connection, its interpretation, and runs of many clients.
  \<^item> \<open>Servers\<close>: \<open>src/server.go\<close>, the metrics of \<open>src/prom.go\<close> and the query log. \<open>MutexServer\<close>: its handlers,
    from \<open>HandleDNS\<close> down to one exchange. \<open>MutexQueries\<close>, \<open>MutexReplies\<close>: what a query does to the pool and
    what a client sees. \<open>MutexRuns\<close>, \<open>MutexSystem\<close>: the goroutine of a query cut at every access to shared
    state (\<open>go_step\<close>), the refinement of the sequential code into its runs, and the system of any number
    of goroutines, the cleaning crew and the closing goroutines (\<open>sys_step\<close>).
  \<^item> \<open>Zones\<close>: the zone files. \<open>HostedAnswers\<close>: from a zone file to the answer. \<open>MutexCrashes\<close>: every place where
    the server can panic, as steps into a state in which the process is down (\<open>live_step\<close>).
    \<open>MutexProgress\<close>: a measure of the steps a request has left, and that some goroutine can always go on.
  \<^item> \<open>Pipeline\<close>: queries, workers, the arms of their \<open>select\<close> loops and \<open>NewPipelineServer\<close>. A channel is
    named by the place that made it, and a field that was never set is \<open>NilChan\<close>. \<open>PipelineRuns\<close>: the
    workers together (\<open>pipe_step\<close>), a send and its receive being one step because the channels are
    unbuffered; the wiring and what it keeps empty; when a set of workers is blocked for good.
    \<open>PipelineLedger\<close>: requests, answers and queries on their way. \<open>PipelineFaults\<close>: deadlock, halt, crash,
    and the reply.
  \<^item> \<open>Logging\<close>: the logger. \<open>HttpApi\<close>: the HTTP handlers, middlewares and routes. \<open>Service\<close>: \<open>main\<close>, which reads
    a configuration file, builds the client and the server, loads the zones and listens, and the
    blackhole server. \<open>Process\<close>: the system of \<open>MutexCrashes\<close> as \<open>main\<close> starts it.
  \<^item> \<open>CacheWitnesses\<close>, \<open>PoolWitnesses\<close>, \<open>MutexWitnesses\<close>, \<open>PipelineWitnesses\<close>, \<open>CrashWitnesses\<close>,
    \<open>ServiceWitnesses\<close>: concrete instances, on one small server, of the properties that have hypotheses.

  What the lemmas show, by part:

  \<^item> Caches: the entry under a key is what the last operation made of it; entries are under their own keys;
    expired entries and only those are handed to the trashman, batches are complete and in order; with a
    crew nothing panics. Expiry is only right for the first half of a lifetime, because the TTL is
    overwritten and the creation time is not; a reply without records never expires.
  \<^item> Pool: every connection is in exactly one place in every interleaving, the pool's order follows the
    measured latency, pooled connections of upstreams that are not cooling are preferred, purging cools
    for exactly the configured period, and the closing goroutines come to an end.
  \<^item> Mutex server: one reply for every request that gets a permit, under its identifier; no more queries
    in progress than permits; no connection shared or leaked; at most one attempt more than the retries,
    the first success wins; replies are served from the cache afterwards. Without zone files the process
    never panics and never deadlocks: each request takes a bounded number of steps and is answered. A
    zone record is answered in the first half of its lifetime; after that a query for it ends the process.
  \<^item> Pipeline: no request is lost or answered twice, but an answer has the wrong identifier, nothing is ever
    cached, three successful queries can deadlock the workers, an upstream that cannot be dialled halts
    them, and one whose exchanges fail crashes the process.
  \<^item> Configuration and process: a file is accepted exactly when it fits the schema of names and types; what
    is printed, or shown by the API, is a configuration file for the same configuration; the API answers
    with JSON; a log message is one line, from which the message can be read back; in blackhole mode
    nothing is resolved.

  Parameters. The DNS library (\<open>dns_lib\<close>, with the hypothesis \<open>dns_contract\<close> for what its documentation
  promises of \<open>SetReply\<close>, \<open>SetRcode\<close>, \<open>SetQuestion\<close> and \<open>Copy\<close>), its zone parser (\<open>delivers\<close>) and its exchange with
  an upstream, the dialling function, the clock, \<open>sort.Slice\<close> (\<open>sort_contract\<close>: a permutation sorted by
  weight), the conversion of a double that is out of range to \<open>uint32\<close>, the order of \<open>range\<close> over a map,
  the operating system and the listeners. Every hypothesis is met by the instances in the witness theories.

  Bounds. The retry loop of \<open>RecursiveQuery\<close> runs over the number of its rounds, \<open>nat (UpstreamRetries + 1)\<close>,
  that of \<open>AssignConnection\<close> over \<open>nat (retries - ConnectionRetries)\<close>, both computed from the loop's own
  bounds, so nothing is cut short; all other loops recurse over their list. The JSON parser takes a bound on its
  nested calls, which \<open>parse_json\<close> sets to one more than twice the length of the text: every call consumes a
  character of it, and \<open>parse_fuel\<close> shows that a larger bound never gives another result. Values
  nested more than 10000 levels deep are refused, as Go's decoder does.

  Not modelled. Diagnostic messages of the components, the help texts of metrics and how the Prometheus
  library exposes them, the redirects of the router library, the texts of the JSON decoder's errors (an error keeps its kind, the
  field or the JSON type); test code and mocks. A semaphore with waiters is
  a counter whose waiting queries are those still at \<open>Waiting\<close>, in no particular order.
\<close>

end
